(* ===== verification/Txvc_Prelude.thy ===== *)
theory Txvc_Prelude
  imports Main "HOL-Library.Word" "HOL-Library.Signed_Division"
begin

text \<open>
  Shared vocabulary of the development: the outcome of a piece of C code (a value, or the
  way the process dies or leaves defined behaviour), checked C integer arithmetic and
  checked reads and writes of byte arrays, and the generic lemmas on them.

  A C function is modelled as a HOL function into \<open>'a c_res\<close>. \<open>Ok x\<close> is a normal return.
  \<open>Fault e\<close> records why there is none: the logger's \<open>abort()\<close> on a \<open>FATAL\<close> message or a
  failed \<open>ALWAYS_ASSERT\<close> (\<open>FatalAbort\<close>), \<open>TXVC_UNREACHABLE()\<close> (\<open>Unreachable\<close>), or one of the
  undefined behaviours of C the sources can run into.
\<close>

unbundle bit_operations_syntax

type_synonym u8 = "8 word"
type_synonym u32 = "32 word"
type_synonym u64 = "64 word"

abbreviation NUL :: char where
  "NUL \<equiv> CHR 0x00"

datatype c_fault =
    FatalAbort      \<comment> \<open>\<open>FATAL(...)\<close>, hence also \<open>ALWAYS_ASSERT\<close>: the logger aborts\<close>
  | Unreachable     \<comment> \<open>\<open>TXVC_UNREACHABLE()\<close>: \<open>__builtin_trap\<close>\<close>
  | OutOfBounds     \<comment> \<open>access outside of an object\<close>
  | SignedOverflow  \<comment> \<open>signed \<open>int\<close> arithmetic leaves its range\<close>
  | BadShift        \<comment> \<open>shift by a negative amount\<close>
  | NullDeref       \<comment> \<open>access or call through a null pointer\<close>
  | DeadObject      \<comment> \<open>access to an object whose lifetime has ended\<close>
  | OutOfFuel       \<comment> \<open>a loop of the model has used up its fuel; not a behaviour of the program\<close>

datatype 'a c_res = Ok 'a | Fault c_fault

primrec c_bind :: "'a c_res \<Rightarrow> ('a \<Rightarrow> 'b c_res) \<Rightarrow> 'b c_res" where
  "c_bind (Ok x) f = f x"
| "c_bind (Fault e) f = Fault e"

primrec c_is_ok :: "'a c_res \<Rightarrow> bool" where
  "c_is_ok (Ok x) = True"
| "c_is_ok (Fault e) = False"

definition c_assert :: "bool \<Rightarrow> unit c_res" where
  "c_assert b = (if b then Ok () else Fault FatalAbort)"

definition c_int :: "int \<Rightarrow> int c_res" where
  "c_int x = (if - (2 ^ 31) \<le> x \<and> x < 2 ^ 31 then Ok x else Fault SignedOverflow)"

definition rd_at :: "'a list \<Rightarrow> int \<Rightarrow> 'a c_res" where
  "rd_at xs i = (if 0 \<le> i \<and> i < int (length xs) then Ok (xs ! nat i) else Fault OutOfBounds)"

definition wr_at :: "'a list \<Rightarrow> int \<Rightarrow> 'a \<Rightarrow> 'a list c_res" where
  "wr_at xs i v =
     (if 0 \<le> i \<and> i < int (length xs) then Ok (xs[nat i := v]) else Fault OutOfBounds)"

text \<open>\<open>octet & (1 << k)\<close> for an \<open>int\<close> shift amount.\<close>

definition mask_bit :: "int \<Rightarrow> u8 c_res" where
  "mask_bit k = (if k < 0 then Fault BadShift else Ok (push_bit (nat k) 1))"

named_theorems c_res_simps \<open>unfolding of checked C operations on arguments in range\<close>

subsection \<open>Outcomes\<close>

lemma ex_bool [simp]: "Ex Not" "\<exists>b. b"
  by (rule exI [of _ False], simp) (rule exI [of _ True], simp)

lemma c_bind_cong [fundef_cong]:
  assumes "m = m'" and "\<And>x. m' = Ok x \<Longrightarrow> f x = f' x"
  shows "c_bind m f = c_bind m' f'"
  using assms by (cases m') auto

lemma c_bind_eq_Ok [simp]: "c_bind m f = Ok y \<longleftrightarrow> (\<exists>x. m = Ok x \<and> f x = Ok y)"
  by (cases m) auto

lemma c_bind_eq_Fault: "c_bind m f = Fault e \<longleftrightarrow> m = Fault e \<or> (\<exists>x. m = Ok x \<and> f x = Fault e)"
  by (cases m) auto

lemma c_bind_assoc: "c_bind (c_bind m f) g = c_bind m (\<lambda>x. c_bind (f x) g)"
  by (cases m) auto

lemma c_bind_Ok_right [simp]: "c_bind m Ok = m"
  by (cases m) auto

lemma c_is_ok_iff: "c_is_ok m \<longleftrightarrow> (\<exists>x. m = Ok x)"
  by (cases m) auto

text \<open>Safe outcomes: a result with a given property, or the deliberate abort of the logger; never
  undefined behaviour or a trap.\<close>

definition c_safe :: "'a c_res \<Rightarrow> ('a \<Rightarrow> bool) \<Rightarrow> bool" where
  "c_safe m P \<longleftrightarrow> (case m of Ok x \<Rightarrow> P x | Fault e \<Rightarrow> e = FatalAbort)"

lemma c_safe_Ok [simp]: "c_safe (Ok x) P \<longleftrightarrow> P x"
  by (simp add: c_safe_def)

lemma c_safe_Fault [simp]: "c_safe (Fault e) P \<longleftrightarrow> e = FatalAbort"
  by (simp add: c_safe_def)

lemma c_safe_bindI:
  "c_safe m P \<Longrightarrow> (\<And>x. P x \<Longrightarrow> c_safe (f x) Q) \<Longrightarrow> c_safe (c_bind m f) Q"
  by (cases m) auto

lemma c_safe_mono: "c_safe m P \<Longrightarrow> (\<And>x. P x \<Longrightarrow> Q x) \<Longrightarrow> c_safe m Q"
  by (cases m) auto

lemma c_safe_iff: "c_safe m P \<longleftrightarrow> (\<exists>x. m = Ok x \<and> P x) \<or> m = Fault FatalAbort"
  by (cases m) auto

lemma c_safe_assert: "c_safe (c_assert b) (\<lambda>_. b)"
  by (simp add: c_assert_def)

text \<open>The same with a flag that rules out the abort as well, so that one proof serves for safety
  (\<open>strict\<close> false) and for total correctness (\<open>strict\<close> true).\<close>

definition c_out :: "bool \<Rightarrow> 'a c_res \<Rightarrow> ('a \<Rightarrow> bool) \<Rightarrow> bool" where
  "c_out strict m P \<longleftrightarrow> (case m of Ok x \<Rightarrow> P x | Fault e \<Rightarrow> e = FatalAbort \<and> \<not> strict)"

lemma c_out_Ok [simp]: "c_out strict (Ok x) P \<longleftrightarrow> P x"
  by (simp add: c_out_def)

lemma c_out_Fault [simp]: "c_out strict (Fault e) P \<longleftrightarrow> e = FatalAbort \<and> \<not> strict"
  by (simp add: c_out_def)

lemma c_out_bindI:
  "c_out strict m P \<Longrightarrow> (\<And>x. m = Ok x \<Longrightarrow> P x \<Longrightarrow> c_out strict (f x) Q) \<Longrightarrow> c_out strict (c_bind m f) Q"
  by (cases m) auto

lemma c_out_mono: "c_out strict m P \<Longrightarrow> (\<And>x. P x \<Longrightarrow> Q x) \<Longrightarrow> c_out strict m Q"
  by (cases m) auto

lemma c_out_False: "c_out False m P \<longleftrightarrow> c_safe m P"
  by (cases m) auto

lemma c_out_True: "c_out True m P \<longleftrightarrow> (\<exists>x. m = Ok x \<and> P x)"
  by (cases m) auto

lemma c_assert_simps [simp]:
  "c_assert True = Ok ()" "c_assert False = Fault FatalAbort"
  by (simp_all add: c_assert_def)

subsection \<open>Checked integers and arrays\<close>

lemma c_int_in [c_res_simps]: "- (2 ^ 31) \<le> x \<Longrightarrow> x < 2 ^ 31 \<Longrightarrow> c_int x = Ok x"
  by (simp add: c_int_def)

lemma rd_at_in [c_res_simps]: "0 \<le> i \<Longrightarrow> i < int (length xs) \<Longrightarrow> rd_at xs i = Ok (xs ! nat i)"
  by (simp add: rd_at_def)

lemma wr_at_in [c_res_simps]:
  "0 \<le> i \<Longrightarrow> i < int (length xs) \<Longrightarrow> wr_at xs i v = Ok (xs[nat i := v])"
  by (simp add: wr_at_def)

lemma mask_bit_in [c_res_simps]: "0 \<le> k \<Longrightarrow> mask_bit k = Ok (push_bit (nat k) 1)"
  by (simp add: mask_bit_def)

lemma sdiv_nonneg [c_res_simps]: "0 \<le> a \<Longrightarrow> 0 < b \<Longrightarrow> a sdiv b = a div (b :: int)"
  by (cases "a = 0") (simp_all add: signed_divide_int_def)

lemma smod_nonneg [c_res_simps]: "0 \<le> a \<Longrightarrow> 0 < b \<Longrightarrow> a smod b = a mod (b :: int)"
  using minus_sdiv_mult_eq_smod [of a b] by (simp add: sdiv_nonneg minus_div_mult_eq_mod)

lemma int_octet: "int i div 8 = int (i div 8)" "int i mod 8 = int (i mod 8)"
  by (simp_all add: zdiv_int zmod_int)

lemma int_octet_sdiv [c_res_simps]: "int i sdiv 8 = int (i div 8)"
  by (simp add: sdiv_nonneg int_octet)

lemma int_octet_smod [c_res_simps]: "int i smod 8 = int (i mod 8)"
  by (simp add: smod_nonneg int_octet)

lemma rd_at_nat [c_res_simps]: "i < length xs \<Longrightarrow> rd_at xs (int i) = Ok (xs ! i)"
  by (simp add: rd_at_def)

lemma wr_at_nat [c_res_simps]: "i < length xs \<Longrightarrow> wr_at xs (int i) v = Ok (xs[i := v])"
  by (simp add: wr_at_def)

subsection \<open>Bits of bytes\<close>

lemma and_push_bit_1_iff: "(w AND push_bit n 1 \<noteq> 0) \<longleftrightarrow> bit w n" for w :: "'a::len word"
  by (simp add: push_bit_of_1 bit_iff_and_push_bit_not_eq_0)

lemma and_exp_iff: "(w AND 2 ^ n \<noteq> 0) \<longleftrightarrow> bit w n" for w :: "'a::len word"
  using and_push_bit_1_iff [of w n] by (simp add: push_bit_of_1)

lemma and_1_iff: "(w AND 1 \<noteq> 0) \<longleftrightarrow> bit w 0" for w :: "'a::len word"
  using and_push_bit_1_iff [of w 0] by simp

subsection \<open>Bit vectors\<close>

text \<open>Bit \<open>i\<close> of a byte vector: octet \<open>i div 8\<close>, from the least significant bit.\<close>

definition vbit :: "u8 list \<Rightarrow> nat \<Rightarrow> bool" where
  "vbit v i = bit (v ! (i div 8)) (i mod 8)"

definition vbits :: "u8 list \<Rightarrow> nat \<Rightarrow> nat \<Rightarrow> bool list" where
  "vbits v from to = map (vbit v) [from..<to]"

lemma length_vbits [simp]: "length (vbits v from to) = to - from"
  by (simp add: vbits_def)

lemma nth_vbits [simp]: "i < to - from \<Longrightarrow> vbits v from to ! i = vbit v (from + i)"
  by (simp add: vbits_def)

lemma vbits_empty [simp]: "to \<le> from \<Longrightarrow> vbits v from to = []"
  by (simp add: vbits_def)

lemma vbits_append:
  "from \<le> mid \<Longrightarrow> mid \<le> to \<Longrightarrow> vbits v from mid @ vbits v mid to = vbits v from to"
  unfolding vbits_def map_append [symmetric] by (metis le_Suc_ex upt_add_eq_append)

lemma vbits_snoc: "from \<le> to \<Longrightarrow> vbits v from (Suc to) = vbits v from to @ [vbit v to]"
  by (simp add: vbits_def)

lemma vbits_Cons: "from < to \<Longrightarrow> vbits v from to = vbit v from # vbits v (Suc from) to"
  by (simp add: vbits_def upt_conv_Cons)

lemma octet_index: "i < 8 * n \<Longrightarrow> i div 8 < n" for i n :: nat
  by (simp add: less_mult_imp_div_less mult.commute)

lemma octet_offset:
  fixes c i :: nat
  assumes "c mod 8 + i < 8"
  shows "(c + i) div 8 = c div 8 \<and> (c + i) mod 8 = c mod 8 + i"
proof -
  obtain q r where c: "c = 8 * q + r" "r < 8"
    by (metis mult_div_mod_eq mod_less_divisor zero_less_numeral)
  with assms show ?thesis by (simp add: add.assoc)
qed

end
