(* ===== verification/Bit_Vector.thy ===== *)
theory Bit_Vector
  imports Txvc_Prelude
begin

text \<open>
  \<open>libtxvc/bit_vector.c\<close>: comparison and formatting of bit ranges of octet vectors.
  Pointers into the output string are offsets, the string itself is passed and returned.
  \<open>txvc_bit_vector_random\<close> only reads \<open>/dev/urandom\<close> and is not modelled.

  The two formatters hold a loop that does not advance when the output is full, so they are
  partial functions: \<open>None\<close> means that the call never returns.
\<close>

definition get_bit :: "u8 list \<Rightarrow> int \<Rightarrow> bool c_res" where
  "get_bit p idx =
     c_bind (rd_at p (idx sdiv 8)) (\<lambda>octet.
     c_bind (mask_bit (idx smod 8)) (\<lambda>m. Ok (octet AND m \<noteq> 0)))"

subsection \<open>Comparison\<close>

function bit_vector_equal_loop ::
  "u8 list \<Rightarrow> int \<Rightarrow> int \<Rightarrow> u8 list \<Rightarrow> int \<Rightarrow> bool c_res" where
  "bit_vector_equal_loop lhs lhsStart lhsEnd rhs rhsStart =
     (if lhsStart < lhsEnd
      then c_bind (get_bit lhs lhsStart) (\<lambda>a.
           c_bind (get_bit rhs rhsStart) (\<lambda>b.
             if a \<noteq> b then Ok False
             else bit_vector_equal_loop lhs (lhsStart + 1) lhsEnd rhs (rhsStart + 1)))
      else Ok True)"
  by pat_completeness auto
termination
  by (relation "measure (\<lambda>(lhs, lhsStart, lhsEnd, rhs, rhsStart). nat (lhsEnd - lhsStart))") auto

definition txvc_bit_vector_equal ::
  "u8 list \<Rightarrow> int \<Rightarrow> int \<Rightarrow> u8 list \<Rightarrow> int \<Rightarrow> int \<Rightarrow> bool c_res" where
  "txvc_bit_vector_equal lhs lhsStart lhsEnd rhs rhsStart rhsEnd =
     c_bind (c_int (lhsEnd - lhsStart)) (\<lambda>lhsLen.
     c_bind (c_int (rhsEnd - rhsStart)) (\<lambda>rhsLen.
       if lhsLen \<noteq> rhsLen then Ok False
       else bit_vector_equal_loop lhs lhsStart lhsEnd rhs rhsStart))"

subsection \<open>Formatting\<close>

text \<open>The \<open>do ... while\<close> over the bits of one octet: the output, the write offset \<open>p\<close>, the
  space left and the bit index after it.\<close>

function format_lsb_octet ::
  "u8 \<Rightarrow> int \<Rightarrow> string \<Rightarrow> int \<Rightarrow> int \<Rightarrow> int \<Rightarrow> (string \<times> int \<times> int \<times> int) c_res" where
  "format_lsb_octet octet endIdx out p avail idx =
     (if avail \<le> 1 then Ok (out, p, avail, idx)
      else c_bind (mask_bit (idx smod 8)) (\<lambda>m.
           c_bind (wr_at out p (if octet AND m \<noteq> 0 then CHR ''1'' else CHR ''0'')) (\<lambda>out'.
             if idx + 1 < endIdx \<and> (idx + 1) smod 8 \<noteq> 0
             then format_lsb_octet octet endIdx out' (p + 1) (avail - 1) (idx + 1)
             else Ok (out', p + 1, avail - 1, idx + 1))))"
  by pat_completeness auto
termination
  by (relation "measure (\<lambda>(octet, endIdx, out, p, avail, idx). nat (endIdx - idx))") auto

partial_function (option) format_lsb_loop ::
  "u8 list \<Rightarrow> int \<Rightarrow> string \<Rightarrow> int \<Rightarrow> int \<Rightarrow> int \<Rightarrow> (string \<times> int \<times> int) c_res option" where
  "format_lsb_loop vector endIdx out p avail idx =
     (if idx < endIdx
      then (case rd_at vector (idx sdiv 8) of
              Fault e \<Rightarrow> Some (Fault e)
            | Ok octet \<Rightarrow>
                (case format_lsb_octet octet endIdx out p avail idx of
                   Fault e \<Rightarrow> Some (Fault e)
                 | Ok (out', p', avail', idx') \<Rightarrow>
                     format_lsb_loop vector endIdx out' p' avail' idx'))
      else Some (Ok (out, p, avail)))"

text \<open>The terminating NUL and the result, common to both directions.\<close>

definition format_end ::
  "int \<Rightarrow> int \<Rightarrow> int \<Rightarrow> (string \<times> int \<times> int) c_res \<Rightarrow> (string \<times> int) c_res" where
  "format_end outSz start endIdx r =
     c_bind r (\<lambda>(out, p, avail).
     c_bind (wr_at out (if avail \<le> 0 then outSz - 1 else p) (CHR 0x00)) (\<lambda>out'.
     c_bind (c_int (endIdx - start)) (\<lambda>n. Ok (out', n))))"

definition txvc_bit_vector_format_lsb ::
  "string \<Rightarrow> int \<Rightarrow> u8 list \<Rightarrow> int \<Rightarrow> int \<Rightarrow> (string \<times> int) c_res option" where
  "txvc_bit_vector_format_lsb out outSz vector start endIdx =
     map_option (format_end outSz start endIdx) (format_lsb_loop vector endIdx out 0 outSz start)"

function format_msb_octet ::
  "u8 \<Rightarrow> int \<Rightarrow> string \<Rightarrow> int \<Rightarrow> int \<Rightarrow> int \<Rightarrow> (string \<times> int \<times> int \<times> int) c_res" where
  "format_msb_octet octet start out p avail idx =
     (if avail \<le> 1 then Ok (out, p, avail, idx)
      else c_bind (mask_bit (idx smod 8)) (\<lambda>m.
           c_bind (wr_at out p (if octet AND m \<noteq> 0 then CHR ''1'' else CHR ''0'')) (\<lambda>out'.
             if idx - 1 \<ge> start \<and> (idx - 1) smod 8 \<noteq> 7
             then format_msb_octet octet start out' (p + 1) (avail - 1) (idx - 1)
             else Ok (out', p + 1, avail - 1, idx - 1))))"
  by pat_completeness auto
termination
  by (relation "measure (\<lambda>(octet, start, out, p, avail, idx). nat (idx + 1 - start))") auto

partial_function (option) format_msb_loop ::
  "u8 list \<Rightarrow> int \<Rightarrow> string \<Rightarrow> int \<Rightarrow> int \<Rightarrow> int \<Rightarrow> (string \<times> int \<times> int) c_res option" where
  "format_msb_loop vector start out p avail idx =
     (if idx \<ge> start
      then (case rd_at vector (idx sdiv 8) of
              Fault e \<Rightarrow> Some (Fault e)
            | Ok octet \<Rightarrow>
                (case format_msb_octet octet start out p avail idx of
                   Fault e \<Rightarrow> Some (Fault e)
                 | Ok (out', p', avail', idx') \<Rightarrow>
                     format_msb_loop vector start out' p' avail' idx'))
      else Some (Ok (out, p, avail)))"

definition txvc_bit_vector_format_msb ::
  "string \<Rightarrow> int \<Rightarrow> u8 list \<Rightarrow> int \<Rightarrow> int \<Rightarrow> (string \<times> int) c_res option" where
  "txvc_bit_vector_format_msb out outSz vector start endIdx =
     map_option (format_end outSz start endIdx)
       (format_msb_loop vector start out 0 outSz (endIdx - 1))"

declare bit_vector_equal_loop.simps [simp del]
declare format_lsb_octet.simps [simp del]
declare format_msb_octet.simps [simp del]

subsection \<open>Reading and comparing bits\<close>

lemma get_bit_in [c_res_simps]:
  "i < 8 * length v \<Longrightarrow> get_bit v (int i) = Ok (vbit v i)"
  by (simp add: get_bit_def vbit_def c_res_simps octet_index and_exp_iff)

lemma get_bit_out:
  assumes "8 * length v \<le> i"
  shows "get_bit v (int i) = Fault OutOfBounds"
proof -
  have "\<not> i div 8 < length v" using assms by linarith
  then show ?thesis by (simp add: get_bit_def rd_at_def int_octet_sdiv)
qed

lemma bit_vector_equal_loop_correct:
  assumes "n + s \<le> 8 * length v" and "n + t \<le> 8 * length w"
  shows "bit_vector_equal_loop v (int s) (int (s + n)) w (int t)
       = Ok (vbits v s (s + n) = vbits w t (t + n))"
  using assms
proof (induction n arbitrary: s t)
  case 0
  then show ?case by (simp add: bit_vector_equal_loop.simps)
next
  case (Suc n)
  have "bit_vector_equal_loop v (int (Suc s)) (int (Suc s + n)) w (int (Suc t))
      = Ok (vbits v (Suc s) (Suc s + n) = vbits w (Suc t) (Suc t + n))"
    using Suc.prems by (intro Suc.IH) auto
  then show ?case
    using Suc.prems
    by (subst bit_vector_equal_loop.simps)
       (auto simp: get_bit_in vbits_Cons add.commute)
qed

text \<open>C15. \<open>txvc_bit_vector_equal\<close> on two ranges inside their vectors returns, without touching
  anything outside of them, whether the two bit strings are the same (ranges of different length
  are never equal), whatever the alignment of the two ranges is.\<close>
theorem bit_vector_equal_correct:
  assumes "s \<le> e" "e \<le> 8 * length v" "s' \<le> e'" "e' \<le> 8 * length w"
    and "e < 2 ^ 31" "e' < 2 ^ 31"
  shows "txvc_bit_vector_equal v (int s) (int e) w (int s') (int e')
       = Ok (vbits v s e = vbits w s' e')"
proof (cases "e - s = e' - s'")
  case True
  then obtain n where n: "e = s + n" "e' = s' + n"
    using assms(1,3) by (metis le_Suc_ex add_diff_cancel_left')
  then show ?thesis
    using assms bit_vector_equal_loop_correct [of n s v s' w]
    by (simp add: txvc_bit_vector_equal_def c_int_def)
next
  case False
  then have "vbits v s e \<noteq> vbits w s' e'" by (metis length_vbits)
  then show ?thesis
    using False assms by (auto simp: txvc_bit_vector_equal_def c_int_def)
qed

theorem bit_vector_equal_correct_witness:
  "txvc_bit_vector_equal [0xac] 4 8 [0xea] 0 4 = Ok (vbits [0xac] 4 8 = vbits [0xea] 0 4)
   \<and> vbits [0xac] 4 8 = vbits [0xea] 0 4"
  using bit_vector_equal_correct [of 4 8 "[0xac]" 0 4 "[0xea]"]
  by (simp add: vbits_def vbit_def upt_rec)

subsection \<open>Formatting: partial output\<close>

definition bit_char :: "bool \<Rightarrow> char" where
  "bit_char b = (if b then CHR ''1'' else CHR ''0'')"

text \<open>The output after the characters \<open>cs\<close> have been written over its beginning.\<close>

definition overwritten :: "string \<Rightarrow> string \<Rightarrow> string" where
  "overwritten out cs = cs @ drop (length cs) out"

lemma overwritten_Nil [simp]: "overwritten out [] = out"
  by (simp add: overwritten_def)

lemma length_overwritten [simp]:
  "length cs \<le> length out \<Longrightarrow> length (overwritten out cs) = length out"
  by (simp add: overwritten_def)

lemma wr_at_overwritten [c_res_simps]:
  assumes "length cs < length out" and "p = int (length cs)"
  shows "wr_at (overwritten out cs) p c = Ok (overwritten out (cs @ [c]))"
proof -
  have "(cs @ drop (length cs) out)[length cs := c] = (cs @ [c]) @ drop (Suc (length cs)) out"
    using assms(1)
    by (simp add: list_update_append flip: Cons_nth_drop_Suc)
  then show ?thesis
    using assms by (simp add: overwritten_def wr_at_def)
qed

lemma same_octet: "Suc i mod 8 \<noteq> 0 \<Longrightarrow> Suc i div 8 = i div 8"
  by (simp add: div_Suc)

lemma format_lsb_octet_writes:
  fixes avail :: int
  assumes "s \<le> i" "i < e" "e \<le> 8 * length v" "int (e - s) < int (i - s) + avail"
    and "e - s \<le> length out" and "octet = v ! (i div 8)"
  shows "\<exists>j. i < j \<and> j \<le> e \<and>
     format_lsb_octet octet (int e) (overwritten out (map bit_char (vbits v s i)))
       (int (i - s)) avail (int i)
     = Ok (overwritten out (map bit_char (vbits v s j)), int (j - s), avail - int (j - i), int j)"
  using assms
proof (induction "e - i" arbitrary: i avail)
  case 0
  then show ?case by simp
next
  case (Suc d)
  let ?o = "\<lambda>i. overwritten out (map bit_char (vbits v s i))"
  have wr: "wr_at (?o i) (int (i - s)) (bit_char (vbit v i)) = Ok (?o (Suc i))"
    using Suc.prems by (simp add: wr_at_overwritten vbits_snoc)
  have step: "format_lsb_octet octet (int e) (?o i) (int (i - s)) avail (int i)
    = (if Suc i < e \<and> Suc i mod 8 \<noteq> 0
       then format_lsb_octet octet (int e) (?o (Suc i)) (int (Suc i - s)) (avail - 1) (int (Suc i))
       else Ok (?o (Suc i), int (Suc i - s), avail - 1, int (Suc i)))"
  proof -
    have nx: "int i + 1 = int (Suc i)" "int (i - s) + 1 = int (Suc i - s)"
      using Suc.prems by auto
    have "avail > 1" using Suc.prems by auto
    moreover have "octet AND 2 ^ (i mod 8) \<noteq> 0 \<longleftrightarrow> vbit v i"
      using Suc.prems by (simp add: vbit_def and_exp_iff)
    ultimately show ?thesis
      using wr unfolding bit_char_def
      by (subst format_lsb_octet.simps)
         (simp add: nx int_octet_smod mask_bit_in del: of_nat_Suc of_nat_diff)
  qed
  show ?case
  proof (cases "Suc i < e \<and> Suc i mod 8 \<noteq> 0")
    case True
    have "\<exists>j. Suc i < j \<and> j \<le> e \<and>
      format_lsb_octet octet (int e) (?o (Suc i)) (int (Suc i - s)) (avail - 1) (int (Suc i))
      = Ok (?o j, int (j - s), avail - 1 - int (j - Suc i), int j)"
      using Suc True same_octet [of i] by (intro Suc.hyps(1)) auto
    then obtain j where j: "Suc i < j" "j \<le> e"
      "format_lsb_octet octet (int e) (?o (Suc i)) (int (Suc i - s)) (avail - 1) (int (Suc i))
      = Ok (?o j, int (j - s), avail - 1 - int (j - Suc i), int j)" by blast
    then have "avail - 1 - int (j - Suc i) = avail - int (j - i)" by simp
    with j True step show ?thesis by (intro exI [of _ j]) simp
  next
    case False
    with step Suc.prems show ?thesis by (intro exI [of _ "Suc i"]) auto
  qed
qed

lemma format_lsb_loop_writes:
  assumes "s \<le> i" "i \<le> e" "e \<le> 8 * length v" "int (e - s) < int (i - s) + avail"
    and "e - s \<le> length out"
  shows "format_lsb_loop v (int e) (overwritten out (map bit_char (vbits v s i)))
       (int (i - s)) avail (int i)
     = Some (Ok (overwritten out (map bit_char (vbits v s e)), int (e - s), avail - int (e - i)))"
  using assms
proof (induction "e - i" arbitrary: i avail rule: less_induct)
  case less
  show ?case
  proof (cases "i < e")
    case False
    then have "i = e" using less.prems by simp
    then show ?thesis by (simp add: format_lsb_loop.simps)
  next
    case True
    then obtain j where j: "i < j" "j \<le> e"
      "format_lsb_octet (v ! (i div 8)) (int e) (overwritten out (map bit_char (vbits v s i)))
         (int (i - s)) avail (int i)
       = Ok (overwritten out (map bit_char (vbits v s j)), int (j - s), avail - int (j - i), int j)"
      using format_lsb_octet_writes less.prems by blast
    have "format_lsb_loop v (int e) (overwritten out (map bit_char (vbits v s j)))
       (int (j - s)) (avail - int (j - i)) (int j)
     = Some (Ok (overwritten out (map bit_char (vbits v s e)), int (e - s),
         avail - int (j - i) - int (e - j)))"
      using j less.prems by (intro less.hyps) auto
    moreover have "i div 8 < length v" using True less.prems by linarith
    ultimately show ?thesis
      using True j by (subst format_lsb_loop.simps) (simp add: int_octet_sdiv rd_at_nat)
  qed
qed

lemma format_msb_octet_writes:
  fixes avail :: int
  assumes "s < i" "i \<le> e" "e \<le> 8 * length v" "int (e - s) < int (e - i) + avail"
    and "e - s \<le> length out" and "octet = v ! ((i - 1) div 8)"
  shows "\<exists>j. j < i \<and> s \<le> j \<and>
     format_msb_octet octet (int s) (overwritten out (map bit_char (rev (vbits v i e))))
       (int (e - i)) avail (int i - 1)
     = Ok (overwritten out (map bit_char (rev (vbits v j e))), int (e - j), avail - int (i - j),
         int j - 1)"
  using assms
proof (induction "i - s" arbitrary: i avail)
  case 0
  then show ?case by simp
next
  case (Suc d)
  let ?o = "\<lambda>i. overwritten out (map bit_char (rev (vbits v i e)))"
  obtain k where i: "i = Suc k" using Suc.prems by (cases i) auto
  have wr: "wr_at (?o i) (int (e - i)) (bit_char (vbit v k)) = Ok (?o k)"
    using Suc.prems i by (simp add: wr_at_overwritten vbits_Cons [of k])
  have step: "format_msb_octet octet (int s) (?o i) (int (e - i)) avail (int i - 1)
    = (if s < k \<and> (k - 1) mod 8 \<noteq> 7
       then format_msb_octet octet (int s) (?o k) (int (e - k)) (avail - 1) (int k - 1)
       else Ok (?o k, int (e - k), avail - 1, int k - 1))"
  proof -
    have nx: "int i - 1 = int k" "int (e - i) + 1 = int (e - k)" using Suc.prems i by auto
    have "avail > 1" using Suc.prems by auto
    moreover have "octet AND 2 ^ (k mod 8) \<noteq> 0 \<longleftrightarrow> vbit v k"
      using Suc.prems i by (simp add: vbit_def and_exp_iff)
    moreover have "int k - 1 \<ge> int s \<and> (int k - 1) smod 8 \<noteq> 7 \<longleftrightarrow> s < k \<and> (k - 1) mod 8 \<noteq> 7"
    proof (cases "s < k")
      case True
      then have "int k - 1 = int (k - 1)" by auto
      with True show ?thesis
        by (simp add: int_octet_smod del: of_nat_diff)
    qed auto
    ultimately show ?thesis
      using wr unfolding bit_char_def nx(1)
      by (subst format_msb_octet.simps)
         (simp add: nx(2) int_octet_smod mask_bit_in del: of_nat_Suc of_nat_diff)
  qed
  show ?case
  proof (cases "s < k \<and> (k - 1) mod 8 \<noteq> 7")
    case True
    then have k8: "(k - 1) div 8 = k div 8"
      using same_octet [of "k - 1"] by (cases k) (auto simp: mod_Suc)
    have pre: "d = k - s" "s < k" "k \<le> e" using Suc.hyps(2) Suc.prems(2) True i by simp_all
    have room: "int (e - s) < int (e - k) + (avail - 1)" using Suc.prems(2,4) i by simp
    have oct: "octet = v ! ((k - 1) div 8)" using Suc.prems(6) i k8 by simp
    have "\<exists>j. j < k \<and> s \<le> j \<and>
      format_msb_octet octet (int s) (?o k) (int (e - k)) (avail - 1) (int k - 1)
      = Ok (?o j, int (e - j), avail - 1 - int (k - j), int j - 1)"
      by (rule Suc.hyps(1) [OF pre Suc.prems(3) room Suc.prems(5) oct])
    then obtain j where j: "j < k" "s \<le> j"
      "format_msb_octet octet (int s) (?o k) (int (e - k)) (avail - 1) (int k - 1)
      = Ok (?o j, int (e - j), avail - 1 - int (k - j), int j - 1)" by blast
    then have "avail - 1 - int (k - j) = avail - int (i - j)" using i by simp
    with j True step i show ?thesis by (intro exI [of _ j]) simp
  next
    case False
    with step Suc.prems i show ?thesis by (intro exI [of _ k]) auto
  qed
qed

lemma format_msb_loop_writes:
  assumes "s \<le> i" "i \<le> e" "e \<le> 8 * length v" "int (e - s) < int (e - i) + avail"
    and "e - s \<le> length out"
  shows "format_msb_loop v (int s) (overwritten out (map bit_char (rev (vbits v i e))))
       (int (e - i)) avail (int i - 1)
     = Some (Ok (overwritten out (map bit_char (rev (vbits v s e))), int (e - s),
         avail - int (i - s)))"
  using assms
proof (induction i arbitrary: avail rule: less_induct)
  case (less i)
  show ?case
  proof (cases "s < i")
    case False
    then have "i = s" using less.prems by simp
    then show ?thesis by (simp add: format_msb_loop.simps)
  next
    case True
    then obtain j where j: "j < i" "s \<le> j"
      "format_msb_octet (v ! ((i - 1) div 8)) (int s)
         (overwritten out (map bit_char (rev (vbits v i e)))) (int (e - i)) avail (int i - 1)
       = Ok (overwritten out (map bit_char (rev (vbits v j e))), int (e - j), avail - int (i - j),
           int j - 1)"
      using format_msb_octet_writes less.prems by blast
    have "format_msb_loop v (int s) (overwritten out (map bit_char (rev (vbits v j e))))
       (int (e - j)) (avail - int (i - j)) (int j - 1)
     = Some (Ok (overwritten out (map bit_char (rev (vbits v s e))), int (e - s),
         avail - int (i - j) - int (j - s)))"
      using j less.prems by (intro less.IH) auto
    moreover have "(i - 1) div 8 < length v" "int i - 1 = int (i - 1)"
      using True less.prems by auto
    ultimately show ?thesis
      using True j by (subst format_msb_loop.simps) (simp add: int_octet_sdiv rd_at_nat del: of_nat_diff)
  qed
qed

text \<open>What the caller finds in its buffer: the characters, the NUL, the old tail.\<close>

lemma format_end_writes:
  assumes "int (length cs) < outSz" "outSz \<le> int (length out)" "length cs = e - s" "s \<le> e" "e < 2 ^ 31"
  shows "format_end outSz (int s) (int e)
       (Ok (overwritten out cs, int (length cs), outSz - int (length cs)))
     = Ok (overwritten out (cs @ [CHR 0x00]), int (length cs))"
proof -
  have "wr_at (overwritten out cs) (int (length cs)) (CHR 0x00)
      = Ok (overwritten out (cs @ [CHR 0x00]))"
    using assms by (intro wr_at_overwritten) auto
  moreover have "c_int (int e - int s) = Ok (int (length cs))"
    using assms by (simp add: c_int_def)
  ultimately show ?thesis
    using assms(1) by (simp add: format_end_def)
qed

text \<open>C16. Formatting LSB first into a buffer with room for every bit and the NUL returns, stays
  inside the buffer and the vector, and leaves exactly the bits of the range in increasing
  order followed by a NUL; the rest of the buffer is untouched.\<close>
theorem format_lsb_correct:
  assumes "s \<le> e" "e \<le> 8 * length v" "e < 2 ^ 31"
    and "int (e - s) < outSz" "outSz \<le> int (length out)"
  shows "txvc_bit_vector_format_lsb out outSz v (int s) (int e)
       = Some (Ok (overwritten out (map bit_char (vbits v s e) @ [CHR 0x00]), int (e - s)))"
proof -
  have "format_lsb_loop v (int e) out 0 outSz (int s)
      = Some (Ok (overwritten out (map bit_char (vbits v s e)), int (e - s), outSz - int (e - s)))"
    using format_lsb_loop_writes [of s s e v outSz out] assms by simp
  then show ?thesis
    using format_end_writes [of "map bit_char (vbits v s e)" outSz out e s] assms
    by (simp add: txvc_bit_vector_format_lsb_def del: of_nat_diff)
qed

theorem format_lsb_correct_witness:
  "txvc_bit_vector_format_lsb (replicate 16 CHR 0x00) 16 [0x12, 0x34] (int 1) (int 14)
   = Some (Ok (''1001000001011'' @ replicate 3 CHR 0x00, 13))"
proof -
  have "overwritten (replicate 16 CHR 0x00) (map bit_char (vbits [0x12, 0x34] 1 14) @ [CHR 0x00])
      = ''1001000001011'' @ replicate 3 CHR 0x00" by code_simp
  then show ?thesis
    using format_lsb_correct [of 1 14 "[0x12, 0x34]" 16 "replicate 16 CHR 0x00"] by simp
qed

lemma format_msb_writes:
  assumes "s \<le> e" "e \<le> 8 * length v" "e < 2 ^ 31"
    and "int (e - s) < outSz" "outSz \<le> int (length out)"
  shows "txvc_bit_vector_format_msb out outSz v (int s) (int e)
       = Some (Ok (overwritten out (map bit_char (rev (vbits v s e)) @ [CHR 0x00]), int (e - s)))"
proof -
  have "format_msb_loop v (int s) out 0 outSz (int e - 1)
      = Some (Ok (overwritten out (map bit_char (rev (vbits v s e))), int (e - s), outSz - int (e - s)))"
    using format_msb_loop_writes [of s e e v outSz out] assms by simp
  then show ?thesis
    using format_end_writes [of "map bit_char (rev (vbits v s e))" outSz out e s] assms
    by (simp add: txvc_bit_vector_format_msb_def del: of_nat_diff)
qed

text \<open>Formatting MSB first writes the same bits in decreasing order.\<close>
theorem format_msb_correct:
  assumes "s \<le> e" "e \<le> 8 * length v" "e < 2 ^ 31"
    and "int (e - s) < outSz" "outSz \<le> int (length out)"
  shows "txvc_bit_vector_format_msb out outSz v (int s) (int e)
       = Some (Ok (overwritten out (map bit_char (rev (vbits v s e)) @ [CHR 0x00]), int (e - s)))"
  using assms by (rule format_msb_writes)

theorem format_msb_correct_witness:
  "txvc_bit_vector_format_msb (replicate 16 CHR 0x00) 16 [0x12, 0x34] (int 1) (int 14)
   = Some (Ok (''1101000001001'' @ replicate 3 CHR 0x00, 13))"
proof -
  have "overwritten (replicate 16 CHR 0x00) (map bit_char (rev (vbits [0x12, 0x34] 1 14)) @ [CHR 0x00])
      = ''1101000001001'' @ replicate 3 CHR 0x00" by code_simp
  then show ?thesis
    using format_msb_correct [of 1 14 "[0x12, 0x34]" 16 "replicate 16 CHR 0x00"] by simp
qed

subsection \<open>Formatting into a buffer that is too small\<close>

lemma format_lsb_octet_sum:
  "format_lsb_octet octet e out p a i = Ok (out', p', a', i') \<Longrightarrow>
     a' + i' = a + i \<and> p' - i' = p - i \<and> length out' = length out
     \<and> (a \<le> 1 \<longrightarrow> i' = i) \<and> (1 < a \<longrightarrow> 1 \<le> a' \<and> i < i')"
proof (induction octet e out p a i rule: format_lsb_octet.induct)
  case (1 octet e out p a i)
  show ?case
  proof (cases "1 < a")
    case False
    with "1.prems" show ?thesis by (subst (asm) format_lsb_octet.simps) simp
  next
    case True
    define c where "c = (\<lambda>m. if octet AND m \<noteq> 0 then CHR ''1'' else CHR ''0'')"
    from True "1.prems" obtain m o1 where o1: "mask_bit (i smod 8) = Ok m" "wr_at out p (c m) = Ok o1"
      and rest: "(if i + 1 < e \<and> (i + 1) smod 8 \<noteq> 0
             then format_lsb_octet octet e o1 (p + 1) (a - 1) (i + 1)
             else Ok (o1, p + 1, a - 1, i + 1)) = Ok (out', p', a', i')"
      by (subst (asm) format_lsb_octet.simps) (auto simp: c_def)
    have len: "length o1 = length out" using o1(2) by (auto simp: wr_at_def split: if_splits)
    show ?thesis
    proof (cases "i + 1 < e \<and> (i + 1) smod 8 \<noteq> 0")
      case next_bit: True
      from "1.IH" [OF _ o1(1) o1(2) [unfolded c_def] next_bit] True rest next_bit
      have "a' + i' = a - 1 + (i + 1) \<and> p' - i' = p + 1 - (i + 1) \<and> length out' = length o1
        \<and> (a - 1 \<le> 1 \<longrightarrow> i' = i + 1) \<and> (1 < a - 1 \<longrightarrow> 1 \<le> a' \<and> i + 1 < i')" by simp
      with True len show ?thesis by (cases "1 < a - 1") auto
    next
      case last_bit: False
      then have "(o1, p + 1, a - 1, i + 1) = (out', p', a', i')" using rest by (simp only: if_False c_res.inject)
      with True len show ?thesis by auto
    qed
  qed
qed

lemma format_lsb_octet_no_fault:
  assumes "0 \<le> i" "i < e" "0 \<le> p" "p + a \<le> int (length out)"
  shows "\<exists>r. format_lsb_octet octet e out p a i = Ok r"
  using assms
proof (induction octet e out p a i rule: format_lsb_octet.induct)
  case (1 octet e out p a i)
  show ?case
  proof (cases "1 < a")
    case True
    let ?m = "push_bit (nat (i smod 8)) 1 :: u8"
    let ?out = "out[nat p := if octet AND ?m \<noteq> 0 then CHR ''1'' else CHR ''0'']"
    have ok: "mask_bit (i smod 8) = Ok ?m"
      "wr_at out p (if octet AND ?m \<noteq> 0 then CHR ''1'' else CHR ''0'') = Ok ?out"
      using "1.prems" True by (auto simp: mask_bit_def wr_at_def smod_nonneg)
    show ?thesis
    proof (cases "i + 1 < e \<and> (i + 1) smod 8 \<noteq> 0")
      case next_bit: True
      have "\<exists>r. format_lsb_octet octet e ?out (p + 1) (a - 1) (i + 1) = Ok r"
        using "1.IH" [OF _ ok next_bit] True next_bit "1.prems" by simp
      with True ok next_bit show ?thesis
        by (subst format_lsb_octet.simps) (simp del: push_bit_of_1)
    next
      case last_bit: False
      with True ok show ?thesis
        by (subst format_lsb_octet.simps) (auto simp del: push_bit_of_1)
    qed
  qed (subst format_lsb_octet.simps, simp)
qed

lemma format_lsb_loop_returns:
  assumes "format_lsb_loop v e out p a i = Some r"
  shows "0 \<le> i \<and> i < e \<and> e \<le> 8 * int (length v) \<and> 0 \<le> p \<and> p + a \<le> int (length out)
    \<longrightarrow> e - i < a"
proof (rule format_lsb_loop.raw_induct [where
      P = "\<lambda>v e out p a i r. 0 \<le> i \<and> i < e \<and> e \<le> 8 * int (length v) \<and> 0 \<le> p \<and>
        p + a \<le> int (length out) \<longrightarrow> e - i < a", OF _ assms], rule impI)
  fix f v e out p a i r
  assume IH: "\<And>v e out p a i r. f v e out p a i = Some r \<Longrightarrow> 0 \<le> i \<and> i < e \<and>
      e \<le> 8 * int (length v) \<and> 0 \<le> p \<and> p + a \<le> int (length out) \<longrightarrow> e - i < (a :: int)"
    and body: "(if i < e
      then (case rd_at v (i sdiv 8) of
              Ok octet \<Rightarrow>
                (case format_lsb_octet octet e out p a i of
                   Ok (out', p', avail', idx') \<Rightarrow> f v e out' p' avail' idx'
                 | Fault e \<Rightarrow> Some (Fault e))
            | Fault e \<Rightarrow> Some (Fault e))
      else Some (Ok (out, p, a))) = Some r"
    and "0 \<le> i \<and> i < e \<and> e \<le> 8 * int (length v) \<and> 0 \<le> p \<and> p + a \<le> int (length out)"
  then have pre: "0 \<le> i" "i < e" "e \<le> 8 * int (length v)" "0 \<le> p" "p + a \<le> int (length out)"
    by auto
  have "i div 8 < int (length v)" "0 \<le> i div 8" using pre by linarith+
  then have rd: "rd_at v (i sdiv 8) = Ok (v ! nat (i div 8))"
    using pre by (simp add: rd_at_def sdiv_nonneg)
  obtain out' p' a' i' where step:
    "format_lsb_octet (v ! nat (i div 8)) e out p a i = Ok (out', p', a', i')"
    using format_lsb_octet_no_fault pre by (metis prod_cases4)
  note sum = format_lsb_octet_sum [OF step]
  from body pre rd step have "f v e out' p' a' i' = Some r" by simp
  from IH [OF this] sum pre show "e - i < a"
    by (cases "i' < e"; cases "1 < a") auto
qed

text \<open>C17. The formatter returns on a nonempty range only if the buffer has room for all its bits
  and the NUL: with a shorter buffer the loop stops advancing and the call never returns. (The
  result length that callers could use to detect truncation is therefore never delivered.)\<close>
theorem format_lsb_short_buffer_hangs:
  assumes "s < e" "e \<le> 8 * length v" "outSz \<le> int (e - s)" "outSz \<le> int (length out)"
  shows "txvc_bit_vector_format_lsb out outSz v (int s) (int e) = None"
proof (cases "format_lsb_loop v (int e) out 0 outSz (int s)")
  case None
  then show ?thesis by (simp add: txvc_bit_vector_format_lsb_def)
next
  case (Some r)
  from format_lsb_loop_returns [OF this] assms have "int e - int s < outSz" by auto
  with assms show ?thesis by simp
qed

theorem format_lsb_short_buffer_hangs_witness:
  "txvc_bit_vector_format_lsb (replicate 4 CHR 0x00) 4 [0xa5] (int 0) (int 8) = None"
  using format_lsb_short_buffer_hangs [of 0 8 "[0xa5]" 4 "replicate 4 CHR 0x00"] by simp

end
