(* ===== verification/Jtag_Splitter.thy ===== *)
theory Jtag_Splitter
  imports Bit_Vector
begin

text \<open>
  \<open>libtxvc/jtag_splitter.c\<close> and \<open>jtag_splitter.h\<close>: the TAP state machine and the splitter that
  turns a combined TMS/TDI stream into separate shift events for a callback.

  An event carries the vectors by value, except for the TDO vector the callback writes to: that
  is a reference (\<open>buf_ref\<close>) to a buffer of the callback's own state. The callback with its
  \<open>extra\<close> pointer is a function on that state; it may itself fail or fault. Logging
  (\<open>VERBOSE\<close>, \<open>WARN\<close>, \<open>ERROR\<close>) is left out of the control flow; \<open>logSubVector\<close>, which reads the
  vectors and formats them, is modelled on its own.
\<close>

type_synonym buf_ref = nat

datatype jtag_state =
    TEST_LOGIC_RESET | RUN_TEST_IDLE
  | SELECT_DR_SCAN | CAPTURE_DR | SHIFT_DR | EXIT_1_DR | PAUSE_DR | EXIT_2_DR | UPDATE_DR
  | SELECT_IR_SCAN | CAPTURE_IR | SHIFT_IR | EXIT_1_IR | PAUSE_IR | EXIT_2_IR | UPDATE_IR

fun next_state :: "jtag_state \<Rightarrow> bool \<Rightarrow> jtag_state" where
  "next_state TEST_LOGIC_RESET tmsHigh = (if tmsHigh then TEST_LOGIC_RESET else RUN_TEST_IDLE)"
| "next_state RUN_TEST_IDLE tmsHigh = (if tmsHigh then SELECT_DR_SCAN else RUN_TEST_IDLE)"
| "next_state SELECT_DR_SCAN tmsHigh = (if tmsHigh then SELECT_IR_SCAN else CAPTURE_DR)"
| "next_state CAPTURE_DR tmsHigh = (if tmsHigh then EXIT_1_DR else SHIFT_DR)"
| "next_state SHIFT_DR tmsHigh = (if tmsHigh then EXIT_1_DR else SHIFT_DR)"
| "next_state EXIT_1_DR tmsHigh = (if tmsHigh then UPDATE_DR else PAUSE_DR)"
| "next_state PAUSE_DR tmsHigh = (if tmsHigh then EXIT_2_DR else PAUSE_DR)"
| "next_state EXIT_2_DR tmsHigh = (if tmsHigh then UPDATE_DR else SHIFT_DR)"
| "next_state UPDATE_DR tmsHigh = (if tmsHigh then SELECT_DR_SCAN else RUN_TEST_IDLE)"
| "next_state SELECT_IR_SCAN tmsHigh = (if tmsHigh then TEST_LOGIC_RESET else CAPTURE_IR)"
| "next_state CAPTURE_IR tmsHigh = (if tmsHigh then EXIT_1_IR else SHIFT_IR)"
| "next_state SHIFT_IR tmsHigh = (if tmsHigh then EXIT_1_IR else SHIFT_IR)"
| "next_state EXIT_1_IR tmsHigh = (if tmsHigh then UPDATE_IR else PAUSE_IR)"
| "next_state PAUSE_IR tmsHigh = (if tmsHigh then EXIT_2_IR else PAUSE_IR)"
| "next_state EXIT_2_IR tmsHigh = (if tmsHigh then UPDATE_IR else SHIFT_IR)"
| "next_state UPDATE_IR tmsHigh = (if tmsHigh then SELECT_DR_SCAN else RUN_TEST_IDLE)"

text \<open>The test the splitter makes on both ends of a transition.\<close>

definition is_shift :: "jtag_state \<Rightarrow> bool" where
  "is_shift st \<longleftrightarrow> st = SHIFT_DR \<or> st = SHIFT_IR"

subsection \<open>Events and callbacks\<close>

datatype split_event =
    Shift_tms (ev_tms: "u8 list") (ev_from: int) (ev_to: int)
  | Shift_tdi (ev_tdi: "u8 list") (ev_tdo: buf_ref) (ev_from: int) (ev_to: int)
      (ev_incomplete: bool)
  | Flush_all

type_synonym 's splitter_callback = "split_event \<Rightarrow> 's \<Rightarrow> (bool \<times> 's) c_res"

record 's jtag_splitter =
  sp_state :: jtag_state
  sp_cb :: "'s splitter_callback option"

definition tapReset :: "'s splitter_callback \<Rightarrow> 's \<Rightarrow> (bool \<times> 's) c_res" where
  "tapReset cb s =
     c_bind (cb (Shift_tms [0x1f] 0 5) s) (\<lambda>(ok, s').
       if ok then cb Flush_all s' else Ok (False, s'))"

text \<open>\<open>logSubVector\<close> under \<open>VERBOSE\<close>: the string it logs; \<open>None\<close> if it would not return.\<close>

definition logSubVector :: "u8 list \<Rightarrow> int \<Rightarrow> int \<Rightarrow> string option c_res option" where
  "logSubVector vector fromBitIdx toBitIdx =
     (let numBitsShifted = toBitIdx - fromBitIdx in
      if numBitsShifted > 1024 - 1 then Some (Ok None)
      else map_option (\<lambda>r. c_bind r (\<lambda>(buf, n). Ok (Some (takeWhile (\<lambda>c. c \<noteq> CHR 0x00) buf))))
             (txvc_bit_vector_format_msb (replicate 1024 CHR 0x00) 1024 vector fromBitIdx toBitIdx))"

definition txvc_jtag_splitter_init ::
  "'s jtag_splitter \<Rightarrow> 's splitter_callback \<Rightarrow> 's \<Rightarrow> (bool \<times> 's jtag_splitter \<times> 's) c_res" where
  "txvc_jtag_splitter_init sp cb s =
     c_bind (tapReset cb s) (\<lambda>(ok, s').
       if \<not> ok then Ok (False, sp, s')
       else Ok (True, sp\<lparr>sp_state := TEST_LOGIC_RESET, sp_cb := Some cb\<rparr>, s'))"

definition txvc_jtag_splitter_deinit ::
  "'s jtag_splitter \<Rightarrow> 's \<Rightarrow> (bool \<times> 's jtag_splitter \<times> 's) c_res" where
  "txvc_jtag_splitter_deinit sp s =
     (case sp_cb sp of
        None \<Rightarrow> Fault NullDeref
      | Some cb \<Rightarrow>
          c_bind (tapReset cb s) (\<lambda>(ok, s').
            if \<not> ok then Ok (False, sp, s')
            else Ok (True, sp\<lparr>sp_state := TEST_LOGIC_RESET, sp_cb := None\<rparr>, s')))"

subsection \<open>Processing a combined vector\<close>

text \<open>Control leaves a round of up to eight bits either at its end, with the first pending bit and
  the TAP state, or through \<open>goto bail_reset\<close>.\<close>

datatype 's round_end = Round_done int jtag_state 's | Bail_reset 's

function split_round ::
  "'s splitter_callback \<Rightarrow> int \<Rightarrow> u8 list \<Rightarrow> u8 list \<Rightarrow> buf_ref \<Rightarrow> int \<Rightarrow>
   int \<Rightarrow> u8 \<Rightarrow> int \<Rightarrow> jtag_state \<Rightarrow> 's \<Rightarrow> 's round_end c_res" where
  "split_round cb numBits tms tdi tdo thisRoundEndBitIdx bitIdx tmsByte firstPendingBitIdx
     jtagState s =
     (if bitIdx < thisRoundEndBitIdx then
        (let tmsBit = (tmsByte AND 1 \<noteq> 0);
             nextJtagState = next_state jtagState tmsBit;
             isShift = is_shift jtagState;
             nextIsShift = is_shift nextJtagState;
             enteringShift = (\<not> isShift \<and> nextIsShift);
             leavingShift = (isShift \<and> \<not> nextIsShift);
             endOfVector = (bitIdx = numBits - 1);
             ev = (endOfVector \<or> enteringShift \<or> leavingShift);
             nextPendingBitIdx = bitIdx + 1
         in if enteringShift \<and> tmsBit then Fault FatalAbort
            else if leavingShift \<and> \<not> tmsBit then Fault FatalAbort
            else if ev then
              c_bind (cb (if isShift
                          then Shift_tdi tdi tdo firstPendingBitIdx nextPendingBitIdx
                                 (\<not> leavingShift)
                          else Shift_tms tms firstPendingBitIdx nextPendingBitIdx) s) (\<lambda>(ok, s').
                if \<not> ok then Ok (Bail_reset s')
                else split_round cb numBits tms tdi tdo thisRoundEndBitIdx (bitIdx + 1)
                       (drop_bit 1 tmsByte) nextPendingBitIdx nextJtagState s')
            else split_round cb numBits tms tdi tdo thisRoundEndBitIdx (bitIdx + 1)
                   (drop_bit 1 tmsByte) firstPendingBitIdx nextJtagState s)
      else Ok (Round_done firstPendingBitIdx jtagState s))"
  by pat_completeness auto
termination
  by (relation "measure (\<lambda>(cb, numBits, tms, tdi, tdo, e, bitIdx, rest). nat (e - bitIdx))") auto

text \<open>A round ends with \<open>bitIdx = thisRoundEndBitIdx\<close>, so the outer loop continues there.\<close>

definition thisRoundEnd :: "int \<Rightarrow> int \<Rightarrow> int" where
  "thisRoundEnd numBits next8 = (if next8 > numBits then numBits else next8)"

function split_loop ::
  "'s splitter_callback \<Rightarrow> int \<Rightarrow> u8 list \<Rightarrow> u8 list \<Rightarrow> buf_ref \<Rightarrow>
   int \<Rightarrow> int \<Rightarrow> jtag_state \<Rightarrow> 's \<Rightarrow> 's round_end c_res" where
  "split_loop cb numBits tms tdi tdo bitIdx firstPendingBitIdx jtagState s =
     (if bitIdx < numBits then
        c_bind (rd_at tms (bitIdx sdiv 8)) (\<lambda>tmsByte.
        c_bind (c_int (bitIdx + 8)) (\<lambda>next8.
        c_bind (split_round cb numBits tms tdi tdo (thisRoundEnd numBits next8) bitIdx tmsByte
                  firstPendingBitIdx jtagState s) (\<lambda>r.
          case r of
            Bail_reset s' \<Rightarrow> Ok (Bail_reset s')
          | Round_done firstPendingBitIdx' jtagState' s' \<Rightarrow>
              split_loop cb numBits tms tdi tdo (thisRoundEnd numBits next8)
                firstPendingBitIdx' jtagState' s')))
      else Ok (Round_done firstPendingBitIdx jtagState s))"
  by pat_completeness auto
termination
  by (relation "measure (\<lambda>(cb, numBits, tms, tdi, tdo, bitIdx, rest). nat (numBits - bitIdx))")
     (auto simp: c_int_def thisRoundEnd_def split: if_splits)

definition txvc_jtag_splitter_process ::
  "'s jtag_splitter \<Rightarrow> int \<Rightarrow> u8 list \<Rightarrow> u8 list \<Rightarrow> buf_ref \<Rightarrow> 's \<Rightarrow>
   (bool \<times> 's jtag_splitter \<times> 's) c_res" where
  "txvc_jtag_splitter_process sp numBits tms tdi tdo s =
     c_bind (case sp_cb sp of None \<Rightarrow> Fault NullDeref | Some cb \<Rightarrow> Ok cb) (\<lambda>cb.
     let bail_reset = (\<lambda>s'. c_bind (tapReset cb s') (\<lambda>(_, s'').
           Ok (False, sp\<lparr>sp_state := TEST_LOGIC_RESET\<rparr>, s'')))
     in c_bind (split_loop cb numBits tms tdi tdo 0 0 (sp_state sp) s) (\<lambda>r.
          case r of
            Bail_reset s' \<Rightarrow> bail_reset s'
          | Round_done firstPendingBitIdx jtagState s' \<Rightarrow>
              c_bind (cb Flush_all s') (\<lambda>(ok, s'').
                if \<not> ok then bail_reset s''
                else Ok (True, sp\<lparr>sp_state := jtagState\<rparr>, s''))))"

declare split_round.simps [simp del]
declare split_loop.simps [simp del]

subsection \<open>The TAP\<close>

definition tap_run :: "jtag_state \<Rightarrow> bool list \<Rightarrow> jtag_state" where
  "tap_run st bs = foldl next_state st bs"

text \<open>The states in which each bit of a TMS sequence is clocked in.\<close>

fun tap_path :: "jtag_state \<Rightarrow> bool list \<Rightarrow> jtag_state list" where
  "tap_path st [] = []"
| "tap_path st (b # bs) = st # tap_path (next_state st b) bs"

lemma tap_run_simps [simp]:
  "tap_run st [] = st" "tap_run st (b # bs) = tap_run (next_state st b) bs"
  "tap_run st (bs @ cs) = tap_run (tap_run st bs) cs"
  by (simp_all add: tap_run_def)

lemma tap_path_append: "tap_path st (bs @ cs) = tap_path st bs @ tap_path (tap_run st bs) cs"
  by (induction bs arbitrary: st) auto

lemma length_tap_path [simp]: "length (tap_path st bs) = length bs"
  by (induction bs arbitrary: st) auto

text \<open>The two assertions of the splitter hold for every transition of the table.\<close>

lemma entering_shift: "\<not> is_shift st \<Longrightarrow> is_shift (next_state st b) \<Longrightarrow> \<not> b"
  by (cases st) (auto simp: is_shift_def split: if_splits)

lemma leaving_shift: "is_shift st \<Longrightarrow> is_shift (next_state st b) \<longleftrightarrow> \<not> b"
  by (cases st) (auto simp: is_shift_def split: if_splits)

subsection \<open>Reference: the events of a TMS sequence\<close>

text \<open>The events for the bits \<open>bs\<close> of a vector of \<open>n\<close> bits, from index \<open>i\<close> on, bit by bit and
  without the octet rounds; \<open>fp\<close> is the first bit not covered by an event yet.\<close>

fun split_event_at :: "nat \<Rightarrow> nat \<Rightarrow> jtag_state \<Rightarrow> bool \<Rightarrow> bool" where
  "split_event_at n i st b \<longleftrightarrow> Suc i = n \<or> is_shift st \<noteq> is_shift (next_state st b)"

fun split_bits ::
  "nat \<Rightarrow> u8 list \<Rightarrow> u8 list \<Rightarrow> buf_ref \<Rightarrow> nat \<Rightarrow> nat \<Rightarrow> jtag_state \<Rightarrow> bool list \<Rightarrow> split_event list"
where
  "split_bits n tms tdi tdo fp i st [] = []"
| "split_bits n tms tdi tdo fp i st (b # bs) =
     (if split_event_at n i st b
      then (if is_shift st
            then Shift_tdi tdi tdo (int fp) (int (Suc i)) (is_shift (next_state st b))
            else Shift_tms tms (int fp) (int (Suc i)))
           # split_bits n tms tdi tdo (Suc i) (Suc i) (next_state st b) bs
      else split_bits n tms tdi tdo fp (Suc i) (next_state st b) bs)"

fun split_pending :: "nat \<Rightarrow> nat \<Rightarrow> nat \<Rightarrow> jtag_state \<Rightarrow> bool list \<Rightarrow> nat" where
  "split_pending n fp i st [] = fp"
| "split_pending n fp i st (b # bs) =
     split_pending n (if split_event_at n i st b then Suc i else fp) (Suc i) (next_state st b) bs"

lemma split_bits_append:
  "split_bits n tms tdi tdo fp i st (bs @ cs) =
     split_bits n tms tdi tdo fp i st bs
     @ split_bits n tms tdi tdo (split_pending n fp i st bs) (i + length bs) (tap_run st bs) cs"
  by (induction bs arbitrary: fp i st) simp_all

lemma split_pending_append:
  "split_pending n fp i st (bs @ cs) =
     split_pending n (split_pending n fp i st bs) (i + length bs) (tap_run st bs) cs"
  by (induction bs arbitrary: fp i st) simp_all

text \<open>Events handed to a callback one after the other, until it reports a failure.\<close>

fun feed :: "'s splitter_callback \<Rightarrow> split_event list \<Rightarrow> 's \<Rightarrow> (bool \<times> 's) c_res" where
  "feed cb [] s = Ok (True, s)"
| "feed cb (e # es) s =
     c_bind (cb e s) (\<lambda>(ok, s'). if ok then feed cb es s' else Ok (False, s'))"

lemma feed_append:
  "feed cb (es @ fs) s =
     c_bind (feed cb es s) (\<lambda>(ok, s'). if ok then feed cb fs s' else Ok (False, s'))"
proof (induction es arbitrary: s)
  case (Cons e es)
  show ?case
    by (cases "cb e s") (auto simp: Cons.IH)
qed simp

lemma tapReset_feed: "tapReset cb = feed cb [Shift_tms [0x1f] 0 5, Flush_all]"
proof
  fix s
  have "feed cb [Flush_all] s' = cb Flush_all s'" for s'
    by (cases "cb Flush_all s'") auto
  then show "tapReset cb s = feed cb [Shift_tms [0x1f] 0 5, Flush_all] s"
    by (simp only: tapReset_def feed.simps(2) [of cb "Shift_tms [0x1f] 0 5"])
qed

subsection \<open>The splitter refines the reference\<close>

lemma split_round_refines:
  assumes "8 * k \<le> i" "i \<le> r" "r \<le> 8 * k + 8" "r \<le> n"
  shows "split_round cb (int n) tms tdi tdo (int r) (int i) (drop_bit (i - 8 * k) (tms ! k))
       (int fp) st s
   = c_bind (feed cb (split_bits n tms tdi tdo fp i st (vbits tms i r)) s) (\<lambda>(ok, s').
       Ok (if ok then Round_done (int (split_pending n fp i st (vbits tms i r)))
                        (tap_run st (vbits tms i r)) s'
           else Bail_reset s'))"
  using assms
proof (induction "r - i" arbitrary: i fp st s)
  case 0
  then show ?case by (simp add: split_round.simps)
next
  case (Suc d)
  let ?w = "drop_bit (i - 8 * k) (tms ! k)"
  let ?b = "vbit tms i" and ?st = "next_state st (vbit tms i)"
  have i: "i < r" using Suc.hyps(2) by simp
  then have k: "i div 8 = k" using Suc.prems by auto
  then have "i mod 8 = i - 8 * k" using minus_mult_div_eq_mod [of i 8] by simp
  with k have bit: "?w AND 1 \<noteq> 0 \<longleftrightarrow> ?b"
    by (simp add: and_1_iff vbit_def bit_drop_bit_eq)
  have nx: "drop_bit (Suc 0) ?w = drop_bit (Suc i - 8 * k) (tms ! k)" "int i + 1 = int (Suc i)"
    using Suc.prems by (simp_all add: Suc_diff_le)
  have IH: "split_round cb (int n) tms tdi tdo (int r) (int (Suc i))
       (drop_bit (Suc i - 8 * k) (tms ! k)) (int fp) st s
   = c_bind (feed cb (split_bits n tms tdi tdo fp (Suc i) st (vbits tms (Suc i) r)) s) (\<lambda>(ok, s').
       Ok (if ok then Round_done (int (split_pending n fp (Suc i) st (vbits tms (Suc i) r)))
                        (tap_run st (vbits tms (Suc i) r)) s'
           else Bail_reset s'))" for fp st s
    using Suc i by (intro Suc.hyps(1)) auto
  have last: "int i = int n - 1 \<longleftrightarrow> Suc i = n" using i Suc.prems by auto
  have asserts: "\<not> (\<not> is_shift st \<and> is_shift ?st \<and> ?b)" "\<not> (is_shift st \<and> \<not> is_shift ?st \<and> \<not> ?b)"
    using entering_shift leaving_shift by blast+
  show ?case
  proof (cases "split_event_at n i st ?b")
    case False
    with i asserts show ?thesis
      by (subst split_round.simps)
         (auto simp: Let_def bit last vbits_Cons [of i r] nx IH cong: if_cong simp del: of_nat_Suc drop_bit_drop_bit)
  next
    case True
    have ev: "\<not> is_shift st \<and> is_shift ?st \<or> is_shift st \<and> \<not> is_shift ?st \<or> Suc i = n"
      using True by auto
    show ?thesis
      using i asserts ev True
      by (subst split_round.simps)
         (auto simp: Let_def bit last vbits_Cons [of i r] nx IH c_bind_assoc
           cong: if_cong simp del: of_nat_Suc drop_bit_drop_bit split_event_at.simps
           intro!: arg_cong2 [of _ _ _ _ c_bind] ext)
  qed
qed

lemma split_loop_refines:
  assumes "n \<le> 8 * length tms" "n \<le> 2 ^ 31 - 8" "8 * k \<le> n \<or> k = 0"
  shows "split_loop cb (int n) tms tdi tdo (int (8 * k)) (int fp) st s
   = c_bind (feed cb (split_bits n tms tdi tdo fp (8 * k) st (vbits tms (8 * k) n)) s) (\<lambda>(ok, s').
       Ok (if ok then Round_done (int (split_pending n fp (8 * k) st (vbits tms (8 * k) n)))
                        (tap_run st (vbits tms (8 * k) n)) s'
           else Bail_reset s'))"
  using assms(3)
proof (induction "n - 8 * k" arbitrary: k fp st s rule: less_induct)
  case less
  show ?case
  proof (cases "8 * k < n")
    case False
    then show ?thesis by (subst split_loop.simps) simp
  next
    case True
    define r where "r = min n (8 * k + 8)"
    have rd: "rd_at tms (int (8 * k) sdiv 8) = Ok (tms ! k)"
      using True assms(1) unfolding int_octet_sdiv by (simp add: rd_at_nat)
    have nx: "c_int (int (8 * k) + 8) = Ok (int (8 * k) + 8)"
      using True assms(2) by (intro c_int_in) auto
    have te: "thisRoundEnd (int n) (int (8 * k) + 8) = int r"
      by (simp add: thisRoundEnd_def r_def)
    have r: "8 * k \<le> r" "r \<le> 8 * k + 8" "r \<le> n" using True by (auto simp: r_def)
    have round: "split_round cb (int n) tms tdi tdo (int r) (int (8 * k)) (tms ! k) (int fp) st s
     = c_bind (feed cb (split_bits n tms tdi tdo fp (8 * k) st (vbits tms (8 * k) r)) s) (\<lambda>(ok, s').
       Ok (if ok then Round_done (int (split_pending n fp (8 * k) st (vbits tms (8 * k) r)))
                        (tap_run st (vbits tms (8 * k) r)) s'
           else Bail_reset s'))"
      using split_round_refines [of k "8 * k" r n cb tms tdi tdo fp st s] r by simp
    have split: "vbits tms (8 * k) n = vbits tms (8 * k) r @ vbits tms r n"
      using r by (simp add: vbits_append)
    have rest: "split_loop cb (int n) tms tdi tdo (int r) (int fp') st' s'
     = c_bind (feed cb (split_bits n tms tdi tdo fp' r st' (vbits tms r n)) s') (\<lambda>(ok, s').
       Ok (if ok then Round_done (int (split_pending n fp' r st' (vbits tms r n)))
                        (tap_run st' (vbits tms r n)) s'
           else Bail_reset s'))" for fp' st' s'
    proof (cases "r = n")
      case True
      then show ?thesis by (subst split_loop.simps) simp
    next
      case False
      then have next_octet: "r = 8 * Suc k" and "8 * Suc k \<le> n" using r by (auto simp: r_def)
      then show ?thesis
        using less.hyps [of "Suc k" fp' st' s'] True unfolding next_octet by simp
    qed
    show ?thesis
      using True r
      by (subst split_loop.simps)
         (auto simp: rd nx te round rest split split_bits_append split_pending_append feed_append
            c_bind_assoc simp del: of_nat_mult intro!: arg_cong2 [of _ _ _ _ c_bind] ext)
  qed
qed

lemma splitter_refines_main:
  assumes "n \<le> 8 * length tms" "n \<le> 2 ^ 31 - 8" "sp_cb sp = Some cb"
  shows "txvc_jtag_splitter_process sp (int n) tms tdi tdo s
   = c_bind (feed cb (split_bits n tms tdi tdo 0 0 (sp_state sp) (vbits tms 0 n) @ [Flush_all]) s)
       (\<lambda>(ok, s').
         if ok then Ok (True, sp\<lparr>sp_state := tap_run (sp_state sp) (vbits tms 0 n)\<rparr>, s')
         else c_bind (tapReset cb s') (\<lambda>(_, s'').
                Ok (False, sp\<lparr>sp_state := TEST_LOGIC_RESET\<rparr>, s'')))"
proof -
  have flush: "c_bind (feed cb [Flush_all] s') f = c_bind (cb Flush_all s') f" for f s'
    by (cases "cb Flush_all s'") auto
  have "split_loop cb (int n) tms tdi tdo 0 0 (sp_state sp) s
   = c_bind (feed cb (split_bits n tms tdi tdo 0 0 (sp_state sp) (vbits tms 0 n)) s) (\<lambda>(ok, s').
       Ok (if ok then Round_done (int (split_pending n 0 0 (sp_state sp) (vbits tms 0 n)))
                        (tap_run (sp_state sp) (vbits tms 0 n)) s'
           else Bail_reset s'))"
    using split_loop_refines [of n tms 0 cb tdi tdo 0 "sp_state sp" s] assms(1,2)
    by (simp cong: if_cong)
  then show ?thesis
    using assms(3)
    by (auto simp: txvc_jtag_splitter_process_def Let_def feed_append c_bind_assoc flush
        simp del: feed.simps cong: if_cong
        intro!: arg_cong2 [of _ _ _ _ c_bind] ext)
qed

text \<open>C9. \<open>txvc_jtag_splitter_process\<close> with its octet rounds hands exactly the events of the
  bit-by-bit reference to the callback, in order, followed by the flush, and stops at the first
  failure; then it resets the TAP and reports failure, else it records the state the TAP is in.
  In particular neither of its two assertions can fail and no TMS octet outside of the vector is
  read.\<close>
theorem splitter_process_refines:
  assumes "n \<le> 8 * length tms" "n \<le> 2 ^ 31 - 8" "sp_cb sp = Some cb"
  shows "txvc_jtag_splitter_process sp (int n) tms tdi tdo s
   = c_bind (feed cb (split_bits n tms tdi tdo 0 0 (sp_state sp) (vbits tms 0 n) @ [Flush_all]) s)
       (\<lambda>(ok, s').
         if ok then Ok (True, sp\<lparr>sp_state := tap_run (sp_state sp) (vbits tms 0 n)\<rparr>, s')
         else c_bind (tapReset cb s') (\<lambda>(_, s'').
                Ok (False, sp\<lparr>sp_state := TEST_LOGIC_RESET\<rparr>, s'')))"
  using assms by (rule splitter_refines_main)

theorem splitter_process_refines_witness:
  "txvc_jtag_splitter_process
      \<lparr>sp_state = TEST_LOGIC_RESET, sp_cb = Some (\<lambda>e s. Ok (True, s @ [e]))\<rparr>
      (int 5) [0x02] [0x1f] 7 []
   = Ok (True, \<lparr>sp_state = SHIFT_DR, sp_cb = Some (\<lambda>e s. Ok (True, s @ [e]))\<rparr>,
        [Shift_tms [0x02] 0 4, Shift_tdi [0x1f] 7 4 5 True, Flush_all])"
proof -
  have bits: "vbits [0x02] 0 5 = [False, True, False, False, False]" by code_simp
  show ?thesis
    using splitter_process_refines [of 5 "[0x02]"
      "\<lparr>sp_state = TEST_LOGIC_RESET, sp_cb = Some (\<lambda>e s. Ok (True, s @ [e]))\<rparr>"
      "\<lambda>e s. Ok (True, s @ [e])" "[0x1f]" 7 "[]"]
    by (simp add: bits is_shift_def)
qed

subsection \<open>What the events mean\<close>

text \<open>The TMS bits an event stands for: a TMS shift its own range, a TDI shift zeros, except for a
  one at its last bit if it leaves the shift state.\<close>

fun event_tms :: "split_event \<Rightarrow> bool list" where
  "event_tms (Shift_tms tms from to) = vbits tms (nat from) (nat to)"
| "event_tms (Shift_tdi tdi tdo from to incomplete) =
     replicate (nat to - nat from - 1) False @ [\<not> incomplete]"
| "event_tms Flush_all = []"

fun is_shift_tdi :: "split_event \<Rightarrow> bool" where
  "is_shift_tdi (Shift_tdi tdi tdo from to incomplete) = True"
| "is_shift_tdi e = False"

text \<open>Ranges follow each other without gap or overlap, from \<open>fp\<close> to \<open>n\<close>, are nonempty and refer
  to the vectors the splitter was given.\<close>

fun covers :: "u8 list \<Rightarrow> u8 list \<Rightarrow> buf_ref \<Rightarrow> nat \<Rightarrow> nat \<Rightarrow> split_event list \<Rightarrow> bool" where
  "covers tms tdi tdo fp n [] \<longleftrightarrow> fp = n"
| "covers tms tdi tdo fp n (Shift_tms tms' from to # es) \<longleftrightarrow>
     tms' = tms \<and> from = int fp \<and> from < to \<and> covers tms tdi tdo (nat to) n es"
| "covers tms tdi tdo fp n (Shift_tdi tdi' tdo' from to incomplete # es) \<longleftrightarrow>
     tdi' = tdi \<and> tdo' = tdo \<and> from = int fp \<and> from < to \<and> covers tms tdi tdo (nat to) n es"
| "covers tms tdi tdo fp n (Flush_all # es) \<longleftrightarrow> False"

text \<open>A TDI shift is issued exactly for the bits clocked in a shift state of the TAP.\<close>

fun shift_states_ok :: "jtag_state \<Rightarrow> split_event list \<Rightarrow> bool" where
  "shift_states_ok st [] \<longleftrightarrow> True"
| "shift_states_ok st (e # es) \<longleftrightarrow>
     list_all (\<lambda>q. is_shift q \<longleftrightarrow> is_shift_tdi e) (tap_path st (event_tms e))
     \<and> shift_states_ok (tap_run st (event_tms e)) es"

text \<open>The bits between two events do not change whether the TAP is in a shift state, and are zeros
  in one; \<open>q\<close> is the state at the first pending bit.\<close>

definition pending_ok :: "jtag_state \<Rightarrow> bool list \<Rightarrow> jtag_state \<Rightarrow> bool" where
  "pending_ok q ps st \<longleftrightarrow> tap_run q ps = st
     \<and> list_all (\<lambda>x. is_shift x \<longleftrightarrow> is_shift st) (tap_path q ps)
     \<and> (is_shift st \<longrightarrow> ps = replicate (length ps) False)"

lemma pending_ok_Nil [simp]: "pending_ok st [] st"
  by (simp add: pending_ok_def)

lemma pending_ok_snoc:
  assumes "pending_ok q ps st" "is_shift st = is_shift (next_state st b)"
  shows "pending_ok q (ps @ [b]) (next_state st b)"
proof -
  have "ps = replicate (length ps) False \<Longrightarrow> ps @ [False] = False # ps"
    by (metis replicate_append_same)
  then show ?thesis
    using assms leaving_shift [of st b] by (auto simp: pending_ok_def tap_path_append)
qed

lemma split_bits_meaning:
  assumes "i + length bs = n" "fp \<le> i" "bs = vbits tms i n"
    and "pending_ok q (vbits tms fp i) st" "bs = [] \<Longrightarrow> fp = n"
  shows "covers tms tdi tdo fp n (split_bits n tms tdi tdo fp i st bs)
    \<and> concat (map event_tms (split_bits n tms tdi tdo fp i st bs)) = vbits tms fp n
    \<and> shift_states_ok q (split_bits n tms tdi tdo fp i st bs)"
  using assms
proof (induction bs arbitrary: fp i st q)
  case Nil
  then show ?case by simp
next
  case (Cons b bs)
  have "i < n" using Cons.prems(1) unfolding list.size by linarith
  with Cons.prems(3) have b: "b = vbit tms i" and bs: "bs = vbits tms (Suc i) n"
    by (auto simp: vbits_Cons)
  have ps: "vbits tms fp (Suc i) = vbits tms fp i @ [b]"
    using Cons.prems(2) b by (simp add: vbits_snoc)
  let ?st = "next_state st b"
  show ?case
  proof (cases "split_event_at n i st b")
    case False
    then have "pending_ok q (vbits tms fp (Suc i)) ?st"
      unfolding ps using Cons.prems(4) by (intro pending_ok_snoc) auto
    moreover have "bs = [] \<Longrightarrow> fp = n" using False Cons.prems(1) by auto
    ultimately have "covers tms tdi tdo fp n (split_bits n tms tdi tdo fp (Suc i) ?st bs)
      \<and> concat (map event_tms (split_bits n tms tdi tdo fp (Suc i) ?st bs)) = vbits tms fp n
      \<and> shift_states_ok q (split_bits n tms tdi tdo fp (Suc i) ?st bs)"
      using Cons.prems bs by (intro Cons.IH) auto
    with False show ?thesis by simp
  next
    case True
    let ?e = "if is_shift st then Shift_tdi tdi tdo (int fp) (int (Suc i)) (is_shift ?st)
              else Shift_tms tms (int fp) (int (Suc i))"
    let ?es = "split_bits n tms tdi tdo (Suc i) (Suc i) ?st bs"
    have IH: "covers tms tdi tdo (Suc i) n ?es \<and> concat (map event_tms ?es) = vbits tms (Suc i) n
      \<and> shift_states_ok ?st ?es"
    proof (rule Cons.IH)
      show "Suc i + length bs = n" "bs = [] \<Longrightarrow> Suc i = n" using Cons.prems(1) by simp_all
    qed (simp_all add: bs)
    have len: "length (vbits tms fp i) = i - fp" by simp
    have tms_bits: "event_tms ?e = vbits tms fp (Suc i)"
      using Cons.prems(2,4) leaving_shift [of st b] len
      by (auto simp: ps pending_ok_def Suc_diff_le simp del: of_nat_Suc)
    moreover have "shift_states_ok q (?e # ?es)"
      using IH Cons.prems(4) tms_bits
      by (auto simp: ps pending_ok_def tap_path_append)
    moreover have "covers tms tdi tdo fp n (?e # ?es)"
      using IH Cons.prems(2) by (auto simp del: of_nat_Suc)
    moreover have "vbits tms fp n = vbits tms fp (Suc i) @ vbits tms (Suc i) n"
      using Cons.prems(1,2) by (simp add: vbits_append)
    ultimately show ?thesis using True IH by simp
  qed
qed

subsection \<open>The callback interface\<close>

text \<open>What the splitter promises of the events it issues: ranges inside their vectors, where
  \<open>sz b\<close> is the size in octets of the callback's buffer \<open>b\<close>.\<close>

fun event_ok :: "(buf_ref \<Rightarrow> nat) \<Rightarrow> split_event \<Rightarrow> bool" where
  "event_ok sz (Shift_tms tms from to) \<longleftrightarrow>
     0 \<le> from \<and> from < to \<and> to \<le> 8 * int (length tms) \<and> to < 2 ^ 31"
| "event_ok sz (Shift_tdi tdi tdo from to incomplete) \<longleftrightarrow>
     0 \<le> from \<and> from < to \<and> to \<le> 8 * int (length tdi) \<and> to \<le> 8 * int (sz tdo) \<and> to < 2 ^ 31"
| "event_ok sz Flush_all \<longleftrightarrow> True"

lemma covers_le: "covers tms tdi tdo fp n es \<Longrightarrow> fp \<le> n"
proof (induction es arbitrary: fp)
  case (Cons e es)
  then show ?case by (cases e) fastforce+
qed simp

lemma covers_event_ok:
  assumes "covers tms tdi tdo fp n es" "n \<le> 8 * length tms" "n \<le> 8 * length tdi"
    and "n \<le> 8 * sz tdo" "n < 2 ^ 31"
  shows "list_all (event_ok sz) es"
  using assms(1)
proof (induction es arbitrary: fp)
  case (Cons e es)
  then obtain to where to: "covers tms tdi tdo (nat to) n es" "int fp < to"
    "e = Shift_tms tms (int fp) to \<or> (\<exists>i. e = Shift_tdi tdi tdo (int fp) to i)"
    by (cases e) auto
  from covers_le [OF to(1)] have "to \<le> int n" by simp
  with to Cons.IH [OF to(1)] assms(2-) show ?case by auto
qed simp

text \<open>A callback that accepts every such event without leaving defined behaviour.\<close>

locale jtag_sink =
  fixes cb :: "'s splitter_callback"
    and invar :: "'s \<Rightarrow> bool"
    and sizes :: "'s \<Rightarrow> buf_ref \<Rightarrow> nat"
  assumes cb_safe: "invar s \<Longrightarrow> event_ok (sizes s) e \<Longrightarrow>
      c_safe (cb e s) (\<lambda>(ok, s'). invar s' \<and> sizes s' = sizes s)"
begin

lemma feed_safe:
  "invar s \<Longrightarrow> list_all (event_ok (sizes s)) es \<Longrightarrow>
     c_safe (feed cb es s) (\<lambda>(ok, s'). invar s' \<and> sizes s' = sizes s)"
proof (induction es arbitrary: s)
  case (Cons e es)
  then have step: "c_safe (cb e s) (\<lambda>(ok, s'). invar s' \<and> sizes s' = sizes s)"
    by (intro cb_safe) auto
  show ?case
    unfolding feed.simps
  proof (rule c_safe_bindI [OF step], clarify)
    fix ok s'
    assume "invar s'" "sizes s' = sizes s"
    with Cons show "c_safe (if ok then feed cb es s' else Ok (False, s'))
        (\<lambda>(ok, s'). invar s' \<and> sizes s' = sizes s)"
      using Cons.IH [of s'] by auto
  qed
qed simp

lemma reset_safe:
  "invar s \<Longrightarrow> c_safe (tapReset cb s) (\<lambda>(ok, s'). invar s' \<and> sizes s' = sizes s)"
  unfolding tapReset_feed by (rule feed_safe) auto

lemma process_safe:
  assumes "invar s" "sp_cb sp = Some cb" "n \<le> 2 ^ 31 - 8"
    and "n \<le> 8 * length tms" "n \<le> 8 * length tdi" "n \<le> 8 * sizes s tdo"
  shows "c_safe (txvc_jtag_splitter_process sp (int n) tms tdi tdo s)
    (\<lambda>(ok, sp', s'). invar s' \<and> sizes s' = sizes s \<and> sp_cb sp' = Some cb \<and>
       sp_state sp' = (if ok then tap_run (sp_state sp) (vbits tms 0 n) else TEST_LOGIC_RESET))"
proof -
  let ?es = "split_bits n tms tdi tdo 0 0 (sp_state sp) (vbits tms 0 n)"
  have "covers tms tdi tdo 0 n ?es"
    using split_bits_meaning [of 0 "vbits tms 0 n" n 0 tms "sp_state sp" "sp_state sp" tdi tdo]
    by (auto simp: vbits_def)
  then have "list_all (event_ok (sizes s)) (?es @ [Flush_all])"
    using covers_event_ok [of tms tdi tdo 0 n ?es "sizes s"] assms(3-) by simp
  then have "c_safe (feed cb (?es @ [Flush_all]) s) (\<lambda>(ok, s'). invar s' \<and> sizes s' = sizes s)"
    using assms(1) by (intro feed_safe)
  moreover have "c_safe (c_bind (tapReset cb s') (\<lambda>(_, s'').
        Ok (False, sp\<lparr>sp_state := TEST_LOGIC_RESET\<rparr>, s'')))
      (\<lambda>(ok, sp', s''). invar s'' \<and> sizes s'' = sizes s' \<and> sp_cb sp' = Some cb \<and>
       sp_state sp' = (if ok then tap_run (sp_state sp) (vbits tms 0 n) else TEST_LOGIC_RESET))"
    if "invar s'" for s'
    using reset_safe [OF that] assms(2) by (auto intro!: c_safe_bindI)
  ultimately show ?thesis
    unfolding splitter_refines_main [OF assms(4,3,2)]
    using assms(2) by (fastforce intro!: c_safe_bindI)
qed

end

text \<open>A callback that notes what it is called with.\<close>

definition recorder :: "split_event list splitter_callback" where
  "recorder e es = Ok (True, es @ [e])"

lemma feed_recorder: "feed recorder es fs = Ok (True, fs @ es)"
  by (induction es arbitrary: fs) (simp_all add: recorder_def)

text \<open>C10. What the splitter hands to its callback for a vector is a faithful splitting of it: the
  ranges of the events partition the bits \<open>0 ..< n\<close> in order, replaying the TMS bits they stand for
  reproduces the TMS vector exactly, and a bit is shifted as TDI data if and only if the TAP is in
  Shift-DR or Shift-IR when it is clocked; the flush comes last, and the state recorded is the one
  the TAP is left in. So a driver that executes the events one by one drives the TAP as the
  combined vector would.\<close>
theorem splitter_events_faithful:
  assumes "n \<le> 8 * length tms" "n \<le> 2 ^ 31 - 8"
  shows "\<exists>es. txvc_jtag_splitter_process \<lparr>sp_state = st, sp_cb = Some recorder\<rparr> (int n) tms tdi tdo []
      = Ok (True, \<lparr>sp_state = tap_run st (vbits tms 0 n), sp_cb = Some recorder\<rparr>, es @ [Flush_all])
    \<and> covers tms tdi tdo 0 n es \<and> concat (map event_tms es) = vbits tms 0 n \<and> shift_states_ok st es"
proof -
  let ?es = "split_bits n tms tdi tdo 0 0 st (vbits tms 0 n)"
  have "covers tms tdi tdo 0 n ?es \<and> concat (map event_tms ?es) = vbits tms 0 n \<and> shift_states_ok st ?es"
    by (rule split_bits_meaning) (simp_all add: vbits_def)
  then show ?thesis
    using splitter_refines_main [OF assms, of "\<lparr>sp_state = st, sp_cb = Some recorder\<rparr>" recorder tdi tdo "[]"]
    by (intro exI [of _ ?es]) (simp add: feed_recorder del: feed.simps)
qed

theorem splitter_events_faithful_witness:
  "\<exists>es. txvc_jtag_splitter_process \<lparr>sp_state = TEST_LOGIC_RESET, sp_cb = Some recorder\<rparr> (int 5) [0x02] [0x1f] 7 []
      = Ok (True, \<lparr>sp_state = SHIFT_DR, sp_cb = Some recorder\<rparr>, es @ [Flush_all])
    \<and> concat (map event_tms es) = [False, True, False, False, False]"
proof -
  have bits: "vbits [0x02] 0 5 = [False, True, False, False, False]" by code_simp
  show ?thesis
    using splitter_events_faithful [of 5 "[0x02]" TEST_LOGIC_RESET "[0x1f]" 7] by (auto simp: bits)
qed

text \<open>Five TMS ones bring the TAP to Test-Logic-Reset from every state, and this is what
  \<open>tapReset\<close> hands to the callback: so \<open>txvc_jtag_splitter_init\<close> is right to start from that
  state, and \<open>txvc_jtag_splitter_process\<close> to record it after a failure.\<close>
theorem tapReset_resets:
  "tap_run st (event_tms (Shift_tms [0x1f] 0 5)) = TEST_LOGIC_RESET
   \<and> tapReset cb s = feed cb [Shift_tms [0x1f] 0 5, Flush_all] s"
proof -
  have "event_tms (Shift_tms [0x1f] 0 5) = replicate 5 True" by code_simp
  moreover have "tap_run st (replicate 5 True) = TEST_LOGIC_RESET"
    by (cases st) (simp_all add: numeral_eq_Suc)
  ultimately show ?thesis by (simp add: tapReset_feed del: feed.simps)
qed

lemma feed_accepts: "\<forall>e s. \<exists>s'. cb e s = Ok (True, s') \<Longrightarrow> \<exists>s'. feed cb es s = Ok (True, s')"
proof (induction es arbitrary: s)
  case (Cons e es)
  obtain s' where "cb e s = Ok (True, s')" using Cons.prems by blast
  then show ?case using Cons by simp
qed simp

lemma split_loop_overflow:
  assumes cb: "\<forall>e s. \<exists>s'. cb e s = Ok (True, s')" and n: "2 ^ 31 - 8 < n" and tms: "n \<le> 8 * length tms"
  shows "8 * k \<le> 2 ^ 31 - 8 \<Longrightarrow>
    split_loop cb (int n) tms tdi tdo (int (8 * k)) (int fp) st s = Fault SignedOverflow"
proof (induction "2 ^ 31 - 8 * k" arbitrary: k fp st s rule: less_induct)
  case less
  have rd: "rd_at tms (int (8 * k) sdiv 8) = Ok (tms ! k)"
    using less.prems n tms unfolding int_octet_sdiv by (simp add: rd_at_nat)
  have lt: "int (8 * k) < int n" using less.prems n by linarith
  show ?case
  proof (cases "8 * k = 2 ^ 31 - 8")
    case True
    then have "c_int (int (8 * k) + 8) = Fault SignedOverflow" by (simp add: c_int_def)
    then show ?thesis using lt by (subst split_loop.simps) (simp only: rd c_bind.simps if_True)
  next
    case False
    then have k: "8 * k + 8 \<le> 2 ^ 31 - 8" using less.prems by simp
    have nx: "c_int (int (8 * k) + 8) = Ok (int (8 * Suc k))" using k by (subst c_int_in) simp_all
    have te: "thisRoundEnd (int n) (int (8 * Suc k)) = int (8 * Suc k)"
      using k n by (simp add: thisRoundEnd_def)
    let ?bs = "vbits tms (8 * k) (8 * Suc k)"
    obtain s' where fd: "feed cb (split_bits n tms tdi tdo fp (8 * k) st ?bs) s = Ok (True, s')"
      using feed_accepts [OF cb] by blast
    have round: "split_round cb (int n) tms tdi tdo (int (8 * Suc k)) (int (8 * k)) (tms ! k) (int fp) st s
      = Ok (Round_done (int (split_pending n fp (8 * k) st ?bs)) (tap_run st ?bs) s')"
      using split_round_refines [of k "8 * k" "8 * Suc k" n cb tms tdi tdo fp st s] k n fd by simp
    have "split_loop cb (int n) tms tdi tdo (int (8 * Suc k)) (int (split_pending n fp (8 * k) st ?bs))
        (tap_run st ?bs) s' = Fault SignedOverflow"
      using k by (intro less.hyps) simp_all
    then show ?thesis
      using lt by (subst split_loop.simps) (simp only: rd nx te round c_bind.simps if_True round_end.case)
  qed
qed

text \<open>C18. A vector whose length is within seven of \<open>INT_MAX\<close> makes the octet rounds compute
  \<open>bitIdx + 8\<close> beyond \<open>INT_MAX\<close>: with a callback that accepts every event and vectors that are as
  long as announced, so that nothing else stops it, the splitter runs into the signed overflow.
  (The server accepts any positive length from the client.)\<close>
theorem splitter_process_overflow:
  assumes "2 ^ 31 - 8 < n" "n < 2 ^ 31" "n \<le> 8 * length tms"
    and "sp_cb sp = Some cb" "\<forall>e s. \<exists>s'. cb e s = Ok (True, s')"
  shows "txvc_jtag_splitter_process sp (int n) tms tdi tdo s = Fault SignedOverflow"
  using split_loop_overflow [OF assms(5,1,3), of 0 tdi tdo 0 "sp_state sp" s] assms(4)
  by (simp add: txvc_jtag_splitter_process_def)

theorem splitter_process_overflow_witness:
  "txvc_jtag_splitter_process \<lparr>sp_state = SHIFT_DR, sp_cb = Some recorder\<rparr>
     (int 2147483647) (replicate 268435456 0) (replicate 268435456 0) 0 [] = Fault SignedOverflow"
  by (rule splitter_process_overflow [where cb = recorder]) (simp_all add: recorder_def)

text \<open>Logging a sub-vector of a vector always returns and stays in bounds: the length check
  before the formatter guarantees the room without which it would not return.\<close>
theorem logSubVector_returns:
  assumes "0 \<le> f" "f \<le> t" "t \<le> 8 * length v" "t < 2 ^ 31"
  shows "logSubVector v (int f) (int t) =
    Some (Ok (if t - f > 1023 then None else Some (map bit_char (rev (vbits v f t)))))"
proof (cases "t - f > 1023")
  case True
  then show ?thesis by (simp add: logSubVector_def)
next
  case False
  have "takeWhile (\<lambda>c. c \<noteq> CHR 0x00) (overwritten out (map bit_char bs @ [CHR 0x00]))
      = map bit_char bs" for out bs
    by (simp add: overwritten_def takeWhile_append) (auto simp: bit_char_def)
  with False show ?thesis
    using format_msb_writes [OF assms(2-4), of 1024 "replicate 1024 CHR 0x00"] assms
    by (simp add: logSubVector_def)
qed

theorem logSubVector_returns_witness:
  "logSubVector [0x12, 0x34] (int 1) (int 14) = Some (Ok (Some ''1101000001001''))"
proof -
  have "map bit_char (rev (vbits [0x12, 0x34] 1 14)) = ''1101000001001''" by code_simp
  then show ?thesis using logSubVector_returns [of 1 14 "[0x12, 0x34]"] by simp
qed

end
