(* ===== verification/Byte_Copy.thy ===== *)
theory Byte_Copy
  imports Bit_Vector
begin

text \<open>
  \<open>libdrivers/ftdi_generic.c\<close>, the helpers that move bits and bytes between vectors, with their
  common specification \<open>write_bits\<close>. Its \<open>get_bit\<close> is the same function as the one of
  \<open>bit_vector.c\<close>.
\<close>

definition c_min :: "int \<Rightarrow> int \<Rightarrow> int" where
  "c_min a b = (if a < b then a else b)"

definition set_bit :: "u8 list \<Rightarrow> int \<Rightarrow> bool \<Rightarrow> u8 list c_res" where
  "set_bit p idx b =
     c_bind (rd_at p (idx sdiv 8)) (\<lambda>octet.
     c_bind (mask_bit (idx smod 8)) (\<lambda>m.
       wr_at p (idx sdiv 8) (if b then octet OR m else octet AND NOT m)))"

function copy_bits_loop :: "u8 list \<Rightarrow> int \<Rightarrow> u8 list \<Rightarrow> int \<Rightarrow> int \<Rightarrow> u8 list c_res" where
  "copy_bits_loop src fromIdx dst toIdx k =
     (if 0 < k then
        c_bind (get_bit src fromIdx) (\<lambda>b.
        c_bind (set_bit dst toIdx b) (\<lambda>dst'.
          copy_bits_loop src (fromIdx + 1) dst' (toIdx + 1) (k - 1)))
      else Ok dst)"
  by pat_completeness auto
termination
  by (relation "measure (\<lambda>(src, fromIdx, dst, toIdx, k). nat k)") auto

declare copy_bits_loop.simps [simp del]

definition copy_bits ::
  "u8 list \<Rightarrow> int \<Rightarrow> u8 list \<Rightarrow> int \<Rightarrow> int \<Rightarrow> bool \<Rightarrow> u8 list c_res" where
  "copy_bits src fromIdx dst toIdx numBits duplicateLastBit =
     c_bind (copy_bits_loop src fromIdx dst toIdx numBits) (\<lambda>dst'.
       if duplicateLastBit
       then let n = (if 0 < numBits then numBits else 0) in
            c_bind (get_bit src (fromIdx + n - 1)) (set_bit dst' (toIdx + n))
       else Ok dst')"

text \<open>\<open>memcpy\<close> out of and into byte blocks.\<close>

definition c_slice :: "u8 list \<Rightarrow> int \<Rightarrow> int \<Rightarrow> u8 list c_res" where
  "c_slice xs i n =
     (if 0 \<le> i \<and> 0 \<le> n \<and> i + n \<le> int (length xs) then Ok (take (nat n) (drop (nat i) xs))
      else Fault OutOfBounds)"

definition blit :: "u8 list \<Rightarrow> int \<Rightarrow> u8 list \<Rightarrow> u8 list c_res" where
  "blit dst i src =
     (if 0 \<le> i \<and> i + int (length src) \<le> int (length dst)
      then Ok (take (nat i) dst @ src @ drop (nat i + length src) dst)
      else Fault OutOfBounds)"

subsection \<open>Writing bit sequences\<close>

text \<open>The specification of both kinds of copies: a vector with some of its bits replaced.\<close>

definition put_bit :: "u8 list \<Rightarrow> nat \<Rightarrow> bool \<Rightarrow> u8 list" where
  "put_bit dst t b = dst[t div 8 := (if b then dst ! (t div 8) OR push_bit (t mod 8) 1
                                     else dst ! (t div 8) AND NOT (push_bit (t mod 8) 1))]"

fun write_bits :: "u8 list \<Rightarrow> nat \<Rightarrow> bool list \<Rightarrow> u8 list" where
  "write_bits dst t [] = dst"
| "write_bits dst t (b # bs) = write_bits (put_bit dst t b) (Suc t) bs"

lemma length_put_bit [simp]: "length (put_bit dst t b) = length dst"
  by (simp add: put_bit_def)

lemma length_write_bits [simp]: "length (write_bits dst t bs) = length dst"
  by (induction bs arbitrary: dst t) simp_all

lemma vbit_put_bit:
  assumes "t < 8 * length dst"
  shows "vbit (put_bit dst t b) j = (if j = t then b else vbit dst j)"
proof (cases "j div 8 = t div 8")
  case True
  have "t div 8 < length dst" using assms by (rule octet_index)
  moreover have "j = t \<longleftrightarrow> j mod 8 = t mod 8"
    using True by (metis div_mult_mod_eq)
  moreover have "j mod 8 < 8" "t mod 8 < 8" by simp_all
  ultimately show ?thesis
    using True by (auto simp: vbit_def put_bit_def bit_simps)
next
  case False
  then show ?thesis by (auto simp: vbit_def put_bit_def)
qed

lemma vbit_write_bits:
  "t + length bs \<le> 8 * length dst \<Longrightarrow>
   vbit (write_bits dst t bs) j = (if t \<le> j \<and> j < t + length bs then bs ! (j - t) else vbit dst j)"
proof (induction bs arbitrary: dst t)
  case (Cons b bs)
  show ?case
    unfolding write_bits.simps
    by (subst Cons.IH) (use Cons.prems in \<open>auto simp: vbit_put_bit nth_Cons' not_le\<close>)
qed auto

lemma vbits_eqI:
  assumes "length v = length w" "\<And>j. j < 8 * length v \<Longrightarrow> vbit v j = vbit w j"
  shows "v = w"
proof (rule nth_equalityI [OF assms(1)])
  fix k
  assume "k < length v"
  then have "bit (v ! k) n = bit (w ! k) n" if "n < 8" for n
    using assms(2) [of "8 * k + n"] that by (simp add: vbit_def)
  then show "v ! k = w ! k" by (intro bit_word_eqI) simp
qed

lemma write_bits_append:
  "t + length as + length bs \<le> 8 * length dst \<Longrightarrow>
   write_bits (write_bits dst t as) (t + length as) bs = write_bits dst t (as @ bs)"
  by (rule vbits_eqI) (auto simp: vbit_write_bits nth_append)

lemma set_bit_ok: "t < 8 * length dst \<Longrightarrow> set_bit dst (int t) b = Ok (put_bit dst t b)"
  by (simp add: set_bit_def put_bit_def c_res_simps octet_index)

lemma get_bit_ok: "i < 8 * length v \<Longrightarrow> get_bit v (int i) = Ok (vbit v i)"
  by (simp add: get_bit_def c_res_simps octet_index and_exp_iff vbit_def push_bit_of_1)

lemma copy_bits_loop_ok:
  "f + n \<le> 8 * length src \<Longrightarrow> t + n \<le> 8 * length dst \<Longrightarrow>
   copy_bits_loop src (int f) dst (int t) (int n) = Ok (write_bits dst t (vbits src f (f + n)))"
proof (induction n arbitrary: f t dst)
  case 0
  then show ?case by (simp add: copy_bits_loop.simps)
next
  case (Suc n)
  have "int f + 1 = int (Suc f)" "int t + 1 = int (Suc t)" "int (Suc n) - 1 = int n" by simp_all
  then show ?case
    using Suc by (subst copy_bits_loop.simps)
      (simp only: get_bit_ok set_bit_ok vbits_Cons c_bind.simps, simp add: get_bit_ok set_bit_ok
        vbits_Cons del: of_nat_Suc)
qed

lemma copy_bits_ok:
  assumes "f + n \<le> 8 * length src" "t + n \<le> 8 * length dst"
  shows "copy_bits src (int f) dst (int t) (int n) False = Ok (write_bits dst t (vbits src f (f + n)))"
  using copy_bits_loop_ok [OF assms] by (simp add: copy_bits_def)

lemma copy_bits_dup_ok:
  assumes "f + n \<le> 8 * length src" "t + n < 8 * length dst" "0 < n"
  shows "copy_bits src (int f) dst (int t) (int n) True
    = Ok (write_bits dst t (vbits src f (f + n) @ [vbit src (f + n - 1)]))"
proof -
  have i: "int f + int n - 1 = int (f + n - 1)" "int t + int n = int (t + n)"
    using assms(3) by simp_all
  have "write_bits dst t (vbits src f (f + n) @ [b])
      = put_bit (write_bits dst t (vbits src f (f + n))) (t + n) b" for b
    using write_bits_append [of t "vbits src f (f + n)" "[b]" dst] assms(2) by simp
  moreover have "get_bit src (int (f + n - 1)) = Ok (vbit src (f + n - 1))"
    using assms(1,3) by (intro get_bit_ok) simp
  moreover have "set_bit dst' (int (t + n)) b = Ok (put_bit dst' (t + n) b)"
    if "length dst' = length dst" for dst' b
    using that assms(2) by (intro set_bit_ok) simp
  moreover have "copy_bits_loop src (int f) dst (int t) (int n) = Ok (write_bits dst t (vbits src f (f + n)))"
    using assms by (intro copy_bits_loop_ok) simp_all
  moreover have "(if 0 < int n then int n else 0) = int n" by simp
  ultimately show ?thesis
    by (simp only: copy_bits_def Let_def i c_bind.simps if_True length_write_bits)
qed

subsection \<open>Block copies\<close>

lemma c_slice_ok: "k + n \<le> length xs \<Longrightarrow> c_slice xs (int k) (int n) = Ok (take n (drop k xs))"
  by (simp add: c_slice_def)

lemma c_slice_0: "n \<le> length xs \<Longrightarrow> c_slice xs 0 (int n) = Ok (take n xs)"
  by (simp add: c_slice_def)

definition overlay :: "u8 list \<Rightarrow> nat \<Rightarrow> u8 list \<Rightarrow> u8 list" where
  "overlay dst k src = take k dst @ src @ drop (k + length src) dst"

lemma length_overlay [simp]: "k + length src \<le> length dst \<Longrightarrow> length (overlay dst k src) = length dst"
  by (simp add: overlay_def)

lemma blit_ok: "k + length src \<le> length dst \<Longrightarrow> blit dst (int k) src = Ok (overlay dst k src)"
  by (simp add: blit_def overlay_def)

lemma vbit_nth: "n < 8 \<Longrightarrow> vbit v (8 * k + n) = bit (v ! k) n"
  by (simp add: vbit_def)

lemma overlay_bits:
  assumes "k + length src \<le> length dst"
  shows "overlay dst k src = write_bits dst (8 * k) (vbits src 0 (8 * length src))"
proof (rule vbits_eqI)
  fix j
  assume "j < 8 * length (overlay dst k src)"
  then have j: "j div 8 < length dst" using assms octet_index by simp
  have "8 * k \<le> j \<longleftrightarrow> k \<le> j div 8" "j < 8 * k + 8 * length src \<longleftrightarrow> j div 8 < k + length src"
    by (auto simp: less_eq_div_iff_mult_less_eq div_less_iff_less_mult algebra_simps)
  moreover have "8 * k \<le> j \<Longrightarrow> (j - 8 * k) div 8 = j div 8 - k \<and> (j - 8 * k) mod 8 = j mod 8"
    by (metis add.commute add_diff_cancel_left' div_mult_self2 le_add_diff_inverse mod_mult_self2
        mult.commute zero_neq_numeral)
  ultimately show "vbit (overlay dst k src) j
      = vbit (write_bits dst (8 * k) (vbits src 0 (8 * length src))) j"
    using assms j
    by (subst vbit_write_bits) (auto simp: vbit_def overlay_def nth_append min_def)
qed (use assms in simp)

lemma vbits_drop: "8 * (k + n) \<le> 8 * length v \<Longrightarrow> t \<le> 8 * n \<Longrightarrow>
    vbits (drop k v) f t = vbits v (8 * k + f) (8 * k + t)"
  by (rule nth_equalityI) (auto simp: vbit_def add.assoc)

lemma vbits_take: "t \<le> 8 * n \<Longrightarrow> vbits (take n v) f t = vbits v f t"
  by (rule nth_equalityI) (auto simp: vbit_def less_mult_imp_div_less)

lemma vbits_append1: "t \<le> 8 * length v \<Longrightarrow> vbits (v @ w) f t = vbits v f t"
  by (rule nth_equalityI) (auto simp: vbit_def nth_append octet_index)

lemma vbits_append2:
  "vbits (v @ w) (8 * length v + f) (8 * length v + t) = vbits w f t"
  by (rule nth_equalityI) (auto simp: vbit_def nth_append add.assoc)

end
