(* ===== verification/Player.thy ===== *)
theory Player
  imports Jtag_Splitter Byte_Copy
begin

text \<open>
  \<open>player/player.c\<close>: decodes a capture of the four JTAG signals, one octet per sample, with a
  splitter whose callback does nothing; what the program prints is the splitter's log.

  The file is an argument, the list of what \<open>fread\<close> gives until the end of the file: a sample or an
  error. The local vectors start with arbitrary contents. The calls of
  \<open>txvc_jtag_splitter_process\<close>, with the vectors they are given, are part of the result.
\<close>

datatype sample = Sample u8 | Read_error

definition noop_splitter_callback :: "unit splitter_callback" where
  "noop_splitter_callback event extra = Ok (True, extra)"

text \<open>\<open>bufs\<close> are the vectors \<open>tms\<close>, \<open>tdi\<close> and \<open>tdo\<close>, and the bit positions in a sample are those of
  the source.\<close>

type_synonym buffers = "u8 list \<times> u8 list \<times> u8 list"

definition tckBitPos :: nat where "tckBitPos = 3"
definition tmsBitPos :: nat where "tmsBitPos = 0"
definition tdiBitPos :: nat where "tdiBitPos = 1"
definition tdoBitPos :: nat where "tdoBitPos = 2"

definition sample_bit :: "u8 \<Rightarrow> nat \<Rightarrow> bool" where
  "sample_bit rawSample pos \<longleftrightarrow> rawSample AND push_bit pos 1 \<noteq> 0"

definition maxBits :: nat where "maxBits = 1024 * 8"

text \<open>A sample that is not the end of the file: the bits are taken on a rising edge of TCK.\<close>

definition take_sample ::
  "u8 \<Rightarrow> bool \<Rightarrow> buffers \<Rightarrow> nat \<Rightarrow> (buffers \<times> nat \<times> bool) c_res" where
  "take_sample rawSample lastTckSample = (\<lambda>(tms, tdi, tdo) curBits.
     let tckSample = sample_bit rawSample tckBitPos in
     if \<not> lastTckSample \<and> tckSample then
       c_bind (set_bit tms (int curBits) (sample_bit rawSample tmsBitPos)) (\<lambda>tms.
       c_bind (set_bit tdi (int curBits) (sample_bit rawSample tdiBitPos)) (\<lambda>tdi.
       c_bind (set_bit tdo (int curBits) (sample_bit rawSample tdoBitPos)) (\<lambda>tdo.
         Ok ((tms, tdi, tdo), curBits + 1, tckSample))))
     else Ok ((tms, tdi, tdo), curBits, tckSample))"

definition tdo_buffer :: buf_ref where "tdo_buffer = 0"

fun player_loop ::
  "unit jtag_splitter \<Rightarrow> buffers \<Rightarrow> nat \<Rightarrow> bool \<Rightarrow> sample list \<Rightarrow> (nat \<times> buffers) list \<Rightarrow>
   (int \<times> unit jtag_splitter \<times> (nat \<times> buffers) list) c_res" where
  "player_loop sp (tms, tdi, tdo) curBits lastTckSample [] calls =
     c_bind (txvc_jtag_splitter_process sp (int curBits) tms tdi tdo_buffer ()) (\<lambda>(_, sp, _).
       Ok (0, sp, calls @ [(curBits, tms, tdi, tdo)]))"
| "player_loop sp bufs curBits lastTckSample (Read_error # rest) calls = Ok (1, sp, calls)"
| "player_loop sp bufs curBits lastTckSample (Sample rawSample # rest) calls =
     c_bind (take_sample rawSample lastTckSample bufs curBits) (\<lambda>((tms, tdi, tdo), curBits, lastTckSample).
       if curBits = maxBits - 1 then
         c_bind (txvc_jtag_splitter_process sp (int curBits) tms tdi tdo_buffer ()) (\<lambda>(_, sp, _).
           player_loop sp (tms, tdi, tdo) 0 lastTckSample rest (calls @ [(curBits, tms, tdi, tdo)]))
       else player_loop sp (tms, tdi, tdo) curBits lastTckSample rest calls)"

text \<open>After the file has been opened; none is a file that can not be.\<close>

definition player_main ::
  "unit jtag_splitter \<Rightarrow> buffers \<Rightarrow> sample list option \<Rightarrow>
   (int \<times> unit jtag_splitter \<times> (nat \<times> buffers) list) c_res" where
  "player_main splitter bufs jtagSamples = (case jtagSamples of
     None \<Rightarrow> Ok (1, splitter, [])
   | Some samples \<Rightarrow>
       c_bind (txvc_jtag_splitter_init splitter noop_splitter_callback ()) (\<lambda>(_, sp, _).
         player_loop sp bufs 0 True samples []))"

subsection \<open>The noop callback is a sink\<close>

interpretation noop_sink: jtag_sink noop_splitter_callback "\<lambda>_. True" "\<lambda>_ _. 1024"
  by unfold_locales (simp add: noop_splitter_callback_def)

lemma feed_noop: "feed noop_splitter_callback es s = Ok (True, s)"
  by (induction es) (simp_all add: noop_splitter_callback_def)

lemma process_noop:
  assumes "n \<le> 8 * length tms" "n \<le> 2 ^ 31 - 8" "sp_cb sp = Some noop_splitter_callback"
  shows "txvc_jtag_splitter_process sp (int n) tms tdi tdo ()
    = Ok (True, sp\<lparr>sp_state := tap_run (sp_state sp) (vbits tms 0 n)\<rparr>, ())"
  using assms by (simp add: splitter_refines_main feed_noop)

subsection \<open>Decoding\<close>

text \<open>The samples at the rising edges of TCK, which starts high, and the bits of one signal there.\<close>

fun rising :: "bool \<Rightarrow> u8 list \<Rightarrow> u8 list" where
  "rising lastTck [] = []"
| "rising lastTck (s # ss) =
     (if \<not> lastTck \<and> bit s tckBitPos then s # rising (bit s tckBitPos) ss else rising (bit s tckBitPos) ss)"

definition signal :: "nat \<Rightarrow> u8 list \<Rightarrow> bool list" where
  "signal pos ss = map (\<lambda>s. bit s pos) ss"

fun call_bits :: "(buffers \<Rightarrow> u8 list) \<Rightarrow> (nat \<times> buffers) list \<Rightarrow> bool list" where
  "call_bits f [] = []"
| "call_bits f ((n, b) # cs) = vbits (f b) 0 n @ call_bits f cs"

lemma call_bits_append: "call_bits f (as @ bs) = call_bits f as @ call_bits f bs"
  by (induction f as rule: call_bits.induct) simp_all

lemma sample_bit_iff: "sample_bit s p \<longleftrightarrow> bit s p"
  by (simp add: sample_bit_def and_exp_iff push_bit_of_1)

lemma vbits_put_bit:
  assumes "n < 8 * length v"
  shows "vbits (put_bit v n b) 0 (Suc n) = vbits v 0 n @ [b]"
proof -
  have "vbit (put_bit v n b) i = vbit v i" if "i < n" for i
    using vbit_put_bit [OF assms, of b i] that by simp
  then have "vbits (put_bit v n b) 0 n = vbits v 0 n" by (simp add: vbits_def)
  then show ?thesis using vbit_put_bit [OF assms, of b n] by (simp add: vbits_snoc)
qed

text \<open>The player returns success with the splitter in a state \<open>q\<close> after calls with these bits.\<close>

definition yields ::
  "jtag_state \<Rightarrow> bool list \<Rightarrow> bool list \<Rightarrow> bool list \<Rightarrow>
   (int \<times> unit jtag_splitter \<times> (nat \<times> buffers) list) c_res \<Rightarrow> bool" where
  "yields q as bs cs r \<longleftrightarrow> (\<exists>calls sp. r = Ok (0, sp, calls) \<and> sp_state sp = q
     \<and> (\<forall>(n, _) \<in> set calls. n < maxBits) \<and> call_bits fst calls = as
     \<and> call_bits (fst \<circ> snd) calls = bs \<and> call_bits (snd \<circ> snd) calls = cs)"

lemma player_loop_yields:
  assumes "length tms = 1024" "length tdi = 1024" "length tdo = 1024" "cur < maxBits - 1"
    and "sp_cb sp = Some noop_splitter_callback"
    and "\<forall>(n, _) \<in> set calls. n < maxBits"
  shows "yields (tap_run (sp_state sp) (vbits tms 0 cur @ signal tmsBitPos (rising lt ss)))
    (call_bits fst calls @ vbits tms 0 cur @ signal tmsBitPos (rising lt ss))
    (call_bits (fst \<circ> snd) calls @ vbits tdi 0 cur @ signal tdiBitPos (rising lt ss))
    (call_bits (snd \<circ> snd) calls @ vbits tdo 0 cur @ signal tdoBitPos (rising lt ss))
    (player_loop sp (tms, tdi, tdo) cur lt (map Sample ss) calls)"
  using assms
proof (induction ss arbitrary: sp tms tdi tdo cur lt calls)
  case Nil
  then show ?case
    by (auto simp: yields_def process_noop maxBits_def signal_def call_bits_append o_def)
next
  case (Cons s ss)
  let ?b = "\<lambda>p. bit s p"
  show ?case
  proof (cases "\<not> lt \<and> ?b tckBitPos")
    case False
    have "take_sample s lt (tms, tdi, tdo) cur = Ok ((tms, tdi, tdo), cur, ?b tckBitPos)"
      using False by (auto simp: take_sample_def sample_bit_iff Let_def)
    then have "player_loop sp (tms, tdi, tdo) cur lt (map Sample (s # ss)) calls
        = player_loop sp (tms, tdi, tdo) cur (?b tckBitPos) (map Sample ss) calls"
      using Cons.prems(4) by simp
    moreover have "rising lt (s # ss) = rising (?b tckBitPos) ss" using False by simp
    ultimately show ?thesis using Cons.IH [OF Cons.prems] by simp
  next
    case True
    let ?tms = "put_bit tms cur (?b tmsBitPos)" and ?tdi = "put_bit tdi cur (?b tdiBitPos)"
      and ?tdo = "put_bit tdo cur (?b tdoBitPos)"
    have cur: "cur < 8 * length tms" "cur < 8 * length tdi" "cur < 8 * length tdo"
      using Cons.prems(1-4) by (simp_all add: maxBits_def)
    have "take_sample s lt (tms, tdi, tdo) cur = Ok ((?tms, ?tdi, ?tdo), cur + 1, True)"
      using True cur by (simp add: take_sample_def sample_bit_iff set_bit_ok Let_def)
    then have step: "player_loop sp (tms, tdi, tdo) cur lt (map Sample (s # ss)) calls
        = (if cur + 1 = maxBits - 1 then
             c_bind (txvc_jtag_splitter_process sp (int (cur + 1)) ?tms ?tdi tdo_buffer ()) (\<lambda>(_, sp, _).
               player_loop sp (?tms, ?tdi, ?tdo) 0 True (map Sample ss) (calls @ [(cur + 1, ?tms, ?tdi, ?tdo)]))
           else player_loop sp (?tms, ?tdi, ?tdo) (cur + 1) True (map Sample ss) calls)"
      by simp
    have r: "rising lt (s # ss) = s # rising True ss" using True by simp
    have v: "vbits ?tms 0 (Suc cur) = vbits tms 0 cur @ [?b tmsBitPos]"
      "vbits ?tdi 0 (Suc cur) = vbits tdi 0 cur @ [?b tdiBitPos]"
      "vbits ?tdo 0 (Suc cur) = vbits tdo 0 cur @ [?b tdoBitPos]"
      using cur by (simp_all add: vbits_put_bit)
    show ?thesis
    proof (cases "cur + 1 = maxBits - 1")
      case full: True
      let ?sp = "sp\<lparr>sp_state := tap_run (sp_state sp) (vbits ?tms 0 (Suc cur))\<rparr>"
      have p: "txvc_jtag_splitter_process sp (int (cur + 1)) ?tms ?tdi tdo_buffer () = Ok (True, ?sp, ())"
        using Cons.prems(1,5) full process_noop [of "Suc cur" ?tms sp ?tdi tdo_buffer]
        by (simp add: maxBits_def)
      have "yields (tap_run (sp_state ?sp) (vbits ?tms 0 0 @ signal tmsBitPos (rising True ss)))
        (call_bits fst (calls @ [(cur + 1, ?tms, ?tdi, ?tdo)]) @ vbits ?tms 0 0 @ signal tmsBitPos (rising True ss))
        (call_bits (fst \<circ> snd) (calls @ [(cur + 1, ?tms, ?tdi, ?tdo)]) @ vbits ?tdi 0 0
           @ signal tdiBitPos (rising True ss))
        (call_bits (snd \<circ> snd) (calls @ [(cur + 1, ?tms, ?tdi, ?tdo)]) @ vbits ?tdo 0 0
           @ signal tdoBitPos (rising True ss))
        (player_loop ?sp (?tms, ?tdi, ?tdo) 0 True (map Sample ss) (calls @ [(cur + 1, ?tms, ?tdi, ?tdo)]))"
        by (rule Cons.IH) (use Cons.prems full in \<open>auto simp: maxBits_def\<close>)
      then show ?thesis
        unfolding step r if_P [OF full] p c_bind.simps prod.case
        by (simp add: v signal_def call_bits_append o_def)
    next
      case more: False
      have "yields (tap_run (sp_state sp) (vbits ?tms 0 (cur + 1) @ signal tmsBitPos (rising True ss)))
        (call_bits fst calls @ vbits ?tms 0 (cur + 1) @ signal tmsBitPos (rising True ss))
        (call_bits (fst \<circ> snd) calls @ vbits ?tdi 0 (cur + 1) @ signal tdiBitPos (rising True ss))
        (call_bits (snd \<circ> snd) calls @ vbits ?tdo 0 (cur + 1) @ signal tdoBitPos (rising True ss))
        (player_loop sp (?tms, ?tdi, ?tdo) (cur + 1) True (map Sample ss) calls)"
        by (rule Cons.IH) (use Cons.prems more in auto)
      then show ?thesis
        unfolding step r using more by (simp add: v signal_def o_def)
    qed
  qed
qed

text \<open>C37. For a capture that can be read to its end the player returns success, and what it gives
  the splitter, call after call, is exactly the levels of TMS, TDI and TDO at the rising edges of
  TCK, in order, none lost or doubled when the vectors fill up; no vector overflows, and the
  splitter ends in the TAP state all these TMS bits lead to.\<close>
theorem player_decodes:
  assumes "length tms = 1024" "length tdi = 1024" "length tdo = 1024"
  shows "\<exists>calls sp'. player_main sp (tms, tdi, tdo) (Some (map Sample ss)) = Ok (0, sp', calls)
    \<and> (\<forall>(n, _) \<in> set calls. n < 8192)
    \<and> call_bits fst calls = signal tmsBitPos (rising True ss)
    \<and> call_bits (fst \<circ> snd) calls = signal tdiBitPos (rising True ss)
    \<and> call_bits (snd \<circ> snd) calls = signal tdoBitPos (rising True ss)
    \<and> sp_state sp' = tap_run TEST_LOGIC_RESET (signal tmsBitPos (rising True ss))"
proof -
  let ?sp = "sp\<lparr>sp_state := TEST_LOGIC_RESET, sp_cb := Some noop_splitter_callback\<rparr>"
  have "player_main sp (tms, tdi, tdo) (Some (map Sample ss))
      = player_loop ?sp (tms, tdi, tdo) 0 True (map Sample ss) []"
    by (simp add: player_main_def txvc_jtag_splitter_init_def tapReset_def noop_splitter_callback_def)
  then show ?thesis
    using player_loop_yields [OF assms, of 0 ?sp "[]" True ss] by (simp add: yields_def maxBits_def) blast
qed

theorem player_decodes_witness:
  "\<exists>calls sp'. player_main \<lparr>sp_state = SHIFT_DR, sp_cb = None\<rparr>
      (replicate 1024 0, replicate 1024 0, replicate 1024 0)
      (Some (map Sample [0x08, 0x01, 0x09, 0x0a, 0x02, 0x0a])) = Ok (0, sp', calls)
    \<and> call_bits fst calls = [True, False] \<and> sp_state sp' = RUN_TEST_IDLE"
proof -
  have "signal tmsBitPos (rising True [0x08, 0x01, 0x09, 0x0a, 0x02, 0x0a]) = [True, False]"
    "tap_run TEST_LOGIC_RESET [True, False] = RUN_TEST_IDLE" by code_simp+
  then show ?thesis
    using player_decodes [of "replicate 1024 0" "replicate 1024 0" "replicate 1024 0"
        "\<lparr>sp_state = SHIFT_DR, sp_cb = None\<rparr>" "[0x08, 0x01, 0x09, 0x0a, 0x02, 0x0a]"]
    by auto
qed

end
