(* ===== verification/Mempool.thy ===== *)
theory Mempool
  imports Txvc_Prelude
begin

text \<open>
  \<open>libtxvc/mempool.c\<close>: the linear arena allocator. Addresses and \<open>size_t\<close> are 64-bit words, and
  pointer arithmetic wraps around as it does on the flat address space of the target.
  \<open>malloc\<close> is an argument of \<open>txvc_mempool_init\<close> (\<open>None\<close> is the null pointer), and
  \<open>txvc_mempool_deinit\<close> returns the list of pointers it hands to \<open>free\<close>. The one-bit flag
  \<open>fatalOom\<close> is a bool, the function pointer \<open>release\<close> an optional tag.
\<close>

datatype release_fn = MallocPoolRelease

record mempool =
  pool_start :: u64
  pool_end :: u64
  pool_head :: u64
  fatalOom :: bool
  release :: "release_fn option"

fun mallocPoolRelease :: "u64 \<Rightarrow> u64 \<Rightarrow> u64 list" where
  "mallocPoolRelease start e = [start]"

definition txvc_mempool_init :: "(u64 \<Rightarrow> u64 option) \<Rightarrow> u64 \<Rightarrow> mempool c_res" where
  "txvc_mempool_init malloc sz =
     (case malloc sz of
        None \<Rightarrow> Fault FatalAbort
      | Some p \<Rightarrow> Ok \<lparr>pool_start = p, pool_end = p + sz, pool_head = p, fatalOom = True,
                     release = Some MallocPoolRelease\<rparr>)"

definition txvc_mempool_deinit :: "mempool \<Rightarrow> mempool \<times> u64 list" where
  "txvc_mempool_deinit m =
     (case release m of
        Some MallocPoolRelease \<Rightarrow>
          (m\<lparr>release := None\<rparr>, mallocPoolRelease (pool_start m) (pool_end m))
      | None \<Rightarrow> (m, []))"

definition txvc_mempool_alloc_unaligned :: "mempool \<Rightarrow> u64 \<Rightarrow> (u64 option \<times> mempool) c_res" where
  "txvc_mempool_alloc_unaligned m sz =
     (if sz = 0 then Ok (None, m)
      else if pool_head m + sz \<le> pool_end m
      then Ok (Some (pool_head m), m\<lparr>pool_head := pool_head m + sz\<rparr>)
      else if fatalOom m then Fault FatalAbort
      else Ok (None, m))"

definition txvc_mempool_alloc_aligned ::
  "mempool \<Rightarrow> u64 \<Rightarrow> u64 \<Rightarrow> (u64 option \<times> mempool) c_res" where
  "txvc_mempool_alloc_aligned m sz align =
     (if sz = 0 \<or> align = 0 then Ok (None, m)
      else let alignMask = align - 1 in
        c_bind (c_assert (align AND alignMask = 0)) (\<lambda>_.
          let md = pool_head m AND alignMask;
              adjustedHead = pool_head m + (if md \<noteq> 0 then align - md else 0)
          in if adjustedHead + sz \<le> pool_end m
             then Ok (Some adjustedHead, m\<lparr>pool_head := adjustedHead + sz\<rparr>)
             else if fatalOom m then Fault FatalAbort
             else Ok (None, m)))"

definition txvc_mempool_reclaim_all :: "mempool \<Rightarrow> mempool" where
  "txvc_mempool_reclaim_all m = m\<lparr>pool_head := pool_start m\<rparr>"

text \<open>The two allocation calls as requests, and a sequence of calls that stops at an abort.\<close>

datatype pool_request = Unaligned u64 | Aligned u64 u64

fun pool_alloc :: "pool_request \<Rightarrow> mempool \<Rightarrow> (u64 option \<times> mempool) c_res" where
  "pool_alloc (Unaligned sz) m = txvc_mempool_alloc_unaligned m sz"
| "pool_alloc (Aligned sz align) m = txvc_mempool_alloc_aligned m sz align"

fun run_allocs ::
  "('r \<Rightarrow> 'p \<Rightarrow> ('a option \<times> 'p) c_res) \<Rightarrow> 'r list \<Rightarrow> 'p \<Rightarrow> (('a \<times> 'r) list \<times> 'p) c_res" where
  "run_allocs al [] p = Ok ([], p)"
| "run_allocs al (r # rs) p =
     c_bind (al r p) (\<lambda>(a, p').
     c_bind (run_allocs al rs p') (\<lambda>(bs, p'').
       Ok ((case a of None \<Rightarrow> bs | Some x \<Rightarrow> (x, r) # bs), p'')))"

subsection \<open>Powers of two and alignment\<close>

lemma nat_power_of_two:
  "0 < a \<Longrightarrow> a AND (a - 1) = 0 \<Longrightarrow> \<exists>k. a = 2 ^ k" for a :: nat
proof (induction a rule: less_induct)
  case (less a)
  show ?case
  proof (cases "odd a")
    case True
    then obtain b where a: "a = 2 * b + 1" by (metis oddE)
    then have "2 * (b AND b) = 0"
      using less.prems(2) by (subst (asm) and_rec) simp
    with a show ?thesis by (intro exI [of _ 0]) simp
  next
    case False
    then obtain b where a: "a = 2 * b" by (metis evenE)
    then have "0 < b" and "(a - 1) div 2 = b - 1" and "odd (a - 1)"
      using less.prems(1) by auto
    then have "b AND (b - 1) = 0"
      using less.prems(2) a by (subst (asm) and_rec) simp
    from less.IH [OF _ \<open>0 < b\<close> this] a \<open>0 < b\<close> obtain k where "b = 2 ^ k" by auto
    with a show ?thesis by (intro exI [of _ "Suc k"]) simp
  qed
qed

lemma word_power_of_two:
  fixes a :: "'a::len word"
  assumes "a \<noteq> 0" and "a AND (a - 1) = 0"
  shows "\<exists>k. unat a = 2 ^ k"
proof (rule nat_power_of_two)
  show "0 < unat a" using assms(1) by (simp add: unat_gt_0)
  have "unat (a AND (a - 1)) = unat a AND (unat a - 1)"
    using assms(1) by (simp add: unsigned_and_eq unat_minus_one)
  then show "unat a AND (unat a - 1) = 0" using assms(2) by simp
qed

lemma word_and_minus_1_mod:
  fixes a h :: "'a::len word"
  assumes "a \<noteq> 0" and "a AND (a - 1) = 0"
  shows "unat (h AND (a - 1)) = unat h mod unat a"
proof -
  obtain k where k: "unat a = 2 ^ k" using word_power_of_two [OF assms] by blast
  have "unat (h AND (a - 1)) = unat h AND (unat a - 1)"
    using assms(1) by (simp add: unsigned_and_eq unat_minus_one)
  also have "\<dots> = take_bit k (unat h)"
    by (simp add: k take_bit_eq_mask mask_eq_exp_minus_1)
  finally show ?thesis by (simp add: k take_bit_eq_mod)
qed

lemma unat_plus_small:
  "unat a + unat b < 2 ^ LENGTH('a) \<Longrightarrow> unat (a + b) = unat a + unat b" for a b :: "'a::len word"
  by (simp add: unat_word_ariths)

subsection \<open>Invariant and the contract of the two allocation calls\<close>

text \<open>The arena is a block of the lower half of the address space and the head is inside of it.
  A request is sane if its size and alignment are below \<open>2 ^ 62\<close> and the alignment is a power
  of two; the program's requests are below \<open>2 ^ 18\<close>.\<close>

definition pool_wf :: "mempool \<Rightarrow> bool" where
  "pool_wf m \<longleftrightarrow> pool_start m \<le> pool_head m \<and> pool_head m \<le> pool_end m
     \<and> unat (pool_end m) < 2 ^ 63"

fun request_size :: "pool_request \<Rightarrow> nat" where
  "request_size (Unaligned sz) = unat sz"
| "request_size (Aligned sz align) = unat sz"

fun request_align :: "pool_request \<Rightarrow> nat" where
  "request_align (Unaligned sz) = 1"
| "request_align (Aligned sz align) = unat align"

fun request_ok :: "pool_request \<Rightarrow> bool" where
  "request_ok (Unaligned sz) \<longleftrightarrow> unat sz < 2 ^ 62"
| "request_ok (Aligned sz align) \<longleftrightarrow>
     unat sz < 2 ^ 62 \<and> unat align < 2 ^ 62 \<and> align AND (align - 1) = 0"

text \<open>Where the next block of the request starts: the head, rounded up to the alignment.\<close>

definition round_up :: "nat \<Rightarrow> nat \<Rightarrow> nat" where
  "round_up n a = (if n mod a = 0 then n else n + (a - n mod a))"

lemma round_up_1 [simp]: "round_up n 1 = n" "round_up n (Suc 0) = n"
  by (simp_all add: round_up_def)

lemma round_up_ge: "n \<le> round_up n a"
  by (simp add: round_up_def)

lemma round_up_less: "0 < a \<Longrightarrow> round_up n a < n + a"
  by (simp add: round_up_def)

lemma round_up_dvd: "0 < a \<Longrightarrow> a dvd round_up n a"
proof (cases "n mod a = 0")
  case False
  assume "0 < a"
  then have "n mod a < a" by simp
  then have "n + (a - n mod a) = n div a * a + a"
    using div_mult_mod_eq [of n a] by linarith
  with False show ?thesis by (simp add: round_up_def)
qed (auto simp: round_up_def)

lemma adjusted_head:
  assumes "pool_wf m" "align \<noteq> 0" "align AND (align - 1) = 0" "unat align < 2 ^ 62"
  shows "unat (pool_head m + (if pool_head m AND (align - 1) \<noteq> 0
             then align - (pool_head m AND (align - 1)) else 0))
       = round_up (unat (pool_head m)) (unat align)"
proof -
  let ?h = "pool_head m" and ?md = "pool_head m AND (align - 1)"
  have md: "unat ?md = unat ?h mod unat align" using word_and_minus_1_mod assms(2,3) by blast
  have al: "0 < unat align" using assms(2) by (simp add: unat_gt_0)
  show ?thesis
  proof (cases "?md = 0")
    case True
    then have "unat ?h mod unat align = 0" using md by simp
    with True show ?thesis by (simp add: round_up_def)
  next
    case False
    then have "unat ?h mod unat align \<noteq> 0" using md by (metis unat_eq_zero)
    moreover have le: "unat ?md < unat align" using md al by simp
    then have "unat (align - ?md) = unat align - unat ?md"
      by (simp add: unat_sub word_le_nat_alt)
    moreover have "unat ?h < 2 ^ 63"
      using assms(1) by (auto simp: pool_wf_def word_le_nat_alt)
    ultimately show ?thesis
      using False md assms(4) le by (simp add: round_up_def unat_plus_small)
  qed
qed

text \<open>One description for both calls: a null result without effect for an empty request; else
  the block at the rounded-up head if it fits, and the abort if it does not.\<close>

lemma pool_alloc_cases:
  assumes "pool_wf m" "request_ok r"
  defines "a \<equiv> round_up (unat (pool_head m)) (request_align r)"
  shows "pool_alloc r m =
    (if request_size r = 0 \<or> request_align r = 0 then Ok (None, m)
     else if a + request_size r \<le> unat (pool_end m)
     then Ok (Some (of_nat a), m\<lparr>pool_head := of_nat (a + request_size r)\<rparr>)
     else if fatalOom m then Fault FatalAbort else Ok (None, m))"
proof -
  have h: "unat (pool_head m) < 2 ^ 63"
    using assms(1) by (auto simp: pool_wf_def word_le_nat_alt)
  show ?thesis
  proof (cases r)
    case (Unaligned sz)
    have "unat (pool_head m + sz) = unat (pool_head m) + unat sz"
      using h assms(2) Unaligned by (intro unat_plus_small) simp
    then show ?thesis
      using Unaligned
      by (simp add: txvc_mempool_alloc_unaligned_def a_def unat_eq_zero word_le_nat_alt)
  next
    case (Aligned sz align)
    show ?thesis
    proof (cases "sz = 0 \<or> align = 0")
      case False
      define adj where "adj = pool_head m + (if pool_head m AND (align - 1) \<noteq> 0
             then align - (pool_head m AND (align - 1)) else 0)"
      have adj: "unat adj = a"
        unfolding adj_def a_def using assms(1,2) Aligned False by (subst adjusted_head) auto
      have "a < unat (pool_head m) + unat align"
        unfolding a_def using Aligned False by (simp add: round_up_less unat_gt_0)
      then have "a < 2 ^ 63 + 2 ^ 62" using h assms(2) Aligned by simp
      then have "unat (adj + sz) = a + unat sz"
        using assms(2) Aligned adj by (subst unat_plus_small) simp_all
      moreover have "of_nat a = adj" "of_nat (a + unat sz) = adj + sz"
        using adj by (simp_all flip: adj)
      ultimately show ?thesis
        using Aligned False assms(2)
        by (simp add: txvc_mempool_alloc_aligned_def Let_def unat_eq_zero word_le_nat_alt
            flip: adj_def)
    qed (auto simp: Aligned txvc_mempool_alloc_aligned_def)
  qed
qed

lemma pool_alloc_Some:
  assumes wf: "pool_wf m" and ok: "request_ok r" and al: "pool_alloc r m = Ok (Some b, m')"
  shows "pool_wf m' \<and> unat b = round_up (unat (pool_head m)) (request_align r)
    \<and> 0 < request_size r \<and> 0 < request_align r \<and> unat (pool_head m') = unat b + request_size r
    \<and> unat b + request_size r \<le> unat (pool_end m)
    \<and> pool_start m' = pool_start m \<and> pool_end m' = pool_end m
    \<and> fatalOom m' = fatalOom m \<and> release m' = release m"
proof -
  let ?a = "round_up (unat (pool_head m)) (request_align r)"
  from al have c: "request_size r \<noteq> 0" "request_align r \<noteq> 0"
      "?a + request_size r \<le> unat (pool_end m)" "b = of_nat ?a"
      "m' = m\<lparr>pool_head := of_nat (?a + request_size r)\<rparr>"
    by (auto simp: pool_alloc_cases [OF wf ok] split: if_splits)
  moreover have small: "?a + request_size r < 2 ^ 64"
    using c(3) wf by (simp add: pool_wf_def)
  then have "unat (of_nat (?a + request_size r) :: u64) = ?a + request_size r"
      "unat (of_nat ?a :: u64) = ?a"
    by (simp_all only: unat_of_nat) simp_all
  moreover have "unat (pool_start m) \<le> ?a"
    using wf round_up_ge [of "unat (pool_head m)" "request_align r"]
    by (simp add: pool_wf_def word_le_nat_alt)
  ultimately show ?thesis
    using wf by (auto simp: pool_wf_def word_le_nat_alt)
qed

lemma pool_alloc_None:
  "pool_wf m \<Longrightarrow> request_ok r \<Longrightarrow> pool_alloc r m = Ok (None, m') \<Longrightarrow> m' = m"
  by (auto simp: pool_alloc_cases split: if_splits)

text \<open>An allocation of an arena that aborts when it is full, with a bound on the memory it takes.\<close>

definition pool_ok :: "mempool \<Rightarrow> bool" where
  "pool_ok p \<longleftrightarrow> pool_wf p \<and> fatalOom p"

definition same_arena :: "mempool \<Rightarrow> mempool \<Rightarrow> bool" where
  "same_arena p q \<longleftrightarrow> pool_start q = pool_start p \<and> pool_end q = pool_end p"

lemma same_arena_refl [simp]: "same_arena p p"
  by (simp add: same_arena_def)

lemma same_arena_trans: "same_arena p q \<Longrightarrow> same_arena q r \<Longrightarrow> same_arena p r"
  by (simp add: same_arena_def)

lemma pool_alloc_out:
  assumes "pool_ok p" "request_ok r" "0 < request_size r" "0 < request_align r"
    and "strict \<Longrightarrow>
      unat (pool_head p) + request_size r + request_align r \<le> Suc (unat (pool_end p))"
  shows "c_out strict (pool_alloc r p) (\<lambda>(a, q). \<exists>b. a = Some b \<and> pool_ok q \<and> same_arena p q
    \<and> unat (pool_head p) \<le> unat b \<and> unat (pool_head q) = unat b + request_size r
    \<and> unat b < unat (pool_head p) + request_align r)"
proof (cases "pool_alloc r p")
  case (Ok x)
  obtain a q where x: "x = (a, q)" by (cases x)
  have "a \<noteq> None"
    using Ok x assms(1-4) by (auto simp: pool_ok_def pool_alloc_cases split: if_splits)
  then obtain b where b: "a = Some b" by blast
  note al = Ok [unfolded x b]
  from pool_alloc_Some [OF _ assms(2) al] assms(1) have
    "pool_wf q \<and> unat b = round_up (unat (pool_head p)) (request_align r)
     \<and> unat (pool_head q) = unat b + request_size r
     \<and> pool_start q = pool_start p \<and> pool_end q = pool_end p \<and> fatalOom q = fatalOom p"
    by (simp add: pool_ok_def)
  with assms(1) show ?thesis
    using round_up_ge [of "unat (pool_head p)" "request_align r"]
      round_up_less [OF assms(4), of "unat (pool_head p)"]
    by (simp add: Ok x b pool_ok_def same_arena_def)
next
  case (Fault e)
  have "\<not> strict"
  proof
    assume strict
    from assms(5) [OF this] have "round_up (unat (pool_head p)) (request_align r) + request_size r
        \<le> unat (pool_end p)"
      using round_up_less [OF assms(4), of "unat (pool_head p)"] by linarith
    with Fault assms show False by (simp add: pool_ok_def pool_alloc_cases)
  qed
  with Fault assms show ?thesis
    by (auto simp: pool_ok_def pool_alloc_cases split: if_splits)
qed

lemma pool_ok_reclaim: "pool_ok p \<Longrightarrow> pool_ok (txvc_mempool_reclaim_all p)"
  by (auto simp: pool_ok_def pool_wf_def txvc_mempool_reclaim_all_def)

lemma reclaim_arena [simp]:
  "same_arena p (txvc_mempool_reclaim_all p)"
  "pool_head (txvc_mempool_reclaim_all p) = pool_start p"
  by (simp_all add: same_arena_def txvc_mempool_reclaim_all_def)

subsection \<open>The arena interface: blocks handed out are disjoint\<close>

locale bump_arena =
  fixes alloc :: "'r \<Rightarrow> 'p \<Rightarrow> ('a option \<times> 'p) c_res"
    and addr_of :: "'a \<Rightarrow> nat"
    and size_of :: "'r \<Rightarrow> nat"
    and valid :: "'r \<Rightarrow> bool"
    and invar :: "'p \<Rightarrow> bool"
    and cursor :: "'p \<Rightarrow> nat"
    and limit :: "'p \<Rightarrow> nat"
  assumes alloc_some: "invar p \<Longrightarrow> valid r \<Longrightarrow> alloc r p = Ok (Some b, p') \<Longrightarrow>
      invar p' \<and> cursor p \<le> addr_of b \<and> cursor p' = addr_of b + size_of r \<and> limit p' = limit p"
    and alloc_none: "invar p \<Longrightarrow> valid r \<Longrightarrow> alloc r p = Ok (None, p') \<Longrightarrow> p' = p"
    and cursor_limit: "invar p \<Longrightarrow> cursor p \<le> limit p"
begin

lemma run_allocs_layout:
  assumes "run_allocs alloc rs p = Ok (bs, p')" "invar p" "list_all valid rs"
  shows "invar p' \<and> limit p' = limit p \<and> cursor p \<le> cursor p' \<and>
    (\<forall>(b, r) \<in> set bs. cursor p \<le> addr_of b \<and> addr_of b + size_of r \<le> cursor p') \<and>
    sorted_wrt (\<lambda>(b, r) (b', r'). addr_of b + size_of r \<le> addr_of b') bs"
  using assms
proof (induction rs arbitrary: p bs)
  case Nil
  then show ?case by simp
next
  case (Cons r rs)
  then obtain ob p1 bs1 where al: "alloc r p = Ok (ob, p1)"
    and run: "run_allocs alloc rs p1 = Ok (bs1, p')"
    and bs: "bs = (case ob of None \<Rightarrow> bs1 | Some b \<Rightarrow> (b, r) # bs1)"
    by auto
  show ?case
  proof (cases ob)
    case None
    with al Cons.prems alloc_none [of p r p1] have "p1 = p" by simp
    with Cons.IH [OF run] Cons.prems bs None show ?thesis by simp
  next
    case (Some b)
    with al Cons.prems have *: "invar p1 \<and> cursor p \<le> addr_of b \<and>
        cursor p1 = addr_of b + size_of r \<and> limit p1 = limit p"
      using alloc_some [of p r b p1] by simp
    with Cons.IH [OF run] Cons.prems bs Some show ?thesis by fastforce
  qed
qed

lemma run_allocs_disjoint:
  assumes "run_allocs alloc rs p = Ok (bs, p')" "invar p" "list_all valid rs"
    and "i < j" "j < length bs"
  shows "addr_of (fst (bs ! i)) + size_of (snd (bs ! i)) \<le> addr_of (fst (bs ! j))
    \<and> cursor p \<le> addr_of (fst (bs ! i))
    \<and> addr_of (fst (bs ! j)) + size_of (snd (bs ! j)) \<le> limit p"
proof -
  note lay = run_allocs_layout [OF assms(1-3)]
  have "bs ! i \<in> set bs" "bs ! j \<in> set bs" using assms(4,5) by simp_all
  moreover have "sorted_wrt (\<lambda>(b, r) (b', r'). addr_of b + size_of r \<le> addr_of b') bs"
    using lay by blast
  then have "(\<lambda>(b, r) (b', r'). addr_of b + size_of r \<le> addr_of b') (bs ! i) (bs ! j)"
    using assms(4,5) by (rule sorted_wrt_nth_less)
  moreover have "cursor p' \<le> limit p" using lay cursor_limit by metis
  ultimately show ?thesis using lay by (fastforce simp: case_prod_unfold)
qed

end

interpretation arena: bump_arena pool_alloc unat request_size request_ok pool_wf
    "\<lambda>m. unat (pool_head m)" "\<lambda>m. unat (pool_end m)"
proof unfold_locales
  fix m r b m'
  assume "pool_wf m" "request_ok r" "pool_alloc r m = Ok (Some b, m')"
  from pool_alloc_Some [OF this] show "pool_wf m' \<and> unat (pool_head m) \<le> unat b \<and>
      unat (pool_head m') = unat b + request_size r \<and> unat (pool_end m') = unat (pool_end m)"
    using round_up_ge [of "unat (pool_head m)" "request_align r"] by simp
next
  fix m r m'
  assume "pool_wf m" "request_ok r" "pool_alloc r m = Ok (None, m')"
  then show "m' = m" by (rule pool_alloc_None)
qed (simp add: pool_wf_def word_le_nat_alt)

subsection \<open>Properties\<close>

text \<open>C11. Any sequence of sane allocation calls since the arena was empty, none of which aborts,
  hands out pairwise disjoint blocks that all lie inside the arena's block.\<close>
theorem mempool_blocks_disjoint:
  assumes "pool_wf m" "pool_head m = pool_start m" "list_all request_ok rs"
    and "run_allocs pool_alloc rs m = Ok (bs, m')" "i < j" "j < length bs"
  shows "unat (fst (bs ! i)) + request_size (snd (bs ! i)) \<le> unat (fst (bs ! j))
    \<and> pool_start m \<le> fst (bs ! i)
    \<and> unat (fst (bs ! j)) + request_size (snd (bs ! j)) \<le> unat (pool_end m)"
  using arena.run_allocs_disjoint [OF assms(4,1,3,5,6)] assms(2) by (simp add: word_le_nat_alt)

theorem mempool_blocks_disjoint_witness:
  "\<exists>bs m'. run_allocs pool_alloc [Unaligned 5, Aligned 8 8, Unaligned 3]
       \<lparr>pool_start = 4096, pool_end = 4608, pool_head = 4096, fatalOom = True,
        release = Some MallocPoolRelease\<rparr> = Ok (bs, m')
     \<and> length bs = 3 \<and> unat (fst (bs ! 0)) + request_size (snd (bs ! 0)) \<le> unat (fst (bs ! 1))"
proof -
  let ?m = "\<lparr>pool_start = 4096, pool_end = 4608, pool_head = 4096, fatalOom = True,
        release = Some MallocPoolRelease\<rparr> :: mempool"
  let ?bs = "[(4096, Unaligned 5), (4104, Aligned 8 8), (4112, Unaligned 3)] :: (u64 \<times> pool_request) list"
  have run: "run_allocs pool_alloc [Unaligned 5, Aligned 8 8, Unaligned 3] ?m
      = Ok (?bs, ?m\<lparr>pool_head := 4115\<rparr>)"
    by (simp add: txvc_mempool_alloc_unaligned_def txvc_mempool_alloc_aligned_def Let_def)
  have "pool_wf ?m" "list_all request_ok [Unaligned 5, Aligned 8 8, Unaligned 3]"
    by (simp_all add: pool_wf_def)
  from mempool_blocks_disjoint [OF this(1) _ this(2) run, of 0 1] run show ?thesis by force
qed

text \<open>C12. An aligned allocation is exact: it gives the first suitably aligned address at or after
  the head whenever the block starting there fits (so it wastes less than one alignment unit),
  moves the head to the end of the block, and otherwise the process aborts.\<close>
theorem mempool_alloc_aligned_exact:
  assumes "pool_wf m" "fatalOom m" "0 < unat sz" "unat sz < 2 ^ 62"
    and "0 < unat align" "unat align < 2 ^ 62" "align AND (align - 1) = 0"
  defines "a \<equiv> round_up (unat (pool_head m)) (unat align)"
  shows "unat align dvd a \<and> a < unat (pool_head m) + unat align \<and>
    txvc_mempool_alloc_aligned m sz align =
      (if a + unat sz \<le> unat (pool_end m)
       then Ok (Some (of_nat a), m\<lparr>pool_head := of_nat (a + unat sz)\<rparr>)
       else Fault FatalAbort)"
proof -
  have "request_ok (Aligned sz align)" using assms(4,6,7) by simp
  from pool_alloc_cases [OF assms(1) this] assms(2,3,5)
  have "txvc_mempool_alloc_aligned m sz align =
      (if a + unat sz \<le> unat (pool_end m)
       then Ok (Some (of_nat a), m\<lparr>pool_head := of_nat (a + unat sz)\<rparr>)
       else Fault FatalAbort)"
    by (simp only: pool_alloc.simps request_size.simps request_align.simps a_def) simp
  moreover have "unat align dvd a" "a < unat (pool_head m) + unat align"
    using assms(5) by (simp_all only: a_def round_up_dvd round_up_less)
  ultimately show ?thesis by blast
qed

theorem mempool_alloc_aligned_exact_witness:
  "txvc_mempool_alloc_aligned \<lparr>pool_start = 4096, pool_end = 4608, pool_head = 4099,
      fatalOom = True, release = None\<rparr> 24 8
   = Ok (Some 4104, \<lparr>pool_start = 4096, pool_end = 4608, pool_head = 4128,
      fatalOom = True, release = None\<rparr>)"
  using mempool_alloc_aligned_exact [of "\<lparr>pool_start = 4096, pool_end = 4608, pool_head = 4099,
      fatalOom = True, release = None\<rparr>" 24 8]
  by (simp add: pool_wf_def round_up_def)

text \<open>Reclaiming makes the whole arena available again, whatever has been allocated before:
  after it, an allocation of the full size that \<open>txvc_mempool_init\<close> was asked for succeeds and
  starts at the beginning of the block.\<close>
theorem mempool_reclaim_gives_all:
  assumes "txvc_mempool_init malloc sz = Ok m" "malloc sz = Some p"
    and "unat p + unat sz < 2 ^ 63" "0 < unat sz" "unat sz < 2 ^ 62"
    and "list_all request_ok rs" "run_allocs pool_alloc rs m = Ok (bs, m')"
  shows "txvc_mempool_alloc_unaligned (txvc_mempool_reclaim_all m') sz
      = Ok (Some p, (txvc_mempool_reclaim_all m')\<lparr>pool_head := pool_end m'\<rparr>)
    \<and> pool_end m' = p + sz"
proof -
  have m: "m = \<lparr>pool_start = p, pool_end = p + sz, pool_head = p, fatalOom = True,
      release = Some MallocPoolRelease\<rparr>"
    using assms(1,2) by (simp add: txvc_mempool_init_def)
  have pe: "unat (p + sz) = unat p + unat sz" using assms(3) by (intro unat_plus_small) simp
  then have wf: "pool_wf m" using m assms(3) by (simp add: pool_wf_def word_le_nat_alt)
  have frame: "run_allocs pool_alloc rs m = Ok (bs, m') \<Longrightarrow> pool_wf m \<Longrightarrow> list_all request_ok rs \<Longrightarrow>
     pool_wf m' \<and> pool_start m' = pool_start m \<and> pool_end m' = pool_end m" for rs m bs
  proof (induction rs arbitrary: m bs)
    case (Cons r rs)
    then obtain ob m1 bs1 where al: "pool_alloc r m = Ok (ob, m1)"
      and run: "run_allocs pool_alloc rs m1 = Ok (bs1, m')" by auto
    have "pool_wf m1 \<and> pool_start m1 = pool_start m \<and> pool_end m1 = pool_end m"
    proof (cases ob)
      case None
      then show ?thesis using pool_alloc_None al Cons.prems by force
    next
      case (Some b)
      with al Cons.prems show ?thesis using pool_alloc_Some [of m r b m1] by simp
    qed
    with Cons.IH [OF run] Cons.prems show ?case by simp
  qed simp
  from frame [OF assms(7) wf assms(6)] have "pool_start m' = p" "pool_end m' = p + sz"
    using m by simp_all
  then show ?thesis
    using assms(4) by (auto simp: txvc_mempool_alloc_unaligned_def txvc_mempool_reclaim_all_def)
qed

theorem mempool_reclaim_gives_all_witness:
  "\<exists>m m'. txvc_mempool_init (\<lambda>_. Some 4096) 512 = Ok m
     \<and> run_allocs pool_alloc [Unaligned 500] m = Ok ([(4096, Unaligned 500)], m')
     \<and> txvc_mempool_alloc_unaligned (txvc_mempool_reclaim_all m') 512
       = Ok (Some 4096, (txvc_mempool_reclaim_all m')\<lparr>pool_head := pool_end m'\<rparr>)"
proof -
  let ?m = "\<lparr>pool_start = 4096, pool_end = 4608, pool_head = 4096, fatalOom = True,
        release = Some MallocPoolRelease\<rparr> :: mempool"
  have i: "txvc_mempool_init (\<lambda>_. Some 4096) 512 = Ok ?m" by (simp add: txvc_mempool_init_def)
  have r: "run_allocs pool_alloc [Unaligned 500] ?m
      = Ok ([(4096, Unaligned 500)], ?m\<lparr>pool_head := 4596\<rparr>)" by code_simp
  from mempool_reclaim_gives_all [OF i _ _ _ _ _ r, of 4096] i r show ?thesis by auto
qed

text \<open>Deinitialising twice frees the arena's block exactly once.\<close>
theorem mempool_deinit_frees_once:
  assumes "txvc_mempool_init malloc sz = Ok m"
    and "txvc_mempool_deinit m = (m1, fs1)" "txvc_mempool_deinit m1 = (m2, fs2)"
  shows "fs1 @ fs2 = [pool_start m] \<and> Some (pool_start m) = malloc sz \<and> m2 = m1"
  using assms
  by (auto simp: txvc_mempool_init_def txvc_mempool_deinit_def split: option.splits)

theorem mempool_deinit_frees_once_witness:
  "\<exists>m m1. txvc_mempool_init (\<lambda>_. Some 4096) 512 = Ok m \<and> txvc_mempool_deinit m = (m1, [4096])
     \<and> txvc_mempool_deinit m1 = (m1, [])"
proof -
  let ?m = "\<lparr>pool_start = 4096, pool_end = 4608, pool_head = 4096, fatalOom = True,
        release = Some MallocPoolRelease\<rparr> :: mempool"
  have "txvc_mempool_init (\<lambda>_. Some 4096) 512 = Ok ?m" by (simp add: txvc_mempool_init_def)
  moreover have "txvc_mempool_deinit ?m = (?m\<lparr>release := None\<rparr>, [4096])"
    "txvc_mempool_deinit (?m\<lparr>release := None\<rparr>) = (?m\<lparr>release := None\<rparr>, [])"
    by (simp_all add: txvc_mempool_deinit_def)
  ultimately show ?thesis using mempool_deinit_frees_once by blast
qed

text \<open>The bound check itself is not overflow-safe: a size close to \<open>2 ^ 64\<close> wraps the sum
  around, so the request is granted and the head leaves the arena. (No caller in the program
  passes such a size.)\<close>
theorem mempool_huge_size_escapes:
  assumes "pool_wf m" "unat (pool_head m) \<noteq> 0"
  shows "\<exists>m'. txvc_mempool_alloc_unaligned m (- pool_head m) = Ok (Some (pool_head m), m')
    \<and> pool_head m' = 0 \<and> \<not> unat (pool_head m) + unat (- pool_head m) \<le> unat (pool_end m)"
proof -
  have "\<not> unat (pool_head m) + unat (- pool_head m) < 2 ^ 64"
    using unat_plus_small [of "pool_head m" "- pool_head m"] assms(2) by auto
  moreover have "unat (pool_end m) < 2 ^ 63" using assms(1) by (simp add: pool_wf_def)
  ultimately show ?thesis
    using assms(2) by (auto simp: txvc_mempool_alloc_unaligned_def)
qed

theorem mempool_huge_size_escapes_witness:
  "\<exists>m'. txvc_mempool_alloc_unaligned \<lparr>pool_start = 4096, pool_end = 4608, pool_head = 4096,
      fatalOom = True, release = None\<rparr> (- 4096) = Ok (Some 4096, m') \<and> pool_head m' = 0"
  using mempool_huge_size_escapes [of "\<lparr>pool_start = 4096, pool_end = 4608, pool_head = 4096,
      fatalOom = True, release = None\<rparr>"]
  by (simp add: pool_wf_def)



end
