(* ===== verification/Ftdi_Buffer.thy ===== *)
theory Ftdi_Buffer
  imports Byte_Copy Jtag_Splitter Mempool
begin

text \<open>
  \<open>libdrivers/ftdi_generic.c\<close>, the command buffer: bytes queued for the chip, the bytes it is
  expected to answer with, and the observers that copy these to their destinations when the
  buffer is flushed.

  The D2XX library is an argument: a record of its functions on an arbitrary state \<open>'w\<close> of the
  outside world. Arena blocks are lists of bytes of their capacity (their initial content is
  never read), next to the arena's own \<open>mempool\<close> record, which decides when it runs out of
  memory. The linked list of observers is a list. \<open>io\<close> holds what observers reach: the byte
  buffers of the callers (\<open>mem\<close>, partial: a buffer may have been freed) and the extras of the
  bit copiers in the driver's arena, by address, since the driver reclaims that arena on its own.
  All objects of that arena are bit copier extras of 24 octets, so two of them either coincide
  or are disjoint.
\<close>

subsection \<open>The D2XX interface\<close>

datatype ft_status =
    FT_OK | FT_INVALID_HANDLE | FT_DEVICE_NOT_FOUND | FT_DEVICE_NOT_OPENED | FT_IO_ERROR
  | FT_INSUFFICIENT_RESOURCES | FT_INVALID_PARAMETER | FT_INVALID_BAUD_RATE
  | FT_DEVICE_NOT_OPENED_FOR_ERASE | FT_DEVICE_NOT_OPENED_FOR_WRITE | FT_FAILED_TO_WRITE_DEVICE
  | FT_EEPROM_READ_FAILED | FT_EEPROM_WRITE_FAILED | FT_EEPROM_ERASE_FAILED
  | FT_EEPROM_NOT_PRESENT | FT_EEPROM_NOT_PROGRAMMED | FT_INVALID_ARGS | FT_NOT_SUPPORTED
  | FT_OTHER_ERROR | FT_DEVICE_LIST_NOT_READY | FT_status_unknown nat

fun ft_status_name :: "ft_status \<Rightarrow> string" where
  "ft_status_name FT_OK = ''FT_OK''"
| "ft_status_name FT_INVALID_HANDLE = ''FT_INVALID_HANDLE''"
| "ft_status_name FT_DEVICE_NOT_FOUND = ''FT_DEVICE_NOT_FOUND''"
| "ft_status_name FT_DEVICE_NOT_OPENED = ''FT_DEVICE_NOT_OPENED''"
| "ft_status_name FT_IO_ERROR = ''FT_IO_ERROR''"
| "ft_status_name FT_INSUFFICIENT_RESOURCES = ''FT_INSUFFICIENT_RESOURCES''"
| "ft_status_name FT_INVALID_PARAMETER = ''FT_INVALID_PARAMETER''"
| "ft_status_name FT_INVALID_BAUD_RATE = ''FT_INVALID_BAUD_RATE''"
| "ft_status_name FT_DEVICE_NOT_OPENED_FOR_ERASE = ''FT_DEVICE_NOT_OPENED_FOR_ERASE''"
| "ft_status_name FT_DEVICE_NOT_OPENED_FOR_WRITE = ''FT_DEVICE_NOT_OPENED_FOR_WRITE''"
| "ft_status_name FT_FAILED_TO_WRITE_DEVICE = ''FT_FAILED_TO_WRITE_DEVICE''"
| "ft_status_name FT_EEPROM_READ_FAILED = ''FT_EEPROM_READ_FAILED''"
| "ft_status_name FT_EEPROM_WRITE_FAILED = ''FT_EEPROM_WRITE_FAILED''"
| "ft_status_name FT_EEPROM_ERASE_FAILED = ''FT_EEPROM_ERASE_FAILED''"
| "ft_status_name FT_EEPROM_NOT_PRESENT = ''FT_EEPROM_NOT_PRESENT''"
| "ft_status_name FT_EEPROM_NOT_PROGRAMMED = ''FT_EEPROM_NOT_PROGRAMMED''"
| "ft_status_name FT_INVALID_ARGS = ''FT_INVALID_ARGS''"
| "ft_status_name FT_NOT_SUPPORTED = ''FT_NOT_SUPPORTED''"
| "ft_status_name FT_OTHER_ERROR = ''FT_OTHER_ERROR''"
| "ft_status_name FT_DEVICE_LIST_NOT_READY = ''FT_DEVICE_LIST_NOT_READY''"
| "ft_status_name (FT_status_unknown n) = ''???''"

type_synonym ft_handle = u64

record ft_device_node =
  SerialNumber :: string
  Description :: string

text \<open>The functions the driver calls. \<open>FT_Write\<close> reports how many bytes it sent, \<open>FT_Read\<close> the
  bytes it stored to the buffer and the count it reports; \<open>FT_GetDeviceInfoList\<close> the entries it
  stores and their number.\<close>

record 'w d2xx =
  FT_Write :: "ft_handle \<Rightarrow> u8 list \<Rightarrow> 'w \<Rightarrow> ft_status \<times> u32 \<times> 'w"
  FT_Read :: "ft_handle \<Rightarrow> u32 \<Rightarrow> 'w \<Rightarrow> ft_status \<times> u8 list \<times> u32 \<times> 'w"
  FT_GetLibraryVersion :: "'w \<Rightarrow> ft_status \<times> u32 \<times> 'w"
  FT_SetVIDPID :: "u32 \<Rightarrow> u32 \<Rightarrow> 'w \<Rightarrow> ft_status \<times> 'w"
  FT_CreateDeviceInfoList :: "'w \<Rightarrow> ft_status \<times> u32 \<times> 'w"
  FT_GetDeviceInfoList :: "'w \<Rightarrow> ft_status \<times> ft_device_node list \<times> u32 \<times> 'w"
  FT_Open :: "int \<Rightarrow> 'w \<Rightarrow> ft_status \<times> ft_handle \<times> 'w"
  FT_OpenEx :: "string \<Rightarrow> 'w \<Rightarrow> ft_status \<times> ft_handle \<times> 'w"
  FT_Purge :: "ft_handle \<Rightarrow> 'w \<Rightarrow> ft_status \<times> 'w"
  FT_SetChars :: "ft_handle \<Rightarrow> 'w \<Rightarrow> ft_status \<times> 'w"
  FT_SetFlowControl :: "ft_handle \<Rightarrow> 'w \<Rightarrow> ft_status \<times> 'w"
  FT_SetLatencyTimer :: "ft_handle \<Rightarrow> u8 \<Rightarrow> 'w \<Rightarrow> ft_status \<times> 'w"
  FT_SetBitMode :: "ft_handle \<Rightarrow> u8 \<Rightarrow> u8 \<Rightarrow> 'w \<Rightarrow> ft_status \<times> 'w"
  FT_Close :: "ft_handle \<Rightarrow> 'w \<Rightarrow> ft_status \<times> 'w"

subsection \<open>The buffer\<close>

record bit_copier_extra =
  bx_fromBit :: int
  bx_dst :: buf_ref
  bx_toBit :: int
  bx_numBits :: int

text \<open>An observer function with its \<open>extra\<close>: the address of a bit copier's, or the destination
  and the count of a byte copier's.\<close>

datatype rx_observer = Bit_copier u64 | Byte_copier buf_ref int int

record rx_observer_node =
  ob_fn :: rx_observer
  ob_data :: int    \<comment> \<open>offset in the receive block\<close>

record ft_buffer =
  ftChip :: ft_handle
  fb_pool :: mempool
  txBuffer :: "u8 list option"
  txNumBytes :: int
  maxTxBufferBytes :: int
  rxBuffer :: "u8 list option"
  rxNumBytes :: int
  maxRxBufferBytes :: int
  rxObservers :: "rx_observer_node list"

record 'w io =
  mem :: "buf_ref \<Rightarrow> u8 list option"
  bit_extras :: "u64 \<Rightarrow> bit_copier_extra option"
  world :: 'w

definition ft_buffer_init ::
  "(u64 \<Rightarrow> u64 option) \<Rightarrow> ft_handle \<Rightarrow> int \<Rightarrow> ft_buffer c_res" where
  "ft_buffer_init malloc h chipBufferBytes =
     c_bind (txvc_mempool_init malloc (128 * 1024)) (\<lambda>pool.
     c_bind (c_int (3 * chipBufferBytes)) (\<lambda>maxTx.
       Ok \<lparr>ftChip = h, fb_pool = pool, txBuffer = None, txNumBytes = 0,
           maxTxBufferBytes = maxTx, rxBuffer = None, rxNumBytes = 0,
           maxRxBufferBytes = chipBufferBytes, rxObservers = []\<rparr>))"

text \<open>Running the observers on the received block.\<close>

definition bit_copier_rx_observer_fn :: "u8 list \<Rightarrow> u64 \<Rightarrow> 'w io \<Rightarrow> 'w io c_res" where
  "bit_copier_rx_observer_fn rxData extra i =
     (case bit_extras i extra of
        None \<Rightarrow> Fault DeadObject
      | Some e \<Rightarrow>
          (case mem i (bx_dst e) of
             None \<Rightarrow> Fault DeadObject
           | Some dst \<Rightarrow>
               c_bind (copy_bits rxData (bx_fromBit e) dst (bx_toBit e) (bx_numBits e) False)
                 (\<lambda>dst'. Ok (i\<lparr>mem := (mem i)(bx_dst e \<mapsto> dst')\<rparr>))))"

definition byte_copier_rx_observer_fn ::
  "u8 list \<Rightarrow> buf_ref \<Rightarrow> int \<Rightarrow> int \<Rightarrow> 'w io \<Rightarrow> 'w io c_res" where
  "byte_copier_rx_observer_fn rxData r off numBytes i =
     (case mem i r of
        None \<Rightarrow> Fault DeadObject
      | Some dst \<Rightarrow>
          c_bind (c_slice rxData 0 numBytes) (\<lambda>src.
          c_bind (blit dst off src) (\<lambda>dst'. Ok (i\<lparr>mem := (mem i)(r \<mapsto> dst')\<rparr>))))"

fun run_observers :: "u8 list \<Rightarrow> rx_observer_node list \<Rightarrow> 'w io \<Rightarrow> 'w io c_res" where
  "run_observers rx [] i = Ok i"
| "run_observers rx (o' # os) i =
     c_bind (case ob_fn o' of
               Bit_copier a \<Rightarrow> bit_copier_rx_observer_fn (drop (nat (ob_data o')) rx) a i
             | Byte_copier r off n \<Rightarrow>
                 byte_copier_rx_observer_fn (drop (nat (ob_data o')) rx) r off n i)
       (run_observers rx os)"

text \<open>\<open>ft_buffer_flush\<close>: first the half that sends, then the half that receives.\<close>

definition flush_tx ::
  "'w d2xx \<Rightarrow> ft_buffer \<Rightarrow> 'w io \<Rightarrow> (bool \<times> ft_buffer \<times> 'w io) c_res" where
  "flush_tx dx b i =
     (case txBuffer b of
        None \<Rightarrow> Ok (True, b, i)
      | Some tx \<Rightarrow>
          c_bind (c_slice tx 0 (txNumBytes b)) (\<lambda>bytes.
            case FT_Write dx (ftChip b) bytes (world i) of (status, written, w) \<Rightarrow>
              (let i' = i\<lparr>world := w\<rparr> in
               if status \<noteq> FT_OK then Ok (False, b, i')
               else if written \<noteq> word_of_int (txNumBytes b) then Ok (False, b, i')
               else Ok (True, b\<lparr>txBuffer := None, txNumBytes := 0\<rparr>, i'))))"

definition flush_rx ::
  "'w d2xx \<Rightarrow> ft_buffer \<Rightarrow> 'w io \<Rightarrow> (bool \<times> ft_buffer \<times> 'w io) c_res" where
  "flush_rx dx b i =
     (case rxBuffer b of
        None \<Rightarrow> Ok (True, b, i)
      | Some rx \<Rightarrow>
          (case FT_Read dx (ftChip b) (word_of_int (rxNumBytes b)) (world i) of
             (status, bytes, read, w) \<Rightarrow>
               c_bind (blit rx 0 bytes) (\<lambda>rx'.
                 let i' = i\<lparr>world := w\<rparr>; b' = b\<lparr>rxBuffer := Some rx'\<rparr> in
                 if status \<noteq> FT_OK then Ok (False, b', i')
                 else if read \<noteq> word_of_int (rxNumBytes b) then Ok (False, b', i')
                 else c_bind (run_observers rx' (rxObservers b) i') (\<lambda>i''.
                   Ok (True, b\<lparr>rxBuffer := None, rxNumBytes := 0, rxObservers := []\<rparr>, i'')))))"

definition ft_buffer_flush ::
  "'w d2xx \<Rightarrow> ft_buffer \<Rightarrow> 'w io \<Rightarrow> (bool \<times> ft_buffer \<times> 'w io) c_res" where
  "ft_buffer_flush dx b i =
     c_bind (flush_tx dx b i) (\<lambda>(ok, b', i').
       if \<not> ok then Ok (False, b', i')
       else c_bind (flush_rx dx b' i') (\<lambda>(ok, b'', i'').
         if \<not> ok then Ok (False, b'', i'')
         else Ok (True, b''\<lparr>fb_pool := txvc_mempool_reclaim_all (fb_pool b'')\<rparr>, i'')))"

text \<open>Deinitialisation returns the pointers it frees.\<close>

definition ft_buffer_deinit ::
  "'w d2xx \<Rightarrow> ft_buffer \<Rightarrow> 'w io \<Rightarrow> (ft_buffer \<times> 'w io \<times> u64 list) c_res" where
  "ft_buffer_deinit dx b i =
     c_bind (ft_buffer_flush dx b i) (\<lambda>(ok, b', i').
       case txvc_mempool_deinit (fb_pool b') of (p, fs) \<Rightarrow> Ok (b'\<lparr>fb_pool := p\<rparr>, i', fs))"

subsection \<open>Queueing\<close>

definition new_block :: "mempool \<Rightarrow> int \<Rightarrow> (u8 list \<times> mempool) c_res" where
  "new_block p n =
     c_bind (txvc_mempool_alloc_unaligned p (word_of_int n)) (\<lambda>(a, p').
       case a of None \<Rightarrow> Fault NullDeref | Some _ \<Rightarrow> Ok (replicate (nat n) 0, p'))"

definition append_tx :: "ft_buffer \<Rightarrow> u8 list \<Rightarrow> int \<Rightarrow> ft_buffer c_res" where
  "append_tx b txData txN =
     (if 0 < txN then
        c_bind (case txBuffer b of
                  Some tx \<Rightarrow> Ok (tx, fb_pool b)
                | None \<Rightarrow> new_block (fb_pool b) (maxTxBufferBytes b)) (\<lambda>(tx, p).
        c_bind (c_slice txData 0 txN) (\<lambda>src.
        c_bind (blit tx (txNumBytes b) src) (\<lambda>tx'.
        c_bind (c_int (txNumBytes b + txN)) (\<lambda>k.
          Ok (b\<lparr>fb_pool := p, txBuffer := Some tx', txNumBytes := k\<rparr>)))))
      else Ok b)"

definition append_rx :: "ft_buffer \<Rightarrow> rx_observer option \<Rightarrow> int \<Rightarrow> ft_buffer c_res" where
  "append_rx b observer rxN =
     (if 0 < rxN then
        c_bind (case rxBuffer b of
                  Some rx \<Rightarrow> Ok (rx, fb_pool b)
                | None \<Rightarrow> new_block (fb_pool b) (maxRxBufferBytes b)) (\<lambda>(rx, p).
        c_bind (case observer of
                  None \<Rightarrow> Ok (p, rxObservers b)
                | Some fn \<Rightarrow>
                    c_bind (txvc_mempool_alloc_aligned p 32 8) (\<lambda>(a, p').
                      case a of
                        None \<Rightarrow> Fault NullDeref
                      | Some _ \<Rightarrow> Ok (p', rxObservers b @ [\<lparr>ob_fn = fn, ob_data = rxNumBytes b\<rparr>])))
          (\<lambda>(p', os).
        c_bind (c_int (rxNumBytes b + rxN)) (\<lambda>k.
          Ok (b\<lparr>fb_pool := p', rxBuffer := Some rx, rxObservers := os, rxNumBytes := k\<rparr>))))
      else Ok b)"

definition ft_buffer_append ::
  "ft_buffer \<Rightarrow> u8 list \<Rightarrow> int \<Rightarrow> rx_observer option \<Rightarrow> int \<Rightarrow> (bool \<times> ft_buffer) c_res" where
  "ft_buffer_append b txData txN observer rxN =
     c_bind (append_tx b txData txN) (\<lambda>b'.
     c_bind (append_rx b' observer rxN) (\<lambda>b''. Ok (True, b'')))"

definition ft_buffer_ensure_can_append ::
  "'w d2xx \<Rightarrow> ft_buffer \<Rightarrow> 'w io \<Rightarrow> int \<Rightarrow> int \<Rightarrow> (bool \<times> ft_buffer \<times> 'w io) c_res" where
  "ft_buffer_ensure_can_append dx b i txN rxN =
     c_bind (c_assert (txN \<le> maxRxBufferBytes b \<and> rxN \<le> maxRxBufferBytes b)) (\<lambda>_.
     c_bind (c_int (txNumBytes b + txN)) (\<lambda>t.
     c_bind (if t > maxTxBufferBytes b then Ok True
             else c_bind (c_int (rxNumBytes b + rxN)) (\<lambda>r. Ok (r > maxRxBufferBytes b)))
       (\<lambda>shouldFlush.
         if shouldFlush then ft_buffer_flush dx b i else Ok (True, b, i))))"

definition ft_buffer_add_write_to_chip_with_readback ::
  "'w d2xx \<Rightarrow> ft_buffer \<Rightarrow> 'w io \<Rightarrow> u8 list \<Rightarrow> int \<Rightarrow> rx_observer option \<Rightarrow> int \<Rightarrow>
   (bool \<times> ft_buffer \<times> 'w io) c_res" where
  "ft_buffer_add_write_to_chip_with_readback dx b i txData txN observer rxN =
     c_bind (ft_buffer_ensure_can_append dx b i txN rxN) (\<lambda>(ok, b', i').
       if \<not> ok then Ok (False, b', i')
       else c_bind (ft_buffer_append b' txData txN observer rxN) (\<lambda>(ok, b'').
         Ok (ok, b'', i')))"

definition ft_buffer_add_write_to_chip ::
  "'w d2xx \<Rightarrow> ft_buffer \<Rightarrow> 'w io \<Rightarrow> u8 list \<Rightarrow> int \<Rightarrow> (bool \<times> ft_buffer \<times> 'w io) c_res" where
  "ft_buffer_add_write_to_chip dx b i txData txN =
     ft_buffer_add_write_to_chip_with_readback dx b i txData txN None 0"

definition ft_buffer_add_write_to_chip_with_readback_simple ::
  "'w d2xx \<Rightarrow> ft_buffer \<Rightarrow> 'w io \<Rightarrow> u8 list \<Rightarrow> int \<Rightarrow> buf_ref \<Rightarrow> int \<Rightarrow> int \<Rightarrow>
   (bool \<times> ft_buffer \<times> 'w io) c_res" where
  "ft_buffer_add_write_to_chip_with_readback_simple dx b i txData txN rxRef rxOff rxN =
     c_bind (ft_buffer_ensure_can_append dx b i txN rxN) (\<lambda>(ok, b', i').
       if \<not> ok then Ok (False, b', i')
       else c_bind (txvc_mempool_alloc_aligned (fb_pool b') 16 8) (\<lambda>(a, p).
         case a of
           None \<Rightarrow> Fault NullDeref
         | Some _ \<Rightarrow>
             c_bind (ft_buffer_append (b'\<lparr>fb_pool := p\<rparr>) txData txN
                       (Some (Byte_copier rxRef rxOff rxN)) rxN) (\<lambda>(ok, b'').
               Ok (ok, b'', i'))))"

subsection \<open>What observers do\<close>

definition mem_size :: "(buf_ref \<Rightarrow> u8 list option) \<Rightarrow> buf_ref \<Rightarrow> nat" where
  "mem_size m r = (case m r of None \<Rightarrow> 0 | Some v \<Rightarrow> length v)"

definition put_bits :: "buf_ref \<times> nat \<times> bool list \<Rightarrow> (buf_ref \<Rightarrow> u8 list option) \<Rightarrow>
    (buf_ref \<Rightarrow> u8 list option)" where
  "put_bits x m = (case x of (r, t, bs) \<Rightarrow> m(r := map_option (\<lambda>v. write_bits v t bs) (m r)))"

lemma mem_size_put_bits [simp]: "mem_size (put_bits x m) = mem_size m"
  by (auto simp: put_bits_def mem_size_def fun_eq_iff split: prod.splits option.splits)

text \<open>The destination of an observer and the received bits it puts there.\<close>

definition node_bits ::
  "(u64 \<Rightarrow> bit_copier_extra option) \<Rightarrow> u8 list \<Rightarrow> rx_observer_node \<Rightarrow> buf_ref \<times> nat \<times> bool list"
where
  "node_bits ex rx o' = (let k = 8 * nat (ob_data o') in
     case ob_fn o' of
       Bit_copier a \<Rightarrow> let e = the (ex a) in
         (bx_dst e, nat (bx_toBit e),
          vbits rx (k + nat (bx_fromBit e)) (k + nat (bx_fromBit e) + nat (bx_numBits e)))
     | Byte_copier r off n \<Rightarrow> (r, 8 * nat off, vbits rx k (k + 8 * nat n)))"

definition deliver ::
  "(u64 \<Rightarrow> bit_copier_extra option) \<Rightarrow> u8 list \<Rightarrow> rx_observer_node list \<Rightarrow>
   (buf_ref \<Rightarrow> u8 list option) \<Rightarrow> (buf_ref \<Rightarrow> u8 list option)" where
  "deliver ex rx os m = fold (\<lambda>o'. put_bits (node_bits ex rx o')) os m"

lemma mem_size_deliver [simp]: "mem_size (deliver ex rx os m) = mem_size m"
  by (induction os arbitrary: m) (simp_all add: deliver_def)

lemma deliver_append: "deliver ex rx (os @ os') m = deliver ex rx os' (deliver ex rx os m)"
  by (simp add: deliver_def)

text \<open>An observer that stays inside the received bytes and its destination.\<close>

definition extra_ok :: "(buf_ref \<Rightarrow> nat) \<Rightarrow> bit_copier_extra \<Rightarrow> bool" where
  "extra_ok sz e \<longleftrightarrow> 0 \<le> bx_fromBit e \<and> 0 < bx_numBits e \<and> bx_fromBit e + bx_numBits e \<le> 8
     \<and> 0 \<le> bx_toBit e \<and> bx_toBit e + bx_numBits e \<le> 8 * int (sz (bx_dst e))"

fun fn_ok ::
  "(u64 \<Rightarrow> bit_copier_extra option) \<Rightarrow> (buf_ref \<Rightarrow> nat) \<Rightarrow> int \<Rightarrow> rx_observer \<Rightarrow> bool" where
  "fn_ok ex sz avail (Bit_copier a) \<longleftrightarrow> 1 \<le> avail \<and> (\<exists>e. ex a = Some e \<and> extra_ok sz e)"
| "fn_ok ex sz avail (Byte_copier r off n) \<longleftrightarrow>
     0 \<le> off \<and> 0 < n \<and> n \<le> avail \<and> off + n \<le> int (sz r)"

definition node_ok ::
  "(u64 \<Rightarrow> bit_copier_extra option) \<Rightarrow> (buf_ref \<Rightarrow> nat) \<Rightarrow> int \<Rightarrow> rx_observer_node \<Rightarrow> bool" where
  "node_ok ex sz n o' \<longleftrightarrow> 0 \<le> ob_data o' \<and> fn_ok ex sz (n - ob_data o') (ob_fn o')"

lemma fn_ok_mono: "fn_ok ex sz k f \<Longrightarrow> k \<le> l \<Longrightarrow> fn_ok ex sz l f"
  by (cases f) auto

lemma node_ok_mono: "node_ok ex sz n o' \<Longrightarrow> n \<le> k \<Longrightarrow> node_ok ex sz k o'"
  by (auto simp: node_ok_def intro: fn_ok_mono)

lemma node_bits_append:
  assumes "node_ok ex sz (int (length rx)) o'"
  shows "node_bits ex (rx @ rx') o' = node_bits ex rx o'"
proof (cases "ob_fn o'")
  case (Bit_copier a)
  with assms obtain e where "ex a = Some e" "extra_ok sz e" "0 \<le> ob_data o'"
    "1 \<le> int (length rx) - ob_data o'"
    by (auto simp: node_ok_def)
  with Bit_copier show ?thesis
    by (auto simp: node_bits_def extra_ok_def Let_def intro!: vbits_append1)
next
  case (Byte_copier r off n)
  with assms show ?thesis
    by (auto simp: node_bits_def node_ok_def Let_def intro!: vbits_append1)
qed

lemma deliver_more:
  assumes "list_all (node_ok ex sz (int (length rx))) os"
  shows "deliver ex (rx @ rx') os m = deliver ex rx os m"
  using assms by (induction os arbitrary: m) (auto simp: deliver_def node_bits_append)

lemma put_bits_single: "m r = Some v \<Longrightarrow> put_bits (r, t, bs) m = m(r \<mapsto> write_bits v t bs)"
  by (simp add: put_bits_def)

lemma run_observer_ok:
  assumes ok: "node_ok (bit_extras i) (mem_size (mem i)) (int (length rx)) o'"
  shows "(case ob_fn o' of
            Bit_copier a \<Rightarrow> bit_copier_rx_observer_fn (drop (nat (ob_data o')) rx) a i
          | Byte_copier r off n \<Rightarrow>
              byte_copier_rx_observer_fn (drop (nat (ob_data o')) rx) r off n i)
     = Ok (i\<lparr>mem := put_bits (node_bits (bit_extras i) rx o') (mem i)\<rparr>)"
proof -
  obtain k where k: "ob_data o' = int k" "k \<le> length rx"
    using ok by (cases "ob_fn o'") (auto simp: node_ok_def intro: that [of "nat (ob_data o')"])
  show ?thesis
  proof (cases "ob_fn o'")
    case (Bit_copier a)
    with ok obtain e where e: "bit_extras i a = Some e" "extra_ok (mem_size (mem i)) e"
      and k1: "k < length rx" by (auto simp: node_ok_def k)
    obtain f n t where fnt: "bx_fromBit e = int f" "bx_numBits e = int n" "bx_toBit e = int t"
      using e(2) by (metis extra_ok_def nonneg_int_cases order_less_imp_le)
    have n: "0 < n" "f + n \<le> 8" "t + n \<le> 8 * mem_size (mem i) (bx_dst e)"
      using e(2) by (auto simp: extra_ok_def fnt)
    then obtain v where v: "mem i (bx_dst e) = Some v" "mem_size (mem i) (bx_dst e) = length v"
      by (auto simp: mem_size_def split: option.splits)
    have "vbits (drop k rx) f (f + n) = vbits rx (8 * k + f) (8 * k + f + n)"
      using n k1 vbits_drop [of k "length rx - k" rx "f + n" f] by (simp add: add.assoc)
    then show ?thesis
      using n k1 v copy_bits_ok [of f n "drop k rx" t v]
      by (simp add: Bit_copier bit_copier_rx_observer_fn_def e(1) fnt k node_bits_def
          put_bits_single Let_def)
  next
    case (Byte_copier r off n)
    with ok obtain f l where fl: "off = int f" "n = int l" "0 < l" "k + l \<le> length rx"
      "f + l \<le> mem_size (mem i) r"
      by (auto simp: node_ok_def k elim!: nonneg_int_cases)
         (metis nonneg_int_cases of_nat_0_less_iff of_nat_add of_nat_le_iff order_less_imp_le)
    then obtain v where v: "mem i r = Some v" "mem_size (mem i) r = length v"
      by (auto simp: mem_size_def split: option.splits)
    have "vbits (take l (drop k rx)) 0 (8 * l) = vbits rx (8 * k) (8 * k + 8 * l)"
      using fl vbits_drop [of k "length rx - k" rx "8 * l" 0] by (simp add: vbits_take)
    moreover have "length (take l (drop k rx)) = l" using fl by simp
    ultimately have "overlay v f (take l (drop k rx))
        = write_bits v (8 * f) (vbits rx (8 * k) (8 * k + 8 * l))"
      using overlay_bits [of f "take l (drop k rx)" v] fl v by simp
    then show ?thesis
      using fl v c_slice_0 [of l "drop k rx"] blit_ok [of f "take l (drop k rx)" v]
      by (simp add: Byte_copier byte_copier_rx_observer_fn_def k node_bits_def Let_def
          put_bits_single)
  qed
qed

lemma run_observers_ok:
  "list_all (node_ok (bit_extras i) (mem_size (mem i)) (int (length rx))) os \<Longrightarrow>
   run_observers rx os i = Ok (i\<lparr>mem := deliver (bit_extras i) rx os (mem i)\<rparr>)"
proof (induction os arbitrary: i)
  case (Cons o' os)
  then show ?case
    by (simp add: run_observer_ok Cons.IH deliver_def)
qed (simp add: deliver_def)

subsection \<open>The buffer's invariant\<close>

text \<open>\<open>ex\<close> are the extras and \<open>sz\<close> the sizes of the buffers that observers may refer to.\<close>

definition buf_inv ::
  "(u64 \<Rightarrow> bit_copier_extra option) \<Rightarrow> (buf_ref \<Rightarrow> nat) \<Rightarrow> ft_buffer \<Rightarrow> bool" where
  "buf_inv ex sz b \<longleftrightarrow> pool_ok (fb_pool b)
     \<and> 3 \<le> maxRxBufferBytes b \<and> maxRxBufferBytes b \<le> 65536
     \<and> maxTxBufferBytes b = 3 * maxRxBufferBytes b
     \<and> 0 \<le> txNumBytes b \<and> txNumBytes b \<le> maxTxBufferBytes b
     \<and> 0 \<le> rxNumBytes b \<and> rxNumBytes b \<le> maxRxBufferBytes b
     \<and> (case txBuffer b of None \<Rightarrow> txNumBytes b = 0
        | Some tx \<Rightarrow> length tx = nat (maxTxBufferBytes b))
     \<and> (case rxBuffer b of None \<Rightarrow> rxNumBytes b = 0 \<and> rxObservers b = []
        | Some rx \<Rightarrow> length rx = nat (maxRxBufferBytes b))
     \<and> list_all (node_ok ex sz (rxNumBytes b)) (rxObservers b)"

lemma buf_inv_pool: "buf_inv ex sz b \<Longrightarrow> pool_ok p \<Longrightarrow> buf_inv ex sz (b\<lparr>fb_pool := p\<rparr>)"
  by (auto simp: buf_inv_def split: option.splits)

text \<open>The bytes queued for the chip; the part of the arena that is in use once both blocks are
  allocated; what never changes.\<close>

definition pend_tx :: "ft_buffer \<Rightarrow> u8 list" where
  "pend_tx b = (case txBuffer b of None \<Rightarrow> [] | Some tx \<Rightarrow> take (nat (txNumBytes b)) tx)"

definition fb_need :: "ft_buffer \<Rightarrow> nat" where
  "fb_need b = unat (pool_head (fb_pool b))
     + (if txBuffer b = None then nat (maxTxBufferBytes b) else 0)
     + (if rxBuffer b = None then nat (maxRxBufferBytes b) else 0)"

definition fb_end :: "ft_buffer \<Rightarrow> nat" where
  "fb_end b = unat (pool_end (fb_pool b))"

definition same_cfg :: "ft_buffer \<Rightarrow> ft_buffer \<Rightarrow> bool" where
  "same_cfg b b' \<longleftrightarrow> same_arena (fb_pool b) (fb_pool b') \<and> ftChip b' = ftChip b
     \<and> maxTxBufferBytes b' = maxTxBufferBytes b \<and> maxRxBufferBytes b' = maxRxBufferBytes b"

lemma same_cfg_refl [simp]: "same_cfg b b"
  by (simp add: same_cfg_def)

lemma same_cfg_trans: "same_cfg a b \<Longrightarrow> same_cfg b c \<Longrightarrow> same_cfg a c"
  by (auto simp: same_cfg_def dest: same_arena_trans)

lemma fb_end_same: "same_cfg b b' \<Longrightarrow> fb_end b' = fb_end b"
  by (simp add: same_cfg_def same_arena_def fb_end_def)

lemma unat_of_small: "0 \<le> n \<Longrightarrow> n < 2 ^ 62 \<Longrightarrow> unat (word_of_int n :: u64) = nat n"
  by (simp add: unat_eq_nat_uint uint_word_of_int_eq take_bit_int_eq_self)

lemma new_block_out:
  assumes "pool_ok p" "0 < n" "n < 2 ^ 62"
    and "strict \<Longrightarrow> unat (pool_head p) + nat n \<le> unat (pool_end p)"
  shows "c_out strict (new_block p n) (\<lambda>(tx, q). tx = replicate (nat n) 0 \<and> pool_ok q
    \<and> same_arena p q \<and> unat (pool_head q) = unat (pool_head p) + nat n)"
proof -
  have sz: "unat (word_of_int n :: u64) = nat n" using assms(2,3) by (intro unat_of_small) simp_all
  have "c_out strict (pool_alloc (Unaligned (word_of_int n)) p) (\<lambda>(a, q). \<exists>b. a = Some b \<and> pool_ok q
    \<and> same_arena p q \<and> unat (pool_head p) \<le> unat b
    \<and> unat (pool_head q) = unat b + request_size (Unaligned (word_of_int n))
    \<and> unat b < unat (pool_head p) + request_align (Unaligned (word_of_int n)))"
    using assms sz by (intro pool_alloc_out) auto
  from this [unfolded pool_alloc.simps] show ?thesis
    unfolding new_block_def by (rule c_out_bindI) (auto simp: sz)
qed

lemma small_object_out:
  assumes "pool_ok p" "sz = 16 \<or> sz = 24 \<or> sz = 32"
    and "strict \<Longrightarrow> unat (pool_head p) + unat sz + 8 \<le> Suc (unat (pool_end p))"
  shows "c_out strict (txvc_mempool_alloc_aligned p sz 8) (\<lambda>(a, q). \<exists>b. a = Some b \<and> pool_ok q
    \<and> same_arena p q \<and> unat (pool_head p) \<le> unat b \<and> unat (pool_head q) = unat b + unat sz
    \<and> unat b < unat (pool_head p) + 8)"
proof -
  have "c_out strict (pool_alloc (Aligned sz 8) p) (\<lambda>(a, q). \<exists>b. a = Some b \<and> pool_ok q
    \<and> same_arena p q \<and> unat (pool_head p) \<le> unat b
    \<and> unat (pool_head q) = unat b + request_size (Aligned sz 8)
    \<and> unat b < unat (pool_head p) + request_align (Aligned sz 8))"
    using assms by (intro pool_alloc_out) auto
  then show ?thesis by simp
qed

lemma take_overlay:
  "k + length src \<le> length dst \<Longrightarrow> take (k + length src) (overlay dst k src) = take k dst @ src"
  by (simp add: overlay_def)

lemma append_tx_out:
  assumes inv: "buf_inv ex sz b" and n: "0 \<le> n" "nat n \<le> length data"
    and fits: "txNumBytes b + n \<le> maxTxBufferBytes b"
    and room: "strict \<Longrightarrow> fb_need b \<le> fb_end b"
  shows "c_out strict (append_tx b data n) (\<lambda>b'. buf_inv ex sz b' \<and> same_cfg b b'
    \<and> pend_tx b' = pend_tx b @ take (nat n) data \<and> txNumBytes b' = txNumBytes b + n
    \<and> rxBuffer b' = rxBuffer b \<and> rxNumBytes b' = rxNumBytes b \<and> rxObservers b' = rxObservers b
    \<and> fb_need b' \<le> fb_need b)"
proof (cases "0 < n")
  case False
  then show ?thesis using inv n by (auto simp: append_tx_def)
next
  case True
  have blk: "c_out strict (case txBuffer b of Some tx \<Rightarrow> Ok (tx, fb_pool b)
      | None \<Rightarrow> new_block (fb_pool b) (maxTxBufferBytes b)) (\<lambda>(tx, p).
        length tx = nat (maxTxBufferBytes b) \<and> pool_ok p \<and> same_arena (fb_pool b) p
        \<and> take (nat (txNumBytes b)) tx = pend_tx b
        \<and> unat (pool_head p) = unat (pool_head (fb_pool b))
            + (if txBuffer b = None then nat (maxTxBufferBytes b) else 0))"
  proof (cases "txBuffer b")
    case None
    with inv room have "c_out strict (new_block (fb_pool b) (maxTxBufferBytes b)) (\<lambda>(tx, q).
        tx = replicate (nat (maxTxBufferBytes b)) 0 \<and> pool_ok q \<and> same_arena (fb_pool b) q
        \<and> unat (pool_head q) = unat (pool_head (fb_pool b)) + nat (maxTxBufferBytes b))"
      by (intro new_block_out) (auto simp: buf_inv_def fb_need_def fb_end_def)
    with None inv show ?thesis
      by (auto simp: buf_inv_def pend_tx_def elim!: c_out_mono)
  next
    case (Some tx)
    with inv show ?thesis by (simp add: buf_inv_def pend_tx_def)
  qed
  obtain k where k: "txNumBytes b = int k" using inv by (metis buf_inv_def nonneg_int_cases)
  obtain l where l: "n = int l" using n(1) by (metis nonneg_int_cases)
  have len: "length (take l data) = l" using n(2) l by simp
  show ?thesis
    unfolding append_tx_def using True
  proof (simp, intro c_out_bindI [OF blk], clarify)
    fix tx p
    assume tx: "length tx = nat (maxTxBufferBytes b)" "take (nat (txNumBytes b)) tx = pend_tx b"
      and p: "pool_ok p" "same_arena (fb_pool b) p"
        "unat (pool_head p) = unat (pool_head (fb_pool b))
            + (if txBuffer b = None then nat (maxTxBufferBytes b) else 0)"
    have kl: "k + length (take l data) \<le> length tx"
      using fits tx(1) by (simp only: len) (simp add: k l)
    have "c_slice data 0 n = Ok (take l data)" using n(2) l by (simp add: c_slice_0)
    moreover have "blit tx (txNumBytes b) (take l data) = Ok (overlay tx k (take l data))"
      unfolding k using kl by (rule blit_ok)
    moreover have "c_int (txNumBytes b + n) = Ok (txNumBytes b + n)"
      using inv n fits by (intro c_int_in) (auto simp: buf_inv_def)
    moreover have "take (k + l) (overlay tx k (take l data)) = pend_tx b @ take l data"
      using take_overlay [OF kl, unfolded len] tx(2) [unfolded k] by simp
    ultimately show "c_out strict
        (c_bind (c_slice data 0 n) (\<lambda>src. c_bind (blit tx (txNumBytes b) src)
          (\<lambda>tx'. c_bind (c_int (txNumBytes b + n)) (\<lambda>k. Ok (b\<lparr>fb_pool := p,
            txBuffer := Some tx', txNumBytes := k\<rparr>)))))
        (\<lambda>b'. buf_inv ex sz b' \<and> same_cfg b b'
          \<and> pend_tx b' = pend_tx b @ take (nat n) data \<and> txNumBytes b' = txNumBytes b + n
          \<and> rxBuffer b' = rxBuffer b \<and> rxNumBytes b' = rxNumBytes b
          \<and> rxObservers b' = rxObservers b \<and> fb_need b' \<le> fb_need b)"
      using inv p kl fits tx(1) len
      by (auto simp: buf_inv_def same_cfg_def pend_tx_def fb_need_def k l nat_add_distrib
          split: option.splits)
  qed
qed

definition new_node :: "rx_observer option \<Rightarrow> int \<Rightarrow> int \<Rightarrow> rx_observer_node list" where
  "new_node observer data n = (if 0 < n then
     (case observer of None \<Rightarrow> [] | Some fn \<Rightarrow> [\<lparr>ob_fn = fn, ob_data = data\<rparr>]) else [])"

lemma append_rx_out:
  assumes inv: "buf_inv ex sz b" and n: "0 \<le> n" "rxNumBytes b + n \<le> maxRxBufferBytes b"
    and fn: "\<And>fn. 0 < n \<Longrightarrow> observer = Some fn \<Longrightarrow> fn_ok ex sz n fn"
    and room: "strict \<Longrightarrow> 0 < n \<Longrightarrow> fb_need b + 39 \<le> fb_end b"
  shows "c_out strict (append_rx b observer n) (\<lambda>b'. buf_inv ex sz b' \<and> same_cfg b b'
    \<and> pend_tx b' = pend_tx b \<and> txNumBytes b' = txNumBytes b
    \<and> rxNumBytes b' = rxNumBytes b + n
    \<and> rxObservers b' = rxObservers b @ new_node observer (rxNumBytes b) n
    \<and> fb_need b' \<le> fb_need b + (if 0 < n then 39 else 0))"
proof (cases "0 < n")
  case False
  then show ?thesis using inv n by (auto simp: append_rx_def new_node_def)
next
  case True
  let ?Q = "\<lambda>(rx, p). length rx = nat (maxRxBufferBytes b) \<and> pool_ok p \<and> same_arena (fb_pool b) p
        \<and> unat (pool_head p) = unat (pool_head (fb_pool b))
            + (if rxBuffer b = None then nat (maxRxBufferBytes b) else 0)"
  have blk: "c_out strict (case rxBuffer b of Some rx \<Rightarrow> Ok (rx, fb_pool b)
      | None \<Rightarrow> new_block (fb_pool b) (maxRxBufferBytes b)) ?Q"
  proof (cases "rxBuffer b")
    case None
    with inv room True have "c_out strict (new_block (fb_pool b) (maxRxBufferBytes b)) (\<lambda>(tx, q).
        tx = replicate (nat (maxRxBufferBytes b)) 0 \<and> pool_ok q \<and> same_arena (fb_pool b) q
        \<and> unat (pool_head q) = unat (pool_head (fb_pool b)) + nat (maxRxBufferBytes b))"
      by (intro new_block_out) (auto simp: buf_inv_def fb_need_def fb_end_def)
    with None inv show ?thesis
      by (auto simp: buf_inv_def elim!: c_out_mono)
  next
    case (Some rx)
    with inv show ?thesis by (simp add: buf_inv_def)
  qed
  have node: "c_out strict (case observer of
          None \<Rightarrow> Ok (p, rxObservers b)
        | Some fn \<Rightarrow> c_bind (txvc_mempool_alloc_aligned p 32 8) (\<lambda>(a, p').
              case a of None \<Rightarrow> Fault NullDeref
              | Some _ \<Rightarrow> Ok (p', rxObservers b @ [\<lparr>ob_fn = fn, ob_data = rxNumBytes b\<rparr>])))
      (\<lambda>(q, os). pool_ok q \<and> same_arena p q
         \<and> os = rxObservers b @ new_node observer (rxNumBytes b) n
         \<and> unat (pool_head q) \<le> unat (pool_head p) + 39)"
    if "?Q (rx, p)" for rx p
  proof (cases observer)
    case None
    with that True show ?thesis by (simp add: new_node_def)
  next
    case (Some fn)
    have "c_out strict (txvc_mempool_alloc_aligned p 32 8) (\<lambda>(a, q). \<exists>b. a = Some b \<and> pool_ok q
      \<and> same_arena p q \<and> unat (pool_head p) \<le> unat b \<and> unat (pool_head q) = unat b + unat (32 :: u64)
      \<and> unat b < unat (pool_head p) + 8)"
      using that room True by (intro small_object_out) (auto simp: fb_need_def fb_end_def same_arena_def)
    with Some True show ?thesis
      by (auto simp: new_node_def elim!: c_out_bindI)
  qed
  have nodes: "list_all (node_ok ex sz (rxNumBytes b + n))
      (rxObservers b @ new_node observer (rxNumBytes b) n)"
  proof -
    have "list_all (node_ok ex sz (rxNumBytes b + n)) (rxObservers b)"
      using inv n(1) by (auto simp: buf_inv_def list_all_iff intro: node_ok_mono)
    moreover have "list_all (node_ok ex sz (rxNumBytes b + n)) (new_node observer (rxNumBytes b) n)"
      using fn True inv by (auto simp: new_node_def node_ok_def buf_inv_def split: option.splits)
    ultimately show ?thesis by simp
  qed
  have ci: "c_int (rxNumBytes b + n) = Ok (rxNumBytes b + n)"
    using inv n by (intro c_int_in) (auto simp: buf_inv_def)
  show ?thesis
    unfolding append_rx_def using True
  proof (simp, intro c_out_bindI [OF blk], clarify, intro c_out_bindI [OF node], blast, clarify)
    fix rx :: "u8 list" and p q os
    assume "length rx = nat (maxRxBufferBytes b)" "pool_ok q" "same_arena (fb_pool b) p"
      "same_arena p q" "unat (pool_head q) \<le> unat (pool_head p) + 39"
      "unat (pool_head p) = unat (pool_head (fb_pool b))
            + (if rxBuffer b = None then nat (maxRxBufferBytes b) else 0)"
    then show "c_out strict
        (c_bind (c_int (rxNumBytes b + n)) (\<lambda>k. Ok (b\<lparr>fb_pool := q, rxBuffer := Some rx,
          rxObservers := rxObservers b @ new_node observer (rxNumBytes b) n, rxNumBytes := k\<rparr>)))
        (\<lambda>b'. buf_inv ex sz b' \<and> same_cfg b b'
          \<and> pend_tx b' = pend_tx b \<and> txNumBytes b' = txNumBytes b
          \<and> rxNumBytes b' = rxNumBytes b + n
          \<and> rxObservers b' = rxObservers b @ new_node observer (rxNumBytes b) n
          \<and> fb_need b' \<le> fb_need b + 39)"
      using inv n nodes
      by (auto simp: ci buf_inv_def same_cfg_def pend_tx_def fb_need_def dest: same_arena_trans)
  qed
qed

subsection \<open>Flushing and queueing keep the invariant\<close>

text \<open>The documented bound of \<open>FT_Read\<close>: it stores at most as many bytes as it is asked for.\<close>

definition d2xx_ok :: "'w d2xx \<Rightarrow> bool" where
  "d2xx_ok dx \<longleftrightarrow> (\<forall>h n w. length (fst (snd (FT_Read dx h n w))) \<le> unat n)"

definition io_same :: "'w io \<Rightarrow> 'w io \<Rightarrow> bool" where
  "io_same i i' \<longleftrightarrow> bit_extras i' = bit_extras i \<and> mem_size (mem i') = mem_size (mem i)"

lemma io_same_refl [simp]: "io_same i i"
  by (simp add: io_same_def)

lemma io_same_trans: "io_same i j \<Longrightarrow> io_same j k \<Longrightarrow> io_same i k"
  by (simp add: io_same_def)

text \<open>Room for \<open>k\<close> more commands with read back, whether or not the buffer is flushed before.\<close>

definition roomy :: "nat \<Rightarrow> ft_buffer \<Rightarrow> bool" where
  "roomy k b \<longleftrightarrow>
     unat (pool_start (fb_pool b)) + nat (maxTxBufferBytes b) + nat (maxRxBufferBytes b) + 64 * k
       \<le> fb_end b
     \<and> fb_need b + 64 * k \<le> fb_end b"

lemma roomy_mono: "roomy k b \<Longrightarrow> l \<le> k \<Longrightarrow> roomy l b"
  by (simp add: roomy_def)

lemma flush_tx_out:
  assumes "buf_inv ex sz b"
  shows "c_out strict (flush_tx dx b i) (\<lambda>(ok, b', i'). buf_inv ex sz b' \<and> same_cfg b b'
    \<and> bit_extras i' = bit_extras i \<and> mem i' = mem i \<and> (ok \<longrightarrow> txBuffer b' = None))"
proof (cases "txBuffer b")
  case None
  then show ?thesis using assms by (simp add: flush_tx_def)
next
  case (Some tx)
  obtain st wr w where W: "FT_Write dx (ftChip b) (take (nat (txNumBytes b)) tx) (world i) = (st, wr, w)"
    by (metis prod_cases3)
  have "c_slice tx 0 (txNumBytes b) = Ok (take (nat (txNumBytes b)) tx)"
    using assms Some by (simp add: buf_inv_def c_slice_def)
  then show ?thesis
    using assms Some W
    by (auto simp: flush_tx_def Let_def buf_inv_def same_cfg_def split: option.splits)
qed

lemma unat_count: "0 \<le> n \<Longrightarrow> n \<le> 65536 \<Longrightarrow> unat (word_of_int n :: u32) = nat n"
  by (simp add: unat_eq_nat_uint uint_word_of_int_eq take_bit_int_eq_self)

lemma flush_rx_out:
  assumes inv: "buf_inv (bit_extras i) (mem_size (mem i)) b" and dx: "d2xx_ok dx"
  shows "c_out strict (flush_rx dx b i) (\<lambda>(ok, b', i').
    buf_inv (bit_extras i) (mem_size (mem i)) b' \<and> same_cfg b b' \<and> io_same i i'
    \<and> txBuffer b' = txBuffer b \<and> (ok \<longrightarrow> rxBuffer b' = None))"
proof (cases "rxBuffer b")
  case None
  then show ?thesis using inv by (simp add: flush_rx_def)
next
  case (Some rx)
  obtain st bytes rd w where R: "FT_Read dx (ftChip b) (word_of_int (rxNumBytes b)) (world i)
      = (st, bytes, rd, w)" by (metis prod_cases4)
  have "length (fst (snd (FT_Read dx (ftChip b) (word_of_int (rxNumBytes b)) (world i))))
      \<le> unat (word_of_int (rxNumBytes b) :: u32)"
    using dx unfolding d2xx_ok_def by blast
  then have "length bytes \<le> nat (rxNumBytes b)"
    using inv unat_count [of "rxNumBytes b"] by (simp add: R buf_inv_def)
  moreover have rx: "length rx = nat (maxRxBufferBytes b)" "nat (rxNumBytes b) \<le> length rx"
    "0 \<le> rxNumBytes b"
    using inv Some by (auto simp: buf_inv_def)
  ultimately have bl: "blit rx 0 bytes = Ok (overlay rx 0 bytes)"
    and len: "length (overlay rx 0 bytes) = length rx"
    using blit_ok [of 0 bytes rx] by simp_all
  have "list_all (node_ok (bit_extras i) (mem_size (mem i)) (int (length (overlay rx 0 bytes))))
      (rxObservers b)"
    using inv rx(2,3) by (auto simp: buf_inv_def list_all_iff len intro: node_ok_mono)
  then have run: "run_observers (overlay rx 0 bytes) (rxObservers b) (i\<lparr>world := w\<rparr>)
      = Ok (i\<lparr>world := w, mem := deliver (bit_extras i) (overlay rx 0 bytes) (rxObservers b) (mem i)\<rparr>)"
    using run_observers_ok [of "i\<lparr>world := w\<rparr>"] by simp
  show ?thesis
    using inv len rx
    by (auto simp: flush_rx_def Some R bl run Let_def buf_inv_def same_cfg_def io_same_def
        split: option.splits)
qed

lemma flush_out:
  fixes i :: "'a io"
  assumes inv: "buf_inv (bit_extras i) (mem_size (mem i)) b" and dx: "d2xx_ok dx"
  shows "c_out strict (ft_buffer_flush dx b i) (\<lambda>(ok, b', i').
    buf_inv (bit_extras i) (mem_size (mem i)) b' \<and> same_cfg b b' \<and> io_same i i'
    \<and> (ok \<longrightarrow> txBuffer b' = None \<and> rxBuffer b' = None
             \<and> pool_head (fb_pool b') = pool_start (fb_pool b)))"
  unfolding ft_buffer_flush_def
proof (intro c_out_bindI [OF flush_tx_out [OF inv, of strict dx i]], clarify)
  fix ok b1 and i1 :: "'a io"
  assume 1: "buf_inv (bit_extras i) (mem_size (mem i)) b1" "same_cfg b b1"
    "bit_extras i1 = bit_extras i" "mem i1 = mem i" "ok \<longrightarrow> txBuffer b1 = None"
  then have inv1: "buf_inv (bit_extras i1) (mem_size (mem i1)) b1" by simp
  show "c_out strict (if \<not> ok then Ok (False, b1, i1) else c_bind (flush_rx dx b1 i1)
         (\<lambda>(ok, b'', i''). if \<not> ok then Ok (False, b'', i'')
           else Ok (True, b''\<lparr>fb_pool := txvc_mempool_reclaim_all (fb_pool b'')\<rparr>, i'')))
       (\<lambda>(ok, b', i'). buf_inv (bit_extras i) (mem_size (mem i)) b' \<and> same_cfg b b' \<and> io_same i i'
          \<and> (ok \<longrightarrow> txBuffer b' = None \<and> rxBuffer b' = None
             \<and> pool_head (fb_pool b') = pool_start (fb_pool b)))"
  proof (cases ok)
    case False
    with 1 show ?thesis by (simp add: io_same_def)
  next
    case True
    then show ?thesis
    proof (simp, intro c_out_bindI [OF flush_rx_out [OF inv1 dx]], clarify)
      fix ok2 b2 and i2 :: "'a io"
      assume 2: "buf_inv (bit_extras i1) (mem_size (mem i1)) b2" "same_cfg b1 b2" "io_same i1 i2"
        "txBuffer b2 = txBuffer b1" "ok2 \<longrightarrow> rxBuffer b2 = None"
      have cfg: "same_cfg b b2" using 1(2) 2(2) by (rule same_cfg_trans)
      have cfg': "same_cfg b (b2\<lparr>fb_pool := txvc_mempool_reclaim_all (fb_pool b2)\<rparr>)"
        using cfg by (simp add: same_cfg_def same_arena_def txvc_mempool_reclaim_all_def)
      have "buf_inv (bit_extras i) (mem_size (mem i))
          (b2\<lparr>fb_pool := txvc_mempool_reclaim_all (fb_pool b2)\<rparr>)"
        using 2(1) 1(3,4) by (intro buf_inv_pool pool_ok_reclaim) (simp_all add: buf_inv_def)
      with 1 2 True cfg cfg' show "c_out strict (if \<not> ok2 then Ok (False, b2, i2)
           else Ok (True, b2\<lparr>fb_pool := txvc_mempool_reclaim_all (fb_pool b2)\<rparr>, i2))
         (\<lambda>(ok, b', i'). buf_inv (bit_extras i) (mem_size (mem i)) b' \<and> same_cfg b b' \<and> io_same i i'
          \<and> (ok \<longrightarrow> txBuffer b' = None \<and> rxBuffer b' = None
             \<and> pool_head (fb_pool b') = pool_start (fb_pool b)))"
        by (auto simp: io_same_def) (simp add: same_cfg_def same_arena_def)
    qed
  qed
qed

lemma roomy_flushed:
  assumes "roomy k b" "same_cfg b b'" "txBuffer b' = None" "rxBuffer b' = None"
    and "pool_head (fb_pool b') = pool_start (fb_pool b)"
  shows "roomy k b'"
  using assms by (simp add: roomy_def same_cfg_def same_arena_def fb_need_def fb_end_def)

lemma ensure_out:
  assumes inv: "buf_inv (bit_extras i) (mem_size (mem i)) b" and dx: "d2xx_ok dx"
    and nm: "0 \<le> n" "0 \<le> m" "n < 2 ^ 30" "m < 2 ^ 30"
    and strict: "strict \<Longrightarrow> n \<le> maxRxBufferBytes b \<and> m \<le> maxRxBufferBytes b \<and> roomy k b"
  shows "c_out strict (ft_buffer_ensure_can_append dx b i n m) (\<lambda>(ok, b', i').
    buf_inv (bit_extras i) (mem_size (mem i)) b' \<and> same_cfg b b' \<and> io_same i i'
    \<and> (ok \<longrightarrow> txNumBytes b' + n \<le> maxTxBufferBytes b' \<and> rxNumBytes b' + m \<le> maxRxBufferBytes b'
             \<and> (strict \<longrightarrow> roomy k b')))"
proof (cases "n \<le> maxRxBufferBytes b \<and> m \<le> maxRxBufferBytes b")
  case False
  then have "c_assert (n \<le> maxRxBufferBytes b \<and> m \<le> maxRxBufferBytes b) = Fault FatalAbort"
    by (simp add: c_assert_def)
  then show ?thesis using strict False by (auto simp: ft_buffer_ensure_can_append_def)
next
  case True
  have flush: "c_out strict (ft_buffer_flush dx b i) (\<lambda>(ok, b', i').
    buf_inv (bit_extras i) (mem_size (mem i)) b' \<and> same_cfg b b' \<and> io_same i i'
    \<and> (ok \<longrightarrow> txNumBytes b' + n \<le> maxTxBufferBytes b' \<and> rxNumBytes b' + m \<le> maxRxBufferBytes b'
             \<and> (strict \<longrightarrow> roomy k b')))"
    by (rule c_out_mono [OF flush_out [OF inv dx]])
       (use True strict nm roomy_flushed in \<open>auto simp: buf_inv_def same_cfg_def\<close>)
  have i1: "c_int (txNumBytes b + n) = Ok (txNumBytes b + n)"
    and i2: "c_int (rxNumBytes b + m) = Ok (rxNumBytes b + m)"
    using inv nm by (auto simp: buf_inv_def intro!: c_int_in)
  show ?thesis
    using True inv strict flush
    by (auto simp: ft_buffer_ensure_can_append_def i1 i2)
qed

lemma buf_inv_io_same:
  "io_same i i' \<Longrightarrow> buf_inv (bit_extras i') (mem_size (mem i')) b
     \<longleftrightarrow> buf_inv (bit_extras i) (mem_size (mem i)) b"
  by (simp add: io_same_def)

lemma append_out:
  assumes inv: "buf_inv ex sz b" and n: "0 \<le> n" "nat n \<le> length data" "0 \<le> m"
    and fits: "txNumBytes b + n \<le> maxTxBufferBytes b" "rxNumBytes b + m \<le> maxRxBufferBytes b"
    and fn: "\<And>fn. 0 < m \<Longrightarrow> observer = Some fn \<Longrightarrow> fn_ok ex sz m fn"
    and room: "strict \<Longrightarrow> fb_need b + (if 0 < m then 39 else 0) \<le> fb_end b"
  shows "c_out strict (ft_buffer_append b data n observer m) (\<lambda>(ok, b'). ok
    \<and> buf_inv ex sz b' \<and> same_cfg b b' \<and> pend_tx b' = pend_tx b @ take (nat n) data
    \<and> txNumBytes b' = txNumBytes b + n \<and> rxNumBytes b' = rxNumBytes b + m
    \<and> rxObservers b' = rxObservers b @ new_node observer (rxNumBytes b) m
    \<and> fb_need b' \<le> fb_need b + (if 0 < m then 39 else 0))"
  unfolding ft_buffer_append_def
proof (rule c_out_bindI [OF append_tx_out [OF inv n(1,2) fits(1)]])
  assume strict
  with room show "fb_need b \<le> fb_end b" by (auto split: if_splits)
next
  fix b1
  assume 1: "buf_inv ex sz b1 \<and> same_cfg b b1 \<and> pend_tx b1 = pend_tx b @ take (nat n) data
    \<and> txNumBytes b1 = txNumBytes b + n
    \<and> rxBuffer b1 = rxBuffer b \<and> rxNumBytes b1 = rxNumBytes b \<and> rxObservers b1 = rxObservers b
    \<and> fb_need b1 \<le> fb_need b"
  have room1: "strict \<Longrightarrow> 0 < m \<Longrightarrow> fb_need b1 + 39 \<le> fb_end b1"
    using 1 room by (auto simp: fb_end_same)
  have fits1: "rxNumBytes b1 + m \<le> maxRxBufferBytes b1" using 1 fits by (simp add: same_cfg_def)
  from 1 have inv1: "buf_inv ex sz b1" by simp
  show "c_out strict (c_bind (append_rx b1 observer m) (\<lambda>b''. Ok (True, b'')))
     (\<lambda>(ok, b'). ok \<and> buf_inv ex sz b' \<and> same_cfg b b' \<and> pend_tx b' = pend_tx b @ take (nat n) data
    \<and> txNumBytes b' = txNumBytes b + n \<and> rxNumBytes b' = rxNumBytes b + m
    \<and> rxObservers b' = rxObservers b @ new_node observer (rxNumBytes b) m
    \<and> fb_need b' \<le> fb_need b + (if 0 < m then 39 else 0))"
    by (rule c_out_bindI [OF append_rx_out [OF inv1 n(3) fits1 fn room1]])
       (use 1 in \<open>auto dest: same_cfg_trans\<close>)
qed

text \<open>The effect of queueing on the pending bytes and observers.\<close>

definition appended ::
  "ft_buffer \<Rightarrow> ft_buffer \<Rightarrow> u8 list \<Rightarrow> int \<Rightarrow> rx_observer option \<Rightarrow> int \<Rightarrow> bool" where
  "appended b b' data n observer m \<longleftrightarrow> pend_tx b' = pend_tx b @ take (nat n) data
     \<and> rxNumBytes b' = rxNumBytes b + m
     \<and> rxObservers b' = rxObservers b @ new_node observer (rxNumBytes b) m"

lemma roomy_step:
  assumes "roomy (Suc k) b" "same_cfg b b'" "fb_need b' \<le> fb_need b + 64"
  shows "roomy k b'"
  using assms by (simp add: roomy_def same_cfg_def same_arena_def fb_end_def)

lemma roomy_less:
  assumes "roomy k b" "same_cfg b b'" "fb_need b' \<le> fb_need b"
  shows "roomy k b'"
  using assms by (simp add: roomy_def same_cfg_def same_arena_def fb_end_def)

text \<open>A command with its observer: one unit of room if it is answered.\<close>

lemma add_write_out:
  fixes i :: "'w io"
  assumes inv: "buf_inv (bit_extras i) (mem_size (mem i)) b" and dx: "d2xx_ok dx"
    and nm: "0 \<le> n" "0 \<le> m" "n < 2 ^ 30" "m < 2 ^ 30" "nat n \<le> length data"
    and fn: "\<And>fn. 0 < m \<Longrightarrow> observer = Some fn \<Longrightarrow> fn_ok (bit_extras i) (mem_size (mem i)) m fn"
    and strict: "strict \<Longrightarrow> n \<le> maxRxBufferBytes b \<and> m \<le> maxRxBufferBytes b
      \<and> roomy (if 0 < m then Suc k else k) b"
  shows "c_out strict (ft_buffer_add_write_to_chip_with_readback dx b i data n observer m)
    (\<lambda>(ok, b', i'). buf_inv (bit_extras i) (mem_size (mem i)) b' \<and> same_cfg b b' \<and> io_same i i'
       \<and> (\<not> ok \<longrightarrow> ft_buffer_ensure_can_append dx b i n m = Ok (False, b', i'))
       \<and> (ok \<longrightarrow> (strict \<longrightarrow> roomy k b')
            \<and> (\<exists>b1. ft_buffer_ensure_can_append dx b i n m = Ok (True, b1, i')
                  \<and> appended b1 b' data n observer m)))"
  unfolding ft_buffer_add_write_to_chip_with_readback_def
proof (intro c_out_bindI [OF ensure_out [OF inv dx nm(1-4) strict]], assumption, clarify)
  fix ok b1 and i1 :: "'w io"
  assume ens: "ft_buffer_ensure_can_append dx b i n m = Ok (ok, b1, i1)"
    and 1: "buf_inv (bit_extras i) (mem_size (mem i)) b1" "same_cfg b b1" "io_same i i1"
      "ok \<longrightarrow> txNumBytes b1 + n \<le> maxTxBufferBytes b1 \<and> rxNumBytes b1 + m \<le> maxRxBufferBytes b1
        \<and> (strict \<longrightarrow> roomy (if 0 < m then Suc k else k) b1)"
  show "c_out strict (if \<not> ok then Ok (False, b1, i1)
      else c_bind (ft_buffer_append b1 data n observer m) (\<lambda>(ok, b''). Ok (ok, b'', i1)))
    (\<lambda>(ok, b', i'). buf_inv (bit_extras i) (mem_size (mem i)) b' \<and> same_cfg b b' \<and> io_same i i'
       \<and> (\<not> ok \<longrightarrow> ft_buffer_ensure_can_append dx b i n m = Ok (False, b', i'))
       \<and> (ok \<longrightarrow> (strict \<longrightarrow> roomy k b')
            \<and> (\<exists>b1. ft_buffer_ensure_can_append dx b i n m = Ok (True, b1, i')
                  \<and> appended b1 b' data n observer m)))"
  proof (cases ok)
    case False
    with 1 ens show ?thesis by simp
  next
    case True
    have room: "strict \<Longrightarrow> fb_need b1 + (if 0 < m then 39 else 0) \<le> fb_end b1"
      using 1 True by (auto simp: roomy_def split: if_splits)
    have ap: "c_out strict (ft_buffer_append b1 data n observer m) (\<lambda>(ok, b'). ok
      \<and> buf_inv (bit_extras i) (mem_size (mem i)) b' \<and> same_cfg b1 b'
      \<and> pend_tx b' = pend_tx b1 @ take (nat n) data
      \<and> txNumBytes b' = txNumBytes b1 + n \<and> rxNumBytes b' = rxNumBytes b1 + m
      \<and> rxObservers b' = rxObservers b1 @ new_node observer (rxNumBytes b1) m
      \<and> fb_need b' \<le> fb_need b1 + (if 0 < m then 39 else 0))"
      using 1 True nm fn room by (intro append_out) auto
    have keep: "roomy k b'" if "strict" "same_cfg b1 b'"
      "fb_need b' \<le> fb_need b1 + (if 0 < m then 39 else 0)" for b'
      using that 1(4) True roomy_step [of k b1 b'] roomy_less [of k b1 b']
      by (cases "0 < m") auto
    show ?thesis
      using True 1 ens keep
      by (auto simp: appended_def intro!: c_out_bindI [OF ap] dest: same_cfg_trans)
  qed
qed

lemma add_write_simple_out:
  fixes i :: "'w io"
  assumes inv: "buf_inv (bit_extras i) (mem_size (mem i)) b" and dx: "d2xx_ok dx"
    and nm: "0 \<le> n" "0 < m" "n < 2 ^ 30" "m < 2 ^ 30" "nat n \<le> length data"
    and fn: "0 \<le> off" "off + m \<le> int (mem_size (mem i) r)"
    and strict: "strict \<Longrightarrow> n \<le> maxRxBufferBytes b \<and> m \<le> maxRxBufferBytes b \<and> roomy (Suc k) b"
  shows "c_out strict (ft_buffer_add_write_to_chip_with_readback_simple dx b i data n r off m)
    (\<lambda>(ok, b', i'). buf_inv (bit_extras i) (mem_size (mem i)) b' \<and> same_cfg b b' \<and> io_same i i'
       \<and> (\<not> ok \<longrightarrow> ft_buffer_ensure_can_append dx b i n m = Ok (False, b', i'))
       \<and> (ok \<longrightarrow> (strict \<longrightarrow> roomy k b')
            \<and> (\<exists>b1. ft_buffer_ensure_can_append dx b i n m = Ok (True, b1, i')
                  \<and> appended b1 b' data n (Some (Byte_copier r off m)) m)))"
  unfolding ft_buffer_add_write_to_chip_with_readback_simple_def
proof (intro c_out_bindI [OF ensure_out [OF inv dx nm(1) _ nm(3,4) strict]],
    use nm in simp, assumption, clarify)
  fix ok b1 and i1 :: "'w io"
  assume ens: "ft_buffer_ensure_can_append dx b i n m = Ok (ok, b1, i1)"
    and 1: "buf_inv (bit_extras i) (mem_size (mem i)) b1" "same_cfg b b1" "io_same i i1"
      "ok \<longrightarrow> txNumBytes b1 + n \<le> maxTxBufferBytes b1 \<and> rxNumBytes b1 + m \<le> maxRxBufferBytes b1
        \<and> (strict \<longrightarrow> roomy (Suc k) b1)"
  let ?P = "\<lambda>(ok, b', i'). buf_inv (bit_extras i) (mem_size (mem i)) b' \<and> same_cfg b b' \<and> io_same i i'
       \<and> (\<not> ok \<longrightarrow> ft_buffer_ensure_can_append dx b i n m = Ok (False, b', i'))
       \<and> (ok \<longrightarrow> (strict \<longrightarrow> roomy k b')
            \<and> (\<exists>b1. ft_buffer_ensure_can_append dx b i n m = Ok (True, b1, i')
                  \<and> appended b1 b' data n (Some (Byte_copier r off m)) m))"
  show "c_out strict (if \<not> ok then Ok (False, b1, i1)
      else c_bind (txvc_mempool_alloc_aligned (fb_pool b1) 16 8) (\<lambda>(a, p).
        case a of None \<Rightarrow> Fault NullDeref
        | Some _ \<Rightarrow> c_bind (ft_buffer_append (b1\<lparr>fb_pool := p\<rparr>) data n
                       (Some (Byte_copier r off m)) m) (\<lambda>(ok, b''). Ok (ok, b'', i1)))) ?P"
  proof (cases ok)
    case False
    with 1 ens show ?thesis by simp
  next
    case True
    have room: "strict \<Longrightarrow> fb_need b1 + 62 \<le> fb_end b1"
      using 1 True by (auto simp: roomy_def)
    have ob: "c_out strict (txvc_mempool_alloc_aligned (fb_pool b1) 16 8) (\<lambda>(a, q).
        \<exists>b. a = Some b \<and> pool_ok q \<and> same_arena (fb_pool b1) q
        \<and> unat (pool_head (fb_pool b1)) \<le> unat b \<and> unat (pool_head q) = unat b + unat (16 :: u64)
        \<and> unat b < unat (pool_head (fb_pool b1)) + 8)"
      using 1 room by (intro small_object_out) (auto simp: buf_inv_def fb_need_def fb_end_def)
    show ?thesis
      using True
    proof (simp, intro c_out_bindI [OF ob], clarsimp)
      fix q a
      assume q: "pool_ok q" "same_arena (fb_pool b1) q" "unat (pool_head q) = unat a + 16"
        "unat a < unat (pool_head (fb_pool b1)) + 8" "unat (pool_head (fb_pool b1)) \<le> unat a"
      let ?b = "b1\<lparr>fb_pool := q\<rparr>"
      have cfg: "same_cfg b1 ?b" using q by (simp add: same_cfg_def)
      have need: "fb_need ?b \<le> fb_need b1 + 23" using q by (simp add: fb_need_def)
      have ap: "c_out strict (ft_buffer_append ?b data n (Some (Byte_copier r off m)) m) (\<lambda>(ok, b'). ok
        \<and> buf_inv (bit_extras i) (mem_size (mem i)) b' \<and> same_cfg ?b b'
        \<and> pend_tx b' = pend_tx ?b @ take (nat n) data
        \<and> txNumBytes b' = txNumBytes ?b + n \<and> rxNumBytes b' = rxNumBytes ?b + m
        \<and> rxObservers b' = rxObservers ?b @ new_node (Some (Byte_copier r off m)) (rxNumBytes ?b) m
        \<and> fb_need b' \<le> fb_need ?b + (if 0 < m then 39 else 0))"
      proof (rule append_out)
        show "buf_inv (bit_extras i) (mem_size (mem i)) ?b" using 1 q by (intro buf_inv_pool)
        assume strict
        with room need cfg show "fb_need ?b + (if 0 < m then 39 else 0) \<le> fb_end ?b"
          by (simp add: fb_end_same)
      qed (use 1 True nm fn in simp_all)
      have keep: "roomy k b'" if strict "same_cfg ?b b'" "fb_need b' \<le> fb_need ?b + 39" for b'
        using that 1(4) True need roomy_step [of k b1 b'] same_cfg_trans [OF cfg that(2)] by auto
      have pend: "pend_tx ?b = pend_tx b1" by (simp add: pend_tx_def cong: option.case_cong)
      show "c_out strict (c_bind (ft_buffer_append ?b data n (Some (Byte_copier r off m)) m)
          (\<lambda>(ok, b''). Ok (ok, b'', i1))) ?P"
        using 1 True ens keep nm(2) cfg
        by (auto simp: appended_def pend intro!: c_out_bindI [OF ap] dest: same_cfg_trans)
    qed
  qed
qed

text \<open>Observers are only dropped by a flush.\<close>

lemma flush_tx_observers:
  "flush_tx dx b i = Ok (ok, b', i') \<Longrightarrow> rxObservers b' = rxObservers b"
  unfolding flush_tx_def Let_def
  by (auto simp: case_prod_unfold split: option.splits if_splits)

lemma flush_rx_observers:
  "flush_rx dx b i = Ok (ok, b', i') \<Longrightarrow> rxObservers b' = [] \<or> rxObservers b' = rxObservers b"
  unfolding flush_rx_def Let_def
  by (auto simp: case_prod_unfold split: option.splits if_splits)

lemma flush_observers:
  assumes "ft_buffer_flush dx b i = Ok (True, b', i')"
  shows "set (rxObservers b') \<subseteq> set (rxObservers b)"
proof -
  obtain b1 i1 b2 i2 where "flush_tx dx b i = Ok (True, b1, i1)" "flush_rx dx b1 i1 = Ok (True, b2, i2)"
    "rxObservers b' = rxObservers b2"
    using assms by (auto simp: ft_buffer_flush_def split: if_splits)
  then show ?thesis
    using flush_tx_observers [of dx b i] flush_rx_observers [of dx b1 i1] by fastforce
qed

lemma ensure_observers:
  "ft_buffer_ensure_can_append dx b i n m = Ok (True, b', i') \<Longrightarrow>
     set (rxObservers b') \<subseteq> set (rxObservers b)"
  unfolding ft_buffer_ensure_can_append_def
  using flush_observers [of dx b i b' i'] by (auto split: if_splits)

text \<open>Another extra, also at an address that is in use.\<close>

lemma buf_inv_extra:
  assumes "buf_inv ex sz b" "extra_ok sz e"
  shows "buf_inv (ex(a \<mapsto> e)) sz b"
proof -
  have "fn_ok ex sz n f \<Longrightarrow> fn_ok (ex(a \<mapsto> e)) sz n f" for n f
    using assms(2) by (cases f) auto
  then have "node_ok ex sz n o' \<Longrightarrow> node_ok (ex(a \<mapsto> e)) sz n o'" for n o'
    by (simp add: node_ok_def)
  then show ?thesis using assms(1) by (auto simp: buf_inv_def list_all_iff)
qed

end
