(* ===== verification/C_Strings.thy ===== *)
theory C_Strings
  imports Txvc_Prelude
begin

text \<open>
  The C library functions on strings that several components use: \<open>strtol\<close> on a 64-bit \<open>long\<close>,
  and decimal conversions. C strings are HOL strings without the terminating NUL, and a pointer
  into one is an offset.
\<close>

definition LONG_MAX :: int where "LONG_MAX = 2 ^ 63 - 1"

definition LONG_MIN :: int where "LONG_MIN = - (2 ^ 63)"

definition is_space :: "char \<Rightarrow> bool" where
  "is_space c \<longleftrightarrow> (let n = of_char c :: int in n = 32 \<or> (9 \<le> n \<and> n \<le> 13))"

text \<open>The value of an alphanumeric digit; 99 for other characters.\<close>

definition digit_val :: "char \<Rightarrow> int" where
  "digit_val c = (let n = of_char c :: int in
     if 48 \<le> n \<and> n \<le> 57 then n - 48
     else if 97 \<le> n \<and> n \<le> 122 then n - 87
     else if 65 \<le> n \<and> n \<le> 90 then n - 55
     else 99)"

definition digits_value :: "int \<Rightarrow> string \<Rightarrow> int" where
  "digits_value base ds = foldl (\<lambda>v c. v * base + digit_val c) 0 ds"

definition has_hex_prefix :: "string \<Rightarrow> bool" where
  "has_hex_prefix s \<longleftrightarrow> (case s of
     z # x # d # rest \<Rightarrow> z = CHR ''0'' \<and> (x = CHR ''x'' \<or> x = CHR ''X'') \<and> digit_val d < 16
   | _ \<Rightarrow> False)"

text \<open>\<open>strtol(s, &endp, base)\<close> for \<open>base\<close> 0, 10 or 16: the value, saturated, and the offset of
  \<open>endp\<close>, which is 0 if there are no digits.\<close>

definition c_strtol :: "string \<Rightarrow> int \<Rightarrow> int \<times> nat" where
  "c_strtol s base =
     (let spaces = length (takeWhile is_space s);
          s1 = drop spaces s;
          negative = (s1 \<noteq> [] \<and> hd s1 = CHR ''-'');
          signs = (if s1 \<noteq> [] \<and> (hd s1 = CHR ''-'' \<or> hd s1 = CHR ''+'') then 1 else 0);
          s2 = drop signs s1;
          hex = ((base = 0 \<or> base = 16) \<and> has_hex_prefix s2);
          pre = (if hex then 2 else 0);
          b = (if hex then 16
               else if base = 0 then (if s2 \<noteq> [] \<and> hd s2 = CHR ''0'' then 8 else 10)
               else base);
          ds = takeWhile (\<lambda>c. digit_val c < b) (drop pre s2);
          v = (if negative then - digits_value b ds else digits_value b ds)
      in if ds = [] then (0, 0)
         else (max LONG_MIN (min LONG_MAX v), spaces + signs + pre + length ds))"

text \<open>\<open>*endp\<close>; past the last character it is NUL.\<close>

definition char_at :: "string \<Rightarrow> nat \<Rightarrow> char" where
  "char_at s n = (if n < length s then s ! n else CHR 0x00)"

definition NUL_free :: "string \<Rightarrow> bool" where
  "NUL_free s \<longleftrightarrow> CHR 0x00 \<notin> set s"

lemma char_at_NUL: "NUL_free s \<Longrightarrow> char_at s n = CHR 0x00 \<longleftrightarrow> length s \<le> n"
  by (auto simp: char_at_def NUL_free_def dest: nth_mem)

end
