(* ===== verification/Ftdi_Config.thy ===== *)
theory Ftdi_Config
  imports C_Strings
begin

text \<open>
  \<open>libdrivers/ftdi_generic.c\<close>, the configuration loader: conversion of the profile's arguments to
  \<open>struct ft_params\<close>. The expansions of the list macros are written out, in their order. The
  values of \<open>FT_DEVICE\<close> are those of the vendored \<open>ftd2xx.h\<close>.
\<close>

type_synonym ft_device = u32

definition FT_DEVICE_UNKNOWN :: ft_device where "FT_DEVICE_UNKNOWN = 3"
definition FT_DEVICE_2232H :: ft_device where "FT_DEVICE_2232H = 6"
definition FT_DEVICE_232H :: ft_device where "FT_DEVICE_232H = 8"

datatype pin_role =
    PIN_ROLE_INVALID | PIN_ROLE_OTHER_DRIVER_LOW | PIN_ROLE_OTHER_DRIVER_HIGH
  | PIN_ROLE_OTHER_IGNORED

definition str_to_ft_device :: "string \<Rightarrow> ft_device" where
  "str_to_ft_device s =
     (if s = ''ft2232h'' then FT_DEVICE_2232H
      else if s = ''ft232h'' then FT_DEVICE_232H
      else - 1)"

definition str_to_ftdi_interface :: "string \<Rightarrow> char" where
  "str_to_ftdi_interface s =
     (if s = ''A'' then CHR ''A'' else if s = ''B'' then CHR ''B'' else CHR ''?'')"

definition str_to_pin_role :: "string \<Rightarrow> pin_role" where
  "str_to_pin_role s =
     (if s = ''driver_low'' then PIN_ROLE_OTHER_DRIVER_LOW
      else if s = ''driver_high'' then PIN_ROLE_OTHER_DRIVER_HIGH
      else if s = ''ignored'' then PIN_ROLE_OTHER_IGNORED
      else PIN_ROLE_INVALID)"

definition str_to_usb_id :: "string \<Rightarrow> int" where
  "str_to_usb_id s =
     (case c_strtol s 16 of (res, endp) \<Rightarrow>
        if char_at s endp \<noteq> CHR 0x00 \<or> res \<le> 0 \<or> res > 0xffff then - 1 else res)"

definition str_to_ftdi_latency :: "string \<Rightarrow> int" where
  "str_to_ftdi_latency s =
     (if s = [] then 16
      else case c_strtol s 10 of (res, endp) \<Rightarrow>
        if char_at s endp \<noteq> CHR 0x00 \<or> res < 0 \<or> res > 255 then - 1 else res)"

record ft_params =
  device :: ft_device
  vid :: int
  pid :: int
  channel :: char
  read_latency_millis :: int
  d_pins :: "pin_role list"

definition apply_defaults :: "ft_params \<Rightarrow> ft_params" where
  "apply_defaults out = out\<lparr>device := FT_DEVICE_UNKNOWN, vid := 0, pid := 0, channel := CHR ''?'',
     read_latency_millis := 16,
     d_pins := (d_pins out)[4 := PIN_ROLE_INVALID, 5 := PIN_ROLE_INVALID, 6 := PIN_ROLE_INVALID,
                            7 := PIN_ROLE_INVALID]\<rparr>"

text \<open>One argument of the profile; an unknown name is only warned about.\<close>

definition apply_arg :: "string \<times> string \<Rightarrow> ft_params \<Rightarrow> ft_params" where
  "apply_arg a out = (case a of (name, v) \<Rightarrow>
     if name = ''device'' then out\<lparr>device := str_to_ft_device v\<rparr>
     else if name = ''vid'' then out\<lparr>vid := str_to_usb_id v\<rparr>
     else if name = ''pid'' then out\<lparr>pid := str_to_usb_id v\<rparr>
     else if name = ''channel'' then out\<lparr>channel := str_to_ftdi_interface v\<rparr>
     else if name = ''read_latency_millis''
       then out\<lparr>read_latency_millis := str_to_ftdi_latency v\<rparr>
     else if name = ''d4'' then out\<lparr>d_pins := (d_pins out)[4 := str_to_pin_role v]\<rparr>
     else if name = ''d5'' then out\<lparr>d_pins := (d_pins out)[5 := str_to_pin_role v]\<rparr>
     else if name = ''d6'' then out\<lparr>d_pins := (d_pins out)[6 := str_to_pin_role v]\<rparr>
     else if name = ''d7'' then out\<lparr>d_pins := (d_pins out)[7 := str_to_pin_role v]\<rparr>
     else out)"

definition params_valid :: "ft_params \<Rightarrow> bool" where
  "params_valid p \<longleftrightarrow>
     device p \<noteq> FT_DEVICE_UNKNOWN \<and> vid p > 0 \<and> pid p > 0 \<and> channel p \<noteq> CHR ''?''
     \<and> read_latency_millis p \<ge> 0
     \<and> d_pins p ! 4 \<noteq> PIN_ROLE_INVALID \<and> d_pins p ! 5 \<noteq> PIN_ROLE_INVALID
     \<and> d_pins p ! 6 \<noteq> PIN_ROLE_INVALID \<and> d_pins p ! 7 \<noteq> PIN_ROLE_INVALID"

definition load_config :: "(string \<times> string) list \<Rightarrow> ft_params \<Rightarrow> bool \<times> ft_params" where
  "load_config args out =
     (let p = fold apply_arg args (apply_defaults out) in (params_valid p, p))"

subsection \<open>Properties\<close>

text \<open>The value the last argument of a name has.\<close>

fun last_arg :: "string \<Rightarrow> (string \<times> string) list \<Rightarrow> string option" where
  "last_arg k [] = None"
| "last_arg k ((n, v) # as) = (case last_arg k as of None \<Rightarrow> if n = k then Some v else None | r \<Rightarrow> r)"

definition arg_or :: "string \<Rightarrow> (string \<Rightarrow> 'a) \<Rightarrow> 'a \<Rightarrow> (string \<times> string) list \<Rightarrow> 'a" where
  "arg_or k conv d args = (case last_arg k args of None \<Rightarrow> d | Some v \<Rightarrow> conv v)"

lemma arg_or_simps [simp]:
  "arg_or k conv d [] = d"
  "arg_or k conv d ((n, v) # as) = arg_or k conv (if n = k then conv v else d) as"
  by (auto simp: arg_or_def split: option.splits)

definition pin_slot :: "string \<Rightarrow> nat option" where
  "pin_slot n = (if n = ''d4'' then Some 4 else if n = ''d5'' then Some 5
     else if n = ''d6'' then Some 6 else if n = ''d7'' then Some 7 else None)"

lemma fold_apply_arg:
  assumes "length (d_pins p) = 8"
  shows "fold apply_arg args p = \<lparr>
     device = arg_or ''device'' str_to_ft_device (device p) args,
     vid = arg_or ''vid'' str_to_usb_id (vid p) args,
     pid = arg_or ''pid'' str_to_usb_id (pid p) args,
     channel = arg_or ''channel'' str_to_ftdi_interface (channel p) args,
     read_latency_millis = arg_or ''read_latency_millis'' str_to_ftdi_latency (read_latency_millis p) args,
     d_pins = take 4 (d_pins p)
       @ [arg_or ''d4'' str_to_pin_role (d_pins p ! 4) args,
          arg_or ''d5'' str_to_pin_role (d_pins p ! 5) args,
          arg_or ''d6'' str_to_pin_role (d_pins p ! 6) args,
          arg_or ''d7'' str_to_pin_role (d_pins p ! 7) args]\<rparr>"
  using assms
proof (induction args arbitrary: p)
  case Nil
  have "length xs = 8 \<Longrightarrow> xs = take 4 xs @ [xs ! 4, xs ! 5, xs ! 6, xs ! 7]" for xs :: "pin_role list"
    by (auto simp: numeral_eq_Suc length_Suc_conv)
  from this [OF Nil] show ?case by simp
next
  case (Cons a args)
  obtain n v where a: "a = (n, v)" by (cases a)
  have len: "length (d_pins (apply_arg a p)) = 8" using Cons.prems by (simp add: apply_arg_def a)
  show ?case
    unfolding fold_simps o_apply Cons.IH [OF len] using Cons.prems
    by (simp add: a apply_arg_def)
qed

text \<open>A profile with a chip type gets past the validation whatever the type is: the value for an
  unknown one is not \<open>FT_DEVICE_UNKNOWN\<close>, which only says that none was given.\<close>

lemma device_given:
  "arg_or ''device'' str_to_ft_device FT_DEVICE_UNKNOWN args \<noteq> FT_DEVICE_UNKNOWN
   \<longleftrightarrow> last_arg ''device'' args \<noteq> None"
  by (auto simp: arg_or_def str_to_ft_device_def FT_DEVICE_UNKNOWN_def FT_DEVICE_2232H_def
      FT_DEVICE_232H_def split: option.splits)

text \<open>C20. The loader gives every parameter the converted value of its last occurrence in the
  profile, or the default, and accepts the profile exactly if a chip type is given, whichever it is,
  the identifiers are within 16 bits and not zero, the channel is A or B, the latency has a value
  the chip knows, and every pin has a role.\<close>
theorem load_config_spec:
  assumes "length (d_pins p0) = 8" "load_config args p0 = (ok, p)"
  shows "device p = arg_or ''device'' str_to_ft_device FT_DEVICE_UNKNOWN args
    \<and> vid p = arg_or ''vid'' str_to_usb_id 0 args \<and> pid p = arg_or ''pid'' str_to_usb_id 0 args
    \<and> channel p = arg_or ''channel'' str_to_ftdi_interface (CHR ''?'') args
    \<and> read_latency_millis p = arg_or ''read_latency_millis'' str_to_ftdi_latency 16 args
    \<and> drop 4 (d_pins p) = map (\<lambda>k. arg_or k str_to_pin_role PIN_ROLE_INVALID args)
         [''d4'', ''d5'', ''d6'', ''d7'']
    \<and> (ok \<longleftrightarrow> last_arg ''device'' args \<noteq> None
        \<and> 0 < vid p \<and> vid p \<le> 0xffff \<and> 0 < pid p \<and> pid p \<le> 0xffff
        \<and> 0 \<le> read_latency_millis p \<and> read_latency_millis p \<le> 255
        \<and> (channel p = CHR ''A'' \<or> channel p = CHR ''B'')
        \<and> PIN_ROLE_INVALID \<notin> set (drop 4 (d_pins p)))"
proof -
  let ?q = "apply_defaults p0"
  have len: "length (d_pins ?q) = 8" and t4: "length (take 4 (d_pins ?q)) = 4"
    using assms(1) by (simp_all add: apply_defaults_def)
  have p: "p = fold apply_arg args ?q" and ok: "ok = params_valid p"
    using assms(2) by (auto simp: load_config_def Let_def)
  have usb: "arg_or k str_to_usb_id 0 args \<le> 0xffff" for k
    by (auto simp: arg_or_def str_to_usb_id_def split: option.splits prod.splits)
  have lat: "arg_or k str_to_ftdi_latency 16 args \<le> 255" for k
    by (auto simp: arg_or_def str_to_ftdi_latency_def split: option.splits prod.splits)
  have chan: "arg_or k str_to_ftdi_interface (CHR ''?'') args
      \<in> {CHR ''A'', CHR ''B'', CHR ''?''}" for k
    by (auto simp: arg_or_def str_to_ftdi_interface_def split: option.splits)
  have inv: "d_pins ?q ! 4 = PIN_ROLE_INVALID" "d_pins ?q ! 5 = PIN_ROLE_INVALID"
    "d_pins ?q ! 6 = PIN_ROLE_INVALID" "d_pins ?q ! 7 = PIN_ROLE_INVALID"
    using assms(1) by (simp_all add: apply_defaults_def)
  have q: "device ?q = FT_DEVICE_UNKNOWN" "vid ?q = 0" "pid ?q = 0" "channel ?q = CHR ''?''"
    "read_latency_millis ?q = 16" by (simp_all add: apply_defaults_def)
  note p' = p [unfolded fold_apply_arg [OF len] inv q]
  have at: "d_pins p ! 4 = arg_or ''d4'' str_to_pin_role PIN_ROLE_INVALID args"
    "d_pins p ! 5 = arg_or ''d5'' str_to_pin_role PIN_ROLE_INVALID args"
    "d_pins p ! 6 = arg_or ''d6'' str_to_pin_role PIN_ROLE_INVALID args"
    "d_pins p ! 7 = arg_or ''d7'' str_to_pin_role PIN_ROLE_INVALID args"
    using t4 by (simp_all add: p' nth_append)
  have dr: "drop 4 (d_pins p) = map (\<lambda>k. arg_or k str_to_pin_role PIN_ROLE_INVALID args)
         [''d4'', ''d5'', ''d6'', ''d7'']"
    using t4 by (simp add: p')
  have fields: "device p = arg_or ''device'' str_to_ft_device FT_DEVICE_UNKNOWN args
    \<and> vid p = arg_or ''vid'' str_to_usb_id 0 args \<and> pid p = arg_or ''pid'' str_to_usb_id 0 args
    \<and> channel p = arg_or ''channel'' str_to_ftdi_interface (CHR ''?'') args
    \<and> read_latency_millis p = arg_or ''read_latency_millis'' str_to_ftdi_latency 16 args"
    by (simp add: p')
  show ?thesis
    unfolding ok dr using fields usb [of "''vid''"] usb [of "''pid''"] lat chan [of "''channel''"]
    by (auto simp: params_valid_def at device_given simp del: not_None_eq)
qed

theorem load_config_spec_witness:
  "\<exists>p. load_config [(''device'', ''ft232h''), (''vid'', ''0403''), (''pid'', ''0x6014''),
       (''channel'', ''A''), (''d4'', ''ignored''), (''d5'', ''driver_low''),
       (''d6'', ''driver_high''), (''d7'', ''ignored''), (''d4'', ''driver_low'')]
     \<lparr>device = 0, vid = 0, pid = 0, channel = CHR 0x00, read_latency_millis = 0,
      d_pins = replicate 8 PIN_ROLE_INVALID\<rparr> = (True, p)
   \<and> vid p = str_to_usb_id ''0403'' \<and> drop 4 (d_pins p) = [PIN_ROLE_OTHER_DRIVER_LOW,
     PIN_ROLE_OTHER_DRIVER_LOW, PIN_ROLE_OTHER_DRIVER_HIGH, PIN_ROLE_OTHER_IGNORED]"
proof -
  let ?args = "[(''device'', ''ft232h''), (''vid'', ''0403''), (''pid'', ''0x6014''),
       (''channel'', ''A''), (''d4'', ''ignored''), (''d5'', ''driver_low''),
       (''d6'', ''driver_high''), (''d7'', ''ignored''), (''d4'', ''driver_low'')]"
  let ?p = "\<lparr>device = 0, vid = 0, pid = 0, channel = CHR 0x00, read_latency_millis = 0,
      d_pins = replicate 8 PIN_ROLE_INVALID\<rparr>"
  have ok: "fst (load_config ?args ?p)" by code_simp
  from ok load_config_spec [of ?p ?args True "snd (load_config ?args ?p)"] show ?thesis
    by (intro exI [of _ "snd (load_config ?args ?p)"])
       (simp add: prod_eq_iff str_to_pin_role_def)
qed

end
