(* ===== verification/Ftdi_Driver.thy ===== *)
theory Ftdi_Driver
  imports Ftdi_Buffer Ftdi_Config
begin

text \<open>
  \<open>libdrivers/ftdi_generic.c\<close>, the driver's state and the translation of the splitter's events to
  MPSSE commands.

  \<open>'w ftdi\<close> is \<open>struct driver\<close> without its splitter, together with what the program's pointers
  reach (\<open>io\<close>); the splitter, whose callback works on this state, is passed next to it.
\<close>

record 'w ftdi =
  fd_params :: ft_params
  chipBufferBytes :: int
  highSpeedCapable :: bool
  ftHandle :: ft_handle
  lastTdi :: bool
  fd_pool :: mempool
  cmdBuffer :: ft_buffer
  fd_io :: "'w io"

subsection \<open>MPSSE opcodes\<close>

definition OP_BAD_COMMANDS :: u8 where "OP_BAD_COMMANDS = 0xfa"
definition OP_SHIFT_WR_FALLING_FLAG :: u8 where "OP_SHIFT_WR_FALLING_FLAG = push_bit 0 1"
definition OP_SHIFT_BITMODE_FLAG :: u8 where "OP_SHIFT_BITMODE_FLAG = push_bit 1 1"
definition OP_SHIFT_LSB_FIRST_FLAG :: u8 where "OP_SHIFT_LSB_FIRST_FLAG = push_bit 3 1"
definition OP_SHIFT_WR_TDI_FLAG :: u8 where "OP_SHIFT_WR_TDI_FLAG = push_bit 4 1"
definition OP_SHIFT_RD_TDO_FLAG :: u8 where "OP_SHIFT_RD_TDO_FLAG = push_bit 5 1"
definition OP_SHIFT_WR_TMS_FLAG :: u8 where "OP_SHIFT_WR_TMS_FLAG = push_bit 6 1"
definition OP_SET_DBUS_LOBYTE :: u8 where "OP_SET_DBUS_LOBYTE = 0x80"
definition OP_SET_TCK_DIVISOR :: u8 where "OP_SET_TCK_DIVISOR = 0x86"
definition OP_DISABLE_CLK_DIVIDE_BY_5 :: u8 where "OP_DISABLE_CLK_DIVIDE_BY_5 = 0x8a"

text \<open>The opcodes of the four shift commands.\<close>

definition op_tms :: u8 where
  "op_tms = OP_SHIFT_WR_TMS_FLAG OR OP_SHIFT_LSB_FIRST_FLAG
     OR OP_SHIFT_BITMODE_FLAG OR OP_SHIFT_WR_FALLING_FLAG"

definition op_bits :: u8 where
  "op_bits = OP_SHIFT_RD_TDO_FLAG OR OP_SHIFT_WR_TDI_FLAG OR OP_SHIFT_LSB_FIRST_FLAG
     OR OP_SHIFT_BITMODE_FLAG OR OP_SHIFT_WR_FALLING_FLAG"

definition op_octets :: u8 where
  "op_octets = OP_SHIFT_RD_TDO_FLAG OR OP_SHIFT_WR_TDI_FLAG
     OR OP_SHIFT_LSB_FIRST_FLAG OR OP_SHIFT_WR_FALLING_FLAG"

definition op_last :: u8 where
  "op_last = OP_SHIFT_WR_TMS_FLAG OR OP_SHIFT_RD_TDO_FLAG OR OP_SHIFT_LSB_FIRST_FLAG
     OR OP_SHIFT_BITMODE_FLAG OR OP_SHIFT_WR_FALLING_FLAG"

text \<open>Calls on \<open>&d->cmdBuffer\<close>, and a new observer extra in \<open>d->pool\<close>.\<close>

definition on_buffer ::
  "(ft_buffer \<Rightarrow> 'w io \<Rightarrow> (bool \<times> ft_buffer \<times> 'w io) c_res) \<Rightarrow> 'w ftdi \<Rightarrow> (bool \<times> 'w ftdi) c_res"
where
  "on_buffer f d = c_bind (f (cmdBuffer d) (fd_io d)) (\<lambda>(ok, b, i).
     Ok (ok, d\<lparr>cmdBuffer := b, fd_io := i\<rparr>))"

definition new_extra :: "bit_copier_extra \<Rightarrow> 'w ftdi \<Rightarrow> (u64 \<times> 'w ftdi) c_res" where
  "new_extra e d =
     c_bind (txvc_mempool_alloc_aligned (fd_pool d) 24 8) (\<lambda>(a, p).
       case a of
         None \<Rightarrow> Fault NullDeref
       | Some addr \<Rightarrow> Ok (addr, d\<lparr>fd_pool := p,
           fd_io := (fd_io d)\<lparr>bit_extras := (bit_extras (fd_io d))(addr \<mapsto> e)\<rparr>\<rparr>))"

subsection \<open>TMS shifts\<close>

definition tms_cmd :: "bool \<Rightarrow> u8 list \<Rightarrow> int \<Rightarrow> int \<Rightarrow> u8 list c_res" where
  "tms_cmd tdiLevel tms fromBitIdx bitsToTransfer =
     c_bind (copy_bits tms fromBitIdx [push_bit 7 (if tdiLevel then 1 else 0)] 0 bitsToTransfer True)
       (\<lambda>data. Ok ([op_tms, word_of_int (bitsToTransfer - 1)] @ data))"

function append_tms_loop ::
  "'w d2xx \<Rightarrow> u8 list \<Rightarrow> int \<Rightarrow> int \<Rightarrow> 'w ftdi \<Rightarrow> (bool \<times> 'w ftdi) c_res" where
  "append_tms_loop dx tms fromBitIdx toBitIdx d =
     (if fromBitIdx < toBitIdx then
        let bitsToTransfer = c_min (toBitIdx - fromBitIdx) 6 in
        c_bind (tms_cmd (lastTdi d) tms fromBitIdx bitsToTransfer) (\<lambda>cmd.
        c_bind (on_buffer (\<lambda>b i. ft_buffer_add_write_to_chip dx b i cmd 3) d) (\<lambda>(ok, d').
          if \<not> ok then Ok (False, d')
          else append_tms_loop dx tms (fromBitIdx + bitsToTransfer) toBitIdx d'))
      else Ok (True, d))"
  by pat_completeness auto
termination
  by (relation "measure (\<lambda>(dx, tms, f, t, d). nat (t - f))") (auto simp: c_min_def)

declare append_tms_loop.simps [simp del]

definition append_tms_shift_to_transaction ::
  "'w d2xx \<Rightarrow> u8 list \<Rightarrow> int \<Rightarrow> int \<Rightarrow> 'w ftdi \<Rightarrow> (bool \<times> 'w ftdi) c_res" where
  "append_tms_shift_to_transaction dx tms fromBitIdx toBitIdx d =
     c_bind (c_assert (fromBitIdx \<ge> 0)) (\<lambda>_.
     c_bind (c_assert (toBitIdx \<ge> 0)) (\<lambda>_.
     c_bind (c_assert (toBitIdx > fromBitIdx)) (\<lambda>_.
       append_tms_loop dx tms fromBitIdx toBitIdx d)))"

subsection \<open>TDI shifts\<close>

text \<open>The ranges a TDI shift is divided into.\<close>

definition lastBitIdx :: "int \<Rightarrow> int" where
  "lastBitIdx toBitIdx = toBitIdx - 1"

definition numRegularBits :: "int \<Rightarrow> int \<Rightarrow> int" where
  "numRegularBits fromBitIdx toBitIdx = lastBitIdx toBitIdx - fromBitIdx"

definition numLeadingBits :: "int \<Rightarrow> int \<Rightarrow> int" where
  "numLeadingBits fromBitIdx toBitIdx =
     (let numFirstOctetBits = 8 - fromBitIdx smod 8 in
      c_min (if numFirstOctetBits = 8 then 0 else numFirstOctetBits)
        (numRegularBits fromBitIdx toBitIdx))"

definition leadingOnly :: "int \<Rightarrow> int \<Rightarrow> bool" where
  "leadingOnly fromBitIdx toBitIdx \<longleftrightarrow>
     numLeadingBits fromBitIdx toBitIdx = numRegularBits fromBitIdx toBitIdx"

definition innerBeginIdx :: "int \<Rightarrow> int \<Rightarrow> int" where
  "innerBeginIdx fromBitIdx toBitIdx =
     (if leadingOnly fromBitIdx toBitIdx then - 1
      else fromBitIdx + numLeadingBits fromBitIdx toBitIdx)"

definition innerEndIdx :: "int \<Rightarrow> int \<Rightarrow> int" where
  "innerEndIdx fromBitIdx toBitIdx =
     (if leadingOnly fromBitIdx toBitIdx then - 1
      else lastBitIdx toBitIdx - lastBitIdx toBitIdx smod 8)"

definition numTrailingBits :: "int \<Rightarrow> int \<Rightarrow> int" where
  "numTrailingBits fromBitIdx toBitIdx =
     (if leadingOnly fromBitIdx toBitIdx then 0 else lastBitIdx toBitIdx smod 8)"

text \<open>One command with read back to a bit range of \<open>tdo\<close>; the three bit-mode commands end like
  this.\<close>

definition read_back_bits ::
  "'w d2xx \<Rightarrow> u8 list \<Rightarrow> bit_copier_extra \<Rightarrow> 'w ftdi \<Rightarrow> (bool \<times> 'w ftdi) c_res" where
  "read_back_bits dx cmd e d =
     c_bind (new_extra e d) (\<lambda>(a, d').
       on_buffer (\<lambda>b i.
         ft_buffer_add_write_to_chip_with_readback dx b i cmd 3 (Some (Bit_copier a)) 1) d')"

definition tdi_leading ::
  "'w d2xx \<Rightarrow> u8 list \<Rightarrow> buf_ref \<Rightarrow> int \<Rightarrow> int \<Rightarrow> int \<Rightarrow> 'w ftdi \<Rightarrow> (bool \<times> int \<times> 'w ftdi) c_res"
where
  "tdi_leading dx tdi tdo fromBitIdx toBitIdx curIdx d =
     (let n = numLeadingBits fromBitIdx toBitIdx in
      if curIdx = fromBitIdx \<and> n > 0 then
        c_bind (rd_at tdi (fromBitIdx sdiv 8)) (\<lambda>octet.
        c_bind (read_back_bits dx
            [op_bits, word_of_int (n - 1), drop_bit (nat (fromBitIdx smod 8)) octet]
            \<lparr>bx_fromBit = 8 - n, bx_dst = tdo, bx_toBit = fromBitIdx, bx_numBits = n\<rparr> d)
          (\<lambda>(ok, d'). if \<not> ok then Ok (False, curIdx, d') else Ok (True, curIdx + n, d')))
      else Ok (True, curIdx, d))"

definition tdi_inner ::
  "'w d2xx \<Rightarrow> u8 list \<Rightarrow> buf_ref \<Rightarrow> int \<Rightarrow> int \<Rightarrow> int \<Rightarrow> 'w ftdi \<Rightarrow> (bool \<times> int \<times> 'w ftdi) c_res"
where
  "tdi_inner dx tdi tdo fromBitIdx toBitIdx curIdx d =
     (if curIdx < innerEndIdx fromBitIdx toBitIdx then
        c_bind (c_assert (innerBeginIdx fromBitIdx toBitIdx smod 8 = 0)) (\<lambda>_.
        c_bind (c_assert (innerEndIdx fromBitIdx toBitIdx smod 8 = 0)) (\<lambda>_.
        c_bind (c_assert (curIdx smod 8 = 0)) (\<lambda>_.
          let innerOctetsToSend =
                c_min ((innerEndIdx fromBitIdx toBitIdx - curIdx) sdiv 8) (chipBufferBytes d);
              cmd = [op_octets, word_of_int (innerOctetsToSend - 1),
                     word_of_int ((innerOctetsToSend - 1) div 256)]
          in c_bind (on_buffer (\<lambda>b i. ft_buffer_add_write_to_chip dx b i cmd 3) d) (\<lambda>(ok, d').
               if \<not> ok then Ok (False, curIdx, d')
               else c_bind (on_buffer (\<lambda>b i.
                      ft_buffer_add_write_to_chip_with_readback_simple dx b i
                        (drop (nat (curIdx sdiv 8)) tdi) innerOctetsToSend
                        tdo (curIdx sdiv 8) innerOctetsToSend) d') (\<lambda>(ok, d'').
                 if \<not> ok then Ok (False, curIdx, d'')
                 else Ok (True, curIdx + innerOctetsToSend * 8, d''))))))
      else Ok (True, curIdx, d))"

definition tdi_trailing ::
  "'w d2xx \<Rightarrow> u8 list \<Rightarrow> buf_ref \<Rightarrow> int \<Rightarrow> int \<Rightarrow> int \<Rightarrow> 'w ftdi \<Rightarrow> (bool \<times> int \<times> 'w ftdi) c_res"
where
  "tdi_trailing dx tdi tdo fromBitIdx toBitIdx curIdx d =
     (let n = numTrailingBits fromBitIdx toBitIdx; e = innerEndIdx fromBitIdx toBitIdx in
      if curIdx = e \<and> n > 0 then
        c_bind (rd_at tdi (e sdiv 8)) (\<lambda>octet.
        c_bind (read_back_bits dx [op_bits, word_of_int (n - 1), octet]
            \<lparr>bx_fromBit = 8 - n, bx_dst = tdo, bx_toBit = e, bx_numBits = n\<rparr> d)
          (\<lambda>(ok, d'). if \<not> ok then Ok (False, curIdx, d') else Ok (True, curIdx + n, d')))
      else Ok (True, curIdx, d))"

definition tdi_last ::
  "'w d2xx \<Rightarrow> u8 list \<Rightarrow> buf_ref \<Rightarrow> int \<Rightarrow> bool \<Rightarrow> int \<Rightarrow> 'w ftdi \<Rightarrow> (bool \<times> int \<times> 'w ftdi) c_res"
where
  "tdi_last dx tdi tdo toBitIdx lastTmsBitHigh curIdx d =
     (let l = lastBitIdx toBitIdx in
      if curIdx = l then
        c_bind (get_bit tdi l) (\<lambda>lastTdiBit.
        let t = (if lastTmsBitHigh then 1 else 0 :: u8) in
        c_bind (read_back_bits dx
            [op_last, 0, push_bit 7 (if lastTdiBit then 1 else 0) OR push_bit 1 t OR t]
            \<lparr>bx_fromBit = 7, bx_dst = tdo, bx_toBit = l, bx_numBits = 1\<rparr> d)
          (\<lambda>(ok, d').
             if \<not> ok then Ok (False, curIdx, d')
             else Ok (True, curIdx + 1, d'\<lparr>lastTdi := lastTdiBit\<rparr>)))
      else Ok (True, curIdx, d))"

text \<open>One iteration of the loop; a step that fails returns from the function.\<close>

definition and_then ::
  "(bool \<times> int \<times> 'w ftdi) c_res \<Rightarrow> (int \<Rightarrow> 'w ftdi \<Rightarrow> (bool \<times> int \<times> 'w ftdi) c_res) \<Rightarrow>
   (bool \<times> int \<times> 'w ftdi) c_res" where
  "and_then m f = c_bind m (\<lambda>(ok, curIdx, d). if \<not> ok then Ok (False, curIdx, d) else f curIdx d)"

definition tdi_iteration ::
  "'w d2xx \<Rightarrow> u8 list \<Rightarrow> buf_ref \<Rightarrow> int \<Rightarrow> int \<Rightarrow> bool \<Rightarrow> int \<Rightarrow> 'w ftdi \<Rightarrow>
   (bool \<times> int \<times> 'w ftdi) c_res" where
  "tdi_iteration dx tdi tdo fromBitIdx toBitIdx lastTmsBitHigh curIdx d =
     and_then (tdi_leading dx tdi tdo fromBitIdx toBitIdx curIdx d) (\<lambda>curIdx d.
     and_then (if curIdx < lastBitIdx toBitIdx
               then and_then (tdi_inner dx tdi tdo fromBitIdx toBitIdx curIdx d)
                      (tdi_trailing dx tdi tdo fromBitIdx toBitIdx)
               else Ok (True, curIdx, d)) (\<lambda>curIdx d.
       tdi_last dx tdi tdo toBitIdx lastTmsBitHigh curIdx d))"

text \<open>Every iteration of a sane buffer transfers a bit, so \<open>toBitIdx - fromBitIdx\<close> of them are
  enough.\<close>

primrec append_tdi_loop ::
  "nat \<Rightarrow> 'w d2xx \<Rightarrow> u8 list \<Rightarrow> buf_ref \<Rightarrow> int \<Rightarrow> int \<Rightarrow> bool \<Rightarrow> int \<Rightarrow> 'w ftdi \<Rightarrow>
   (bool \<times> 'w ftdi) c_res" where
  "append_tdi_loop 0 dx tdi tdo fromBitIdx toBitIdx lastTmsBitHigh curIdx d =
     (if curIdx < toBitIdx then Fault OutOfFuel else Ok (True, d))"
| "append_tdi_loop (Suc n) dx tdi tdo fromBitIdx toBitIdx lastTmsBitHigh curIdx d =
     (if curIdx < toBitIdx
      then c_bind (tdi_iteration dx tdi tdo fromBitIdx toBitIdx lastTmsBitHigh curIdx d)
             (\<lambda>(ok, curIdx', d').
               if \<not> ok then Ok (False, d')
               else append_tdi_loop n dx tdi tdo fromBitIdx toBitIdx lastTmsBitHigh curIdx' d')
      else Ok (True, d))"

definition append_tdi_shift_to_transaction ::
  "'w d2xx \<Rightarrow> u8 list \<Rightarrow> buf_ref \<Rightarrow> int \<Rightarrow> int \<Rightarrow> bool \<Rightarrow> 'w ftdi \<Rightarrow> (bool \<times> 'w ftdi) c_res" where
  "append_tdi_shift_to_transaction dx tdi tdo fromBitIdx toBitIdx lastTmsBitHigh d =
     c_bind (c_assert (fromBitIdx \<ge> 0)) (\<lambda>_.
     c_bind (c_assert (toBitIdx \<ge> 0)) (\<lambda>_.
     c_bind (c_assert (toBitIdx > fromBitIdx)) (\<lambda>_.
       append_tdi_loop (nat (toBitIdx - fromBitIdx)) dx tdi tdo fromBitIdx toBitIdx
         lastTmsBitHigh fromBitIdx d)))"

fun jtag_splitter_callback :: "'w d2xx \<Rightarrow> 'w ftdi splitter_callback" where
  "jtag_splitter_callback dx (Shift_tms tms fromBitIdx toBitIdx) d =
     append_tms_shift_to_transaction dx tms fromBitIdx toBitIdx d"
| "jtag_splitter_callback dx (Shift_tdi tdi tdo fromBitIdx toBitIdx incomplete) d =
     append_tdi_shift_to_transaction dx tdi tdo fromBitIdx toBitIdx (\<not> incomplete) d"
| "jtag_splitter_callback dx Flush_all d =
     c_bind (on_buffer (ft_buffer_flush dx) d) (\<lambda>(res, d').
       Ok (res, d'\<lparr>fd_pool := txvc_mempool_reclaim_all (fd_pool d')\<rparr>))"

end
