(* ===== verification/Mpsse_Chip.thy ===== *)
theory Mpsse_Chip
  imports Ftdi_Buffer
begin

text \<open>
  A reference for the far end of the command buffer, the MPSSE engine of the FTDI chip with a
  JTAG target on its pins, as FTDI's application note AN 108 documents the commands the driver
  uses. It is the specification the driver is proved against, not a part of the program.

  The target is a function of the levels of TMS and TDI at a rising TCK edge: the level of TDO
  sampled there, and the target afterwards. The engine collects the bytes of a command and
  executes it when it is complete. Bits read back are shifted into a register from its most
  significant end. After a TMS command the line keeps the level of the bit that follows the last
  one shifted, which is why the driver duplicates that one. Any other opcode is answered by
  \<open>0xfa\<close> and the opcode itself. The chip also keeps the levels and directions of its D bus as they
  were set last, the mode it was put into over USB, and whether it is open.

  A command buffer together with the chip is then described by what a flush would make of it:
  \<open>linked_view\<close>, which flushing leaves unchanged and queueing a command changes the way the
  command says.
\<close>

type_synonym 'd target = "bool \<Rightarrow> bool \<Rightarrow> 'd \<Rightarrow> bool \<times> 'd"

record 'd chip =
  ch_acc :: "u8 list"
  ch_out :: "u8 list"
  ch_reg :: u8
  ch_tms :: bool
  ch_divisor :: int
  ch_fast :: bool
  ch_pins :: "u8 \<times> u8"
  ch_mode :: u8
  ch_open :: bool
  ch_dev :: 'd

fun clocks :: "'d target \<Rightarrow> (bool \<times> bool) list \<Rightarrow> 'd \<Rightarrow> bool list \<times> 'd" where
  "clocks clk [] s = ([], s)"
| "clocks clk ((tms, tdi) # cs) s =
     (case clk tms tdi s of (o', s1) \<Rightarrow> case clocks clk cs s1 of (os, s2) \<Rightarrow> (o' # os, s2))"

definition shift_reg :: "u8 \<Rightarrow> bool list \<Rightarrow> u8" where
  "shift_reg r bs = foldl (\<lambda>r b. drop_bit 1 r OR (if b then 0x80 else 0)) r bs"

definition do_clocks :: "'d target \<Rightarrow> (bool \<times> bool) list \<Rightarrow> 'd chip \<Rightarrow> bool list \<times> 'd chip" where
  "do_clocks clk cs c = (case clocks clk cs (ch_dev c) of (os, s) \<Rightarrow>
     (os, c\<lparr>ch_dev := s, ch_reg := shift_reg (ch_reg c) os\<rparr>))"

definition chip_answer :: "'d chip \<Rightarrow> 'd chip" where
  "chip_answer c = c\<lparr>ch_out := ch_out c @ [ch_reg c]\<rparr>"

text \<open>The bits of the data byte of a TMS command, and of a TDI command.\<close>

definition tms_clocks :: "u8 \<Rightarrow> u8 \<Rightarrow> (bool \<times> bool) list" where
  "tms_clocks n v = map (\<lambda>i. (bit v i, bit v 7)) [0..<Suc (unat n)]"

definition tdi_clocks :: "bool \<Rightarrow> nat \<Rightarrow> u8 \<Rightarrow> (bool \<times> bool) list" where
  "tdi_clocks tms n v = map (\<lambda>i. (tms, bit v i)) [0..<n]"

definition chip_octet :: "'d target \<Rightarrow> u8 \<Rightarrow> 'd chip \<Rightarrow> 'd chip" where
  "chip_octet clk v c = chip_answer (snd (do_clocks clk (tdi_clocks (ch_tms c) 8 v) c))"

definition octet_count :: "u8 list \<Rightarrow> nat" where
  "octet_count args = unat (args ! 0) + 256 * unat (args ! 1) + 1"

definition command_complete :: "u8 list \<Rightarrow> bool" where
  "command_complete acc \<longleftrightarrow> (case acc of [] \<Rightarrow> False
     | op # args \<Rightarrow>
         if op = 0x4b \<or> op = 0x6b \<or> op = 0x3b \<or> op = 0x80 \<or> op = 0x86 then 2 \<le> length args
         else if op = 0x39 then 2 \<le> length args \<and> 2 + octet_count args \<le> length args
         else True)"

definition chip_exec :: "'d target \<Rightarrow> u8 \<Rightarrow> u8 list \<Rightarrow> 'd chip \<Rightarrow> 'd chip" where
  "chip_exec clk op args c =
     (if op = 0x4b then
        (snd (do_clocks clk (tms_clocks (args ! 0) (args ! 1)) c))
          \<lparr>ch_tms := bit (args ! 1) (Suc (unat (args ! 0)))\<rparr>
      else if op = 0x6b then
        (chip_answer (snd (do_clocks clk (tms_clocks (args ! 0) (args ! 1)) c)))
          \<lparr>ch_tms := bit (args ! 1) (Suc (unat (args ! 0)))\<rparr>
      else if op = 0x3b then
        chip_answer (snd (do_clocks clk
          (tdi_clocks (ch_tms c) (Suc (unat (args ! 0))) (args ! 1)) c))
      else if op = 0x39 then fold (chip_octet clk) (drop 2 args) c
      else if op = 0x80 then c\<lparr>ch_tms := bit (args ! 0) 3, ch_pins := (args ! 0, args ! 1)\<rparr>
      else if op = 0x86 then
        c\<lparr>ch_divisor := uint (args ! 0) + 256 * uint (args ! 1)\<rparr>
      else if op = 0x8a then c\<lparr>ch_fast := True\<rparr>
      else c\<lparr>ch_out := ch_out c @ [0xfa, op]\<rparr>)"

definition chip_byte :: "'d target \<Rightarrow> u8 \<Rightarrow> 'd chip \<Rightarrow> 'd chip" where
  "chip_byte clk b c =
     (let acc = ch_acc c @ [b] in
      if command_complete acc then chip_exec clk (hd acc) (tl acc) (c\<lparr>ch_acc := []\<rparr>)
      else c\<lparr>ch_acc := acc\<rparr>)"

definition chip_feed :: "'d target \<Rightarrow> u8 list \<Rightarrow> 'd chip \<Rightarrow> 'd chip" where
  "chip_feed clk bs c = fold (chip_byte clk) bs c"

lemma chip_feed_simps [simp]:
  "chip_feed clk [] c = c" "chip_feed clk (b # bs) c = chip_feed clk bs (chip_byte clk b c)"
  "chip_feed clk (as @ bs) c = chip_feed clk bs (chip_feed clk as c)"
  by (simp_all add: chip_feed_def)

text \<open>A D2XX library with this chip behind it, of which \<open>FT_Write\<close> and \<open>FT_Read\<close> transfer
  everything they are asked to.\<close>

definition chip_d2xx :: "'d target \<Rightarrow> 'd chip d2xx \<Rightarrow> bool" where
  "chip_d2xx clk dx \<longleftrightarrow>
     (\<forall>h bs w. FT_Write dx h bs w = (FT_OK, of_nat (length bs), chip_feed clk bs w)) \<and>
     (\<forall>h n w. unat n \<le> length (ch_out w) \<longrightarrow> FT_Read dx h n w =
        (FT_OK, take (unat n) (ch_out w), n, w\<lparr>ch_out := drop (unat n) (ch_out w)\<rparr>))"

subsection \<open>Clocking\<close>

lemma length_clocks [simp]: "length (fst (clocks clk cs s)) = length cs"
  by (induction clk cs s rule: clocks.induct) (auto split: prod.splits)

lemma clocks_append:
  "clocks clk (cs @ ds) s = (case clocks clk cs s of (os, s1) \<Rightarrow>
     case clocks clk ds s1 of (ps, s2) \<Rightarrow> (os @ ps, s2))"
  by (induction clk cs s rule: clocks.induct) (auto split: prod.splits)

lemma shift_reg_append [simp]: "shift_reg r (as @ bs) = shift_reg (shift_reg r as) bs"
  by (simp add: shift_reg_def)

lemma do_clocks_append:
  "do_clocks clk (cs @ ds) c = (case do_clocks clk cs c of (os, c1) \<Rightarrow>
     case do_clocks clk ds c1 of (ps, c2) \<Rightarrow> (os @ ps, c2))"
  by (simp add: do_clocks_def clocks_append split: prod.splits)

lemma do_clocks_Nil [simp]: "do_clocks clk [] c = ([], c)"
  by (simp add: do_clocks_def shift_reg_def)

lemma length_do_clocks [simp]: "length (fst (do_clocks clk cs c)) = length cs"
  using length_clocks [of clk cs "ch_dev c"]
  by (cases "clocks clk cs (ch_dev c)") (simp add: do_clocks_def)

lemma do_clocks_fields [simp]:
  "ch_acc (snd (do_clocks clk cs c)) = ch_acc c" "ch_out (snd (do_clocks clk cs c)) = ch_out c"
  "ch_tms (snd (do_clocks clk cs c)) = ch_tms c"
  "ch_divisor (snd (do_clocks clk cs c)) = ch_divisor c"
  "ch_fast (snd (do_clocks clk cs c)) = ch_fast c"
  "ch_pins (snd (do_clocks clk cs c)) = ch_pins c" "ch_mode (snd (do_clocks clk cs c)) = ch_mode c"
  "ch_open (snd (do_clocks clk cs c)) = ch_open c"
  by (simp_all add: do_clocks_def split: prod.splits)

lemma do_clocks_other [simp]:
  "do_clocks clk cs (c\<lparr>ch_out := out\<rparr>)
     = (fst (do_clocks clk cs c), (snd (do_clocks clk cs c))\<lparr>ch_out := out\<rparr>)"
  "do_clocks clk cs (c\<lparr>ch_acc := acc\<rparr>)
     = (fst (do_clocks clk cs c), (snd (do_clocks clk cs c))\<lparr>ch_acc := acc\<rparr>)"
  "do_clocks clk cs (c\<lparr>ch_tms := t\<rparr>)
     = (fst (do_clocks clk cs c), (snd (do_clocks clk cs c))\<lparr>ch_tms := t\<rparr>)"
  by (simp_all add: do_clocks_def split: prod.splits)

text \<open>The last bits shifted are the most significant ones of the register, in order.\<close>

lemma bit_shift_reg:
  "length bs \<le> 8 \<Longrightarrow> k < 8 \<Longrightarrow> bit (shift_reg r bs) k
     = (if 8 - length bs \<le> k then bs ! (k - (8 - length bs)) else bit r (k + length bs))"
proof (induction bs arbitrary: k rule: rev_induct)
  case (snoc b bs)
  have "bit (shift_reg r (bs @ [b])) k = (if k = 7 then b else bit (shift_reg r bs) (Suc k))"
  proof -
    have "bit (0x80 :: u8) j \<longleftrightarrow> j = 7" for j
      using bit_exp_iff [where 'a = u8, of 7 j] by (auto simp: exp_eq_zero_iff)
    moreover have "\<not> bit (shift_reg r bs) 8" by (simp add: bit_word.rep_eq)
    ultimately show ?thesis
      by (auto simp: shift_reg_def bit_or_iff bit_drop_bit_eq)
  qed
  then show ?case
    using snoc.prems snoc.IH [of "Suc k"] by (auto simp: nth_append)
qed (simp add: shift_reg_def)

lemma vbits_shift_reg:
  assumes "length bs \<le> 8"
  shows "vbits [shift_reg r bs] (8 - length bs) 8 = bs"
  using assms by (intro nth_equalityI) (auto simp: vbit_def bit_shift_reg)

subsection \<open>Feeding the chip\<close>

lemma chip_exec_out:
  "chip_exec clk op args (c\<lparr>ch_out := xs @ ch_out c\<rparr>)
     = (chip_exec clk op args c)\<lparr>ch_out := xs @ ch_out (chip_exec clk op args c)\<rparr>"
proof -
  have "fold (chip_octet clk) vs (c\<lparr>ch_out := xs @ ch_out c\<rparr>)
      = (fold (chip_octet clk) vs c)\<lparr>ch_out := xs @ ch_out (fold (chip_octet clk) vs c)\<rparr>" for vs
  proof (induction vs arbitrary: c)
    case (Cons v vs)
    have "chip_octet clk v (c\<lparr>ch_out := xs @ ch_out c\<rparr>)
        = (chip_octet clk v c)\<lparr>ch_out := xs @ ch_out (chip_octet clk v c)\<rparr>"
      by (simp add: chip_octet_def chip_answer_def)
    then show ?case using Cons by simp
  qed simp
  then show ?thesis by (simp add: chip_exec_def chip_answer_def)
qed

lemma chip_feed_out:
  "chip_feed clk bs (c\<lparr>ch_out := xs @ ch_out c\<rparr>)
     = (chip_feed clk bs c)\<lparr>ch_out := xs @ ch_out (chip_feed clk bs c)\<rparr>"
proof (induction bs arbitrary: c)
  case (Cons b bs)
  have sw: "c\<lparr>ch_out := ys, ch_acc := []\<rparr> = c\<lparr>ch_acc := [], ch_out := ys\<rparr>" for ys
    by (cases c) simp
  have "chip_byte clk b (c\<lparr>ch_out := xs @ ch_out c\<rparr>)
      = (chip_byte clk b c)\<lparr>ch_out := xs @ ch_out (chip_byte clk b c)\<rparr>"
    using chip_exec_out [of clk _ _ xs "c\<lparr>ch_acc := []\<rparr>"] by (simp add: chip_byte_def Let_def sw)
  then show ?case using Cons by simp
qed simp

lemma chip_feed_split:
  "chip_feed clk bs c = (chip_feed clk bs (c\<lparr>ch_out := []\<rparr>))
     \<lparr>ch_out := ch_out c @ ch_out (chip_feed clk bs (c\<lparr>ch_out := []\<rparr>))\<rparr>"
  using chip_feed_out [of clk bs "ch_out c" "c\<lparr>ch_out := []\<rparr>"] by simp

text \<open>The commands of three bytes, from an idle engine.\<close>

lemma chip_feed_command3:
  assumes "ch_acc c = []" "op = 0x4b \<or> op = 0x6b \<or> op = 0x3b \<or> op = 0x80 \<or> op = 0x86"
  shows "chip_feed clk [op, a, v] c = chip_exec clk op [a, v] c"
proof -
  have "command_complete [op, a, v]" "\<not> command_complete [op, a]" "\<not> command_complete [op]"
    using assms(2) by (auto simp: command_complete_def)
  moreover have idle: "c\<lparr>ch_acc := []\<rparr> = c" using assms(1) by simp
  ultimately show ?thesis
    using assms(1) by (simp add: chip_byte_def) (simp only: idle)
qed

lemma chip_feed_octets_header:
  assumes "ch_acc c = []"
  shows "chip_feed clk [0x39, lo, hi] c = c\<lparr>ch_acc := [0x39, lo, hi]\<rparr>"
  using assms by (simp add: chip_byte_def command_complete_def octet_count_def)

lemma chip_feed_octets_data:
  assumes "ch_acc c = [0x39, lo, hi]" "length vs = octet_count [lo, hi]"
  shows "chip_feed clk vs c = fold (chip_octet clk) vs (c\<lparr>ch_acc := []\<rparr>)"
proof -
  have part: "length us < octet_count [lo, hi] \<Longrightarrow>
      chip_feed clk us c = c\<lparr>ch_acc := [0x39, lo, hi] @ us\<rparr>" for us
  proof (induction us rule: rev_induct)
    case (snoc u us)
    then have "\<not> command_complete ([0x39, lo, hi] @ us @ [u])"
      by (simp add: command_complete_def octet_count_def)
    with snoc show ?case by (simp add: chip_byte_def)
  qed (use assms(1) in simp)
  obtain us u where vs: "vs = us @ [u]"
    using assms(2) by (cases vs rule: rev_cases) (auto simp: octet_count_def)
  then have "chip_feed clk us c = c\<lparr>ch_acc := [0x39, lo, hi] @ us\<rparr>"
    using assms(2) by (intro part) simp
  moreover have "command_complete ([0x39, lo, hi] @ us @ [u])"
    using assms(2) by (simp add: command_complete_def octet_count_def vs)
  ultimately show ?thesis
    by (simp add: vs chip_byte_def chip_exec_def)
qed

subsection \<open>A buffer linked to the chip\<close>

type_synonym 'd view = "'d chip \<times> (buf_ref \<Rightarrow> u8 list option)"

definition linked_view :: "'d target \<Rightarrow> ft_buffer \<Rightarrow> 'd chip io \<Rightarrow> 'd view" where
  "linked_view clk b i = (let c = chip_feed clk (pend_tx b) (world i) in
     (c\<lparr>ch_out := []\<rparr>, deliver (bit_extras i) (ch_out c) (rxObservers b) (mem i)))"

definition linked :: "'d target \<Rightarrow> ft_buffer \<Rightarrow> 'd chip io \<Rightarrow> bool" where
  "linked clk b i \<longleftrightarrow> int (length (ch_out (chip_feed clk (pend_tx b) (world i)))) = rxNumBytes b"

text \<open>The effect of a command and its observer on the view.\<close>

definition view_step ::
  "'d target \<Rightarrow> (u64 \<Rightarrow> bit_copier_extra option) \<Rightarrow> u8 list \<Rightarrow> rx_observer option \<Rightarrow> int \<Rightarrow>
   'd view \<Rightarrow> 'd view" where
  "view_step clk ex bytes observer m v = (case v of (c, mm) \<Rightarrow>
     let c1 = chip_feed clk bytes c in
     (c1\<lparr>ch_out := []\<rparr>, deliver ex (ch_out c1) (new_node observer 0 m) mm))"

lemma chip_d2xx_read_all:
  assumes "chip_d2xx clk dx" "int (length (ch_out w)) = n" "n \<le> 65536"
  shows "FT_Read dx h (word_of_int n) w = (FT_OK, ch_out w, word_of_int n, w\<lparr>ch_out := []\<rparr>)"
proof -
  have "unat (word_of_int n :: u32) = length (ch_out w)"
    using assms(2,3) unat_count [of n] by simp
  then show ?thesis using assms(1) by (simp add: chip_d2xx_def)
qed

lemma flush_chip:
  assumes inv: "buf_inv (bit_extras i) (mem_size (mem i)) b" and chip: "chip_d2xx clk dx"
    and link: "linked clk b i"
  shows "\<exists>b' i'. ft_buffer_flush dx b i = Ok (True, b', i') \<and> world i' = fst (linked_view clk b i)
    \<and> mem i' = snd (linked_view clk b i) \<and> bit_extras i' = bit_extras i
    \<and> txBuffer b' = None \<and> rxBuffer b' = None
    \<and> rxObservers b' = [] \<and> rxNumBytes b' = 0"
proof -
  let ?c = "chip_feed clk (pend_tx b) (world i)"
  have tx: "flush_tx dx b i = Ok (True, b\<lparr>txBuffer := None, txNumBytes := 0\<rparr>, i\<lparr>world := ?c\<rparr>)"
  proof (cases "txBuffer b")
    case None
    then have "b\<lparr>txBuffer := None, txNumBytes := 0\<rparr> = b" using inv by (simp add: buf_inv_def)
    with None show ?thesis by (simp add: flush_tx_def pend_tx_def)
  next
    case (Some tx)
    have "c_slice tx 0 (txNumBytes b) = Ok (pend_tx b)"
      using inv Some by (simp add: buf_inv_def c_slice_def pend_tx_def)
    moreover have "word_of_int (txNumBytes b) = (of_nat (length (pend_tx b)) :: u32)"
      using inv Some nonneg_int_cases [of "txNumBytes b"]
      by (force simp: buf_inv_def pend_tx_def)
    ultimately show ?thesis
      using chip Some by (simp add: flush_tx_def chip_d2xx_def Let_def)
  qed
  let ?b = "b\<lparr>txBuffer := None, txNumBytes := 0\<rparr>"
  have rx: "\<exists>b' i'. flush_rx dx ?b (i\<lparr>world := ?c\<rparr>) = Ok (True, b', i')
      \<and> world i' = fst (linked_view clk b i) \<and> mem i' = snd (linked_view clk b i)
      \<and> bit_extras i' = bit_extras i \<and> txBuffer b' = None \<and> rxBuffer b' = None
      \<and> rxObservers b' = [] \<and> rxNumBytes b' = 0"
  proof (cases "rxBuffer b")
    case None
    then have "rxObservers b = []" "rxNumBytes b = 0" using inv by (simp_all add: buf_inv_def)
    moreover from this link have "ch_out ?c = []" by (simp add: linked_def)
    ultimately show ?thesis
      using None by (simp add: flush_rx_def linked_view_def deliver_def)
  next
    case (Some rx)
    have read: "FT_Read dx h (word_of_int (rxNumBytes b)) ?c
        = (FT_OK, ch_out ?c, word_of_int (rxNumBytes b), ?c\<lparr>ch_out := []\<rparr>)" for h
      using link inv by (intro chip_d2xx_read_all [OF chip]) (auto simp: linked_def buf_inv_def)
    have le: "length (ch_out ?c) \<le> length rx"
      using inv Some link by (auto simp: buf_inv_def linked_def)
    then have blit: "blit rx 0 (ch_out ?c) = Ok (overlay rx 0 (ch_out ?c))"
      using blit_ok [of 0 "ch_out ?c" rx] by simp
    have nodes: "list_all (node_ok (bit_extras i) (mem_size (mem i)) (int (length (ch_out ?c))))
        (rxObservers b)"
      using inv link by (simp add: linked_def buf_inv_def)
    have "int (length (ch_out ?c)) \<le> int (length (overlay rx 0 (ch_out ?c)))" using le by simp
    with nodes have "list_all (node_ok (bit_extras i) (mem_size (mem i))
        (int (length (overlay rx 0 (ch_out ?c))))) (rxObservers b)"
      unfolding list_all_iff using node_ok_mono by blast
    then have "run_observers (overlay rx 0 (ch_out ?c)) (rxObservers b) (i\<lparr>world := ?c\<lparr>ch_out := []\<rparr>\<rparr>)
        = Ok (i\<lparr>world := ?c\<lparr>ch_out := []\<rparr>,
            mem := deliver (bit_extras i) (overlay rx 0 (ch_out ?c)) (rxObservers b) (mem i)\<rparr>)"
      using run_observers_ok [of "i\<lparr>world := ?c\<lparr>ch_out := []\<rparr>\<rparr>"] by simp
    moreover have "deliver (bit_extras i) (overlay rx 0 (ch_out ?c)) (rxObservers b) (mem i)
        = deliver (bit_extras i) (ch_out ?c) (rxObservers b) (mem i)"
      unfolding overlay_def using deliver_more [OF nodes] by simp
    ultimately show ?thesis
      using Some by (simp add: flush_rx_def read blit Let_def linked_view_def)
  qed
  then obtain b' i' where fl: "flush_rx dx ?b (i\<lparr>world := ?c\<rparr>) = Ok (True, b', i')"
      "world i' = fst (linked_view clk b i)" "mem i' = snd (linked_view clk b i)"
      "bit_extras i' = bit_extras i" "txBuffer b' = None" "rxBuffer b' = None"
      "rxObservers b' = []" "rxNumBytes b' = 0" by blast
  then show ?thesis
    by (intro exI [of _ "b'\<lparr>fb_pool := txvc_mempool_reclaim_all (fb_pool b')\<rparr>"] exI [of _ i'])
       (simp add: ft_buffer_flush_def tx)
qed

lemma ensure_chip:
  assumes inv: "buf_inv (bit_extras i) (mem_size (mem i)) b" and chip: "chip_d2xx clk dx"
    and link: "linked clk b i" and ens: "ft_buffer_ensure_can_append dx b i n m = Ok (ok, b', i')"
  shows "ok \<and> linked clk b' i' \<and> linked_view clk b' i' = linked_view clk b i
    \<and> bit_extras i' = bit_extras i"
proof -
  from ens consider "ok" "b' = b" "i' = i" | "ft_buffer_flush dx b i = Ok (ok, b', i')"
    by (auto simp: ft_buffer_ensure_can_append_def split: if_splits)
  then show ?thesis
  proof cases
    case 1
    with link show ?thesis by simp
  next
    case 2
    from flush_chip [OF inv chip link] 2
    have "ok" "world i' = fst (linked_view clk b i)" "mem i' = snd (linked_view clk b i)"
      "txBuffer b' = None" "rxObservers b' = []" "rxNumBytes b' = 0"
      "bit_extras i' = bit_extras i"
      by auto
    moreover have "ch_out (fst (linked_view clk b i)) = []"
      by (simp add: linked_view_def Let_def)
    moreover from this have idle: "(fst (linked_view clk b i))\<lparr>ch_out := []\<rparr> = fst (linked_view clk b i)"
      by simp
    ultimately show ?thesis
      by (simp add: linked_def linked_view_def [of clk b'] pend_tx_def deliver_def)
         (simp only: idle prod.collapse)
  qed
qed

lemma node_bits_shift:
  assumes "fn_ok ex sz k fn"
  shows "node_bits ex (v @ w) \<lparr>ob_fn = fn, ob_data = int (length v)\<rparr>
    = node_bits ex w \<lparr>ob_fn = fn, ob_data = 0\<rparr>"
  using vbits_append2 [of v w] vbits_append2 [of v w 0]
  by (cases fn) (simp_all add: node_bits_def Let_def add.assoc)

lemma appended_chip:
  assumes link: "linked clk b i" and ap: "appended b b' data n observer m"
    and nodes: "list_all (node_ok (bit_extras i) sz (rxNumBytes b)) (rxObservers b)"
    and fn: "\<And>fn. 0 < m \<Longrightarrow> observer = Some fn \<Longrightarrow> fn_ok (bit_extras i) sz m fn"
    and answers: "int (length (ch_out (chip_feed clk (take (nat n) data) (fst (linked_view clk b i))))) = m"
  shows "linked clk b' i \<and> linked_view clk b' i
    = view_step clk (bit_extras i) (take (nat n) data) observer m (linked_view clk b i)"
proof -
  let ?c = "chip_feed clk (pend_tx b) (world i)" and ?bs = "take (nat n) data"
  let ?d = "chip_feed clk ?bs (?c\<lparr>ch_out := []\<rparr>)"
  have d: "chip_feed clk (pend_tx b') (world i) = ?d\<lparr>ch_out := ch_out ?c @ ch_out ?d\<rparr>"
    using ap chip_feed_split [of clk ?bs ?c] by (simp add: appended_def)
  have len: "int (length (ch_out ?c)) = rxNumBytes b" using link by (simp add: linked_def)
  have ans: "int (length (ch_out ?d)) = m" using answers by (simp add: linked_view_def Let_def)
  have "linked clk b' i" unfolding linked_def d using ap len ans by (simp add: appended_def)
  moreover have "deliver (bit_extras i) (ch_out ?c @ ch_out ?d) (rxObservers b) mm
      = deliver (bit_extras i) (ch_out ?c) (rxObservers b) mm" for mm
    using nodes by (intro deliver_more) (simp add: len)
  moreover have "deliver (bit_extras i) (ch_out ?c @ ch_out ?d) (new_node observer (rxNumBytes b) m) mm
      = deliver (bit_extras i) (ch_out ?d) (new_node observer 0 m) mm" for mm
    using fn node_bits_shift [of "bit_extras i" sz m _ "ch_out ?c" "ch_out ?d"]
    by (simp add: new_node_def deliver_def flip: len split: option.splits)
  ultimately show ?thesis
    unfolding linked_view_def d view_step_def Let_def
    using ap by (simp add: deliver_append appended_def)
qed

subsection \<open>The shift commands on the view\<close>

definition idle :: "'d view \<Rightarrow> bool" where
  "idle v \<longleftrightarrow> ch_acc (fst v) = [] \<and> ch_out (fst v) = []"

text \<open>Clocking TMS and TDI levels while the sampled bits go to bit \<open>t\<close> on of the buffer \<open>r\<close>, and
  clocking TMS levels at a constant level of TDI.\<close>

definition shift_view ::
  "'d target \<Rightarrow> buf_ref \<Rightarrow> nat \<Rightarrow> (bool \<times> bool) list \<Rightarrow> 'd view \<Rightarrow> 'd view" where
  "shift_view clk r t cs v = (case do_clocks clk cs (fst v) of (os, c) \<Rightarrow>
     (c, put_bits (r, t, os) (snd v)))"

definition tms_view :: "'d target \<Rightarrow> bool \<Rightarrow> bool list \<Rightarrow> 'd view \<Rightarrow> 'd view" where
  "tms_view clk tdi bs v =
     ((snd (do_clocks clk (map (\<lambda>b. (b, tdi)) bs) (fst v)))\<lparr>ch_tms := last bs\<rparr>, snd v)"

definition set_tms :: "bool \<Rightarrow> 'd view \<Rightarrow> 'd view" where
  "set_tms t v = ((fst v)\<lparr>ch_tms := t\<rparr>, snd v)"

lemma put_bits_Nil [simp]: "put_bits (r, t, []) m = m"
  by (auto simp: put_bits_def fun_eq_iff option.map_ident)

lemma put_bits_append:
  assumes "t + length as + length bs \<le> 8 * mem_size m r"
  shows "put_bits (r, t + length as, bs) (put_bits (r, t, as) m) = put_bits (r, t, as @ bs) m"
  using assms write_bits_append [of t as bs]
  by (auto simp: put_bits_def mem_size_def fun_eq_iff split: option.splits)

lemma shift_view_Nil [simp]: "shift_view clk r t [] v = v"
  by (simp add: shift_view_def)

lemma shift_view_append:
  assumes "t + length cs + length ds \<le> 8 * mem_size (snd v) r"
  shows "shift_view clk r (t + length cs) ds (shift_view clk r t cs v) = shift_view clk r t (cs @ ds) v"
proof -
  obtain os c1 where cs: "do_clocks clk cs (fst v) = (os, c1)" by fastforce
  obtain ps c2 where ds: "do_clocks clk ds c1 = (ps, c2)" by fastforce
  have len: "length os = length cs" "length ps = length ds"
    using length_do_clocks [of clk cs "fst v"] length_do_clocks [of clk ds c1]
    by (simp_all add: cs ds)
  then show ?thesis
    using assms put_bits_append [of t os ps "snd v" r]
    by (simp add: shift_view_def do_clocks_append cs ds)
qed

lemma shift_view_fields [simp]:
  "ch_acc (fst (shift_view clk r t cs v)) = ch_acc (fst v)"
  "ch_out (fst (shift_view clk r t cs v)) = ch_out (fst v)"
  "ch_tms (fst (shift_view clk r t cs v)) = ch_tms (fst v)"
  "mem_size (snd (shift_view clk r t cs v)) = mem_size (snd v)"
  using do_clocks_fields [of clk cs "fst v"]
  by (simp_all add: shift_view_def case_prod_unfold)

lemma tms_view_append:
  assumes "cs \<noteq> []"
  shows "tms_view clk tdi cs (tms_view clk tdi bs v) = tms_view clk tdi (bs @ cs) v"
  using assms by (simp add: tms_view_def do_clocks_append split: prod.splits)

lemma tms_view_fields [simp]:
  "ch_acc (fst (tms_view clk tdi bs v)) = ch_acc (fst v)"
  "ch_out (fst (tms_view clk tdi bs v)) = ch_out (fst v)"
  "ch_tms (fst (tms_view clk tdi bs v)) = last bs"
  "snd (tms_view clk tdi bs v) = snd v"
  by (simp_all add: tms_view_def)

lemma idle_shift_view [simp]: "idle (shift_view clk r t cs v) = idle v"
  "idle (tms_view clk tdi bs v) = idle v" "idle (set_tms b v) = idle v"
  by (simp_all add: idle_def set_tms_def)

lemma set_tms_fields [simp]: "snd (set_tms b v) = snd v" "ch_tms (fst (set_tms b v)) = b"
  by (simp_all add: set_tms_def)

lemma out_update [simp]: "ch_out c = [] \<Longrightarrow> c\<lparr>ch_out := []\<rparr> = c"
  by simp

text \<open>The count byte of a command for \<open>n\<close> units.\<close>

lemma count_byte: "0 < n \<Longrightarrow> n \<le> 256 \<Longrightarrow> Suc (unat (word_of_int (int n - 1) :: u8)) = n"
  by (cases n) (simp_all add: unat_of_nat)

text \<open>TMS bits without read back.\<close>

lemma view_step_tms:
  assumes idle: "idle v" and n: "Suc (unat N) = n" "n \<le> 6" "length bs = n"
    and w: "\<And>i. i < n \<Longrightarrow> bit w i = bs ! i" "bit w n = last bs" "bit w 7 = tdi"
  shows "ch_out (chip_feed clk [0x4b, N, w] (fst v)) = []
    \<and> view_step clk ex [0x4b, N, w] None 0 v = tms_view clk tdi bs v"
proof -
  have "tms_clocks N w = map (\<lambda>b. (b, tdi)) bs"
    using n w by (auto simp: tms_clocks_def nth_append less_Suc_eq intro!: nth_equalityI)
  moreover have "chip_feed clk [0x4b, N, w] (fst v)
      = chip_exec clk 0x4b [N, w] (fst v)"
    using idle by (intro chip_feed_command3) (auto simp: idle_def)
  ultimately show ?thesis
    using idle w(2)
    by (simp add: chip_exec_def view_step_def tms_view_def deliver_def new_node_def idle_def n(1)
        case_prod_unfold)
qed

text \<open>A command answered by one byte, whose last bits are put to a bit range.\<close>

lemma view_step_bits:
  assumes e: "ex a = Some e" "bx_fromBit e = 8 - int n" "bx_numBits e = int n" "n \<le> 8"
    and feed: "chip_feed clk bytes (fst v) = (chip_answer (snd (do_clocks clk cs (fst v))))\<lparr>ch_tms := t\<rparr>"
    and idle: "idle v" and n: "length cs = n"
  shows "length (ch_out (chip_feed clk bytes (fst v))) = 1
    \<and> view_step clk ex bytes (Some (Bit_copier a)) 1 v
      = set_tms t (shift_view clk (bx_dst e) (nat (bx_toBit e)) cs v)"
proof -
  obtain os c where dc: "do_clocks clk cs (fst v) = (os, c)" by fastforce
  have len: "length os = n" using length_do_clocks [of clk cs "fst v"] n by (simp add: dc)
  have out: "ch_out c = []"
    using do_clocks_fields(2) [of clk cs "fst v"] idle by (simp add: dc idle_def)
  have reg: "ch_reg c = shift_reg (ch_reg (fst v)) os"
    using dc by (auto simp: do_clocks_def split: prod.splits)
  have "nat (8 - int n) = 8 - n" by (simp add: nat_diff_distrib')
  then have "vbits [ch_reg c] (nat (8 - int n)) (nat (8 - int n) + n) = os"
    using vbits_shift_reg [of os "ch_reg (fst v)"] len e(4) by (simp add: reg)
  then show ?thesis
    using idle e
    by (simp add: feed view_step_def shift_view_def dc chip_answer_def out deliver_def new_node_def
        node_bits_def set_tms_def case_prod_unfold Let_def)
qed

lemma feed_op_bits:
  assumes "idle v" "Suc (unat N) = n"
  shows "chip_feed clk [0x3b, N, w] (fst v)
    = (chip_answer (snd (do_clocks clk (tdi_clocks (ch_tms (fst v)) n w) (fst v))))
        \<lparr>ch_tms := ch_tms (fst v)\<rparr>"
proof -
  have "chip_feed clk [0x3b, N, w] (fst v)
      = chip_answer (snd (do_clocks clk (tdi_clocks (ch_tms (fst v)) n w) (fst v)))"
    using assms by (subst chip_feed_command3) (auto simp: idle_def chip_exec_def)
  moreover have "c\<lparr>ch_tms := b\<rparr> = c" if "ch_tms c = b" for c :: "'a chip" and b
    using that by (cases c) simp
  ultimately show ?thesis by (simp add: chip_answer_def)
qed

lemma feed_op_last:
  assumes "idle v" "bit w 0 = t" "bit w 1 = t" "bit w 7 = b"
  shows "chip_feed clk [0x6b, 0, w] (fst v)
    = (chip_answer (snd (do_clocks clk [(t, b)] (fst v))))\<lparr>ch_tms := t\<rparr>"
proof -
  have "tms_clocks 0 w = [(t, b)]" using assms by (simp add: tms_clocks_def)
  then show ?thesis
    using assms by (subst chip_feed_command3) (auto simp: idle_def chip_exec_def)
qed

text \<open>Whole octets.\<close>

lemma tdi_clocks_octet: "tdi_clocks t 8 w = map (Pair t) (vbits [w] 0 8)"
  by (auto simp: tdi_clocks_def vbit_def intro!: nth_equalityI)

lemma fold_chip_octet:
  assumes "ch_out c = []"
  shows "\<exists>outs. fold (chip_octet clk) vs c
      = (snd (do_clocks clk (map (Pair (ch_tms c)) (vbits vs 0 (8 * length vs))) c))\<lparr>ch_out := outs\<rparr>
    \<and> length outs = length vs
    \<and> vbits outs 0 (8 * length vs) = fst (do_clocks clk (map (Pair (ch_tms c)) (vbits vs 0 (8 * length vs))) c)"
proof (induction vs rule: rev_induct)
  case Nil
  have "c\<lparr>ch_out := []\<rparr> = c" using assms by simp
  then show ?case by simp
next
  case (snoc w vs)
  let ?cs = "map (Pair (ch_tms c)) (vbits vs 0 (8 * length vs))"
  obtain outs where IH: "fold (chip_octet clk) vs c = (snd (do_clocks clk ?cs c))\<lparr>ch_out := outs\<rparr>"
    "length outs = length vs" "vbits outs 0 (8 * length vs) = fst (do_clocks clk ?cs c)"
    using snoc by blast
  let ?ds = "map (Pair (ch_tms c)) (vbits [w] 0 8)"
  have split: "map (Pair (ch_tms c)) (vbits (vs @ [w]) 0 (8 * length (vs @ [w]))) = ?cs @ ?ds"
  proof -
    have "vbits (vs @ [w]) 0 (8 * length vs + 8)
        = vbits (vs @ [w]) 0 (8 * length vs) @ vbits (vs @ [w]) (8 * length vs) (8 * length vs + 8)"
      by (simp add: vbits_append)
    then show ?thesis
      using vbits_append2 [of vs "[w]" 0 8] by (simp add: vbits_append1 add.commute)
  qed
  obtain os c1 where c1: "do_clocks clk ?cs c = (os, c1)" by fastforce
  obtain ps c2 where c2: "do_clocks clk ?ds c1 = (ps, c2)" by fastforce
  have tms: "ch_tms c1 = ch_tms c" using do_clocks_fields(3) [of clk ?cs c] by (simp add: c1)
  have reg: "ch_reg c2 = shift_reg (ch_reg c1) ps" using c2 by (auto simp: do_clocks_def split: prod.splits)
  have len: "length ps = 8" using length_do_clocks [of clk ?ds c1] by (simp add: c2)
  have "vbits [ch_reg c2] 0 8 = ps"
    using vbits_shift_reg [of ps "ch_reg c1"] len by (simp add: reg)
  moreover have "vbits (outs @ [ch_reg c2]) 0 (8 * length vs + 8)
      = vbits outs 0 (8 * length vs) @ vbits [ch_reg c2] 0 8"
  proof -
    have "vbits (outs @ [ch_reg c2]) 0 (8 * length vs + 8)
        = vbits (outs @ [ch_reg c2]) 0 (8 * length vs)
          @ vbits (outs @ [ch_reg c2]) (8 * length vs) (8 * length vs + 8)"
      by (simp add: vbits_append)
    then show ?thesis
      using vbits_append2 [of outs "[ch_reg c2]" 0 8] IH(2) by (simp add: vbits_append1)
  qed
  ultimately have bits: "vbits (outs @ [ch_reg c2]) 0 (8 * length (vs @ [w])) = os @ ps"
    using IH(3) by (simp add: c1 add.commute)
  have "fold (chip_octet clk) (vs @ [w]) c = c2\<lparr>ch_out := outs @ [ch_reg c2]\<rparr>"
    using IH(1) by (simp add: c1 c2 chip_octet_def chip_answer_def tms tdi_clocks_octet)
  then show ?case
    using bits IH(2) unfolding split
    by (intro exI [of _ "outs @ [ch_reg c2]"]) (simp add: do_clocks_append c1 c2)
qed

lemma view_step_octets:
  assumes idle: "idle v" and len: "0 < length vs" "length vs \<le> 65536"
    and lohi: "lo = word_of_int (int (length vs) - 1)" "hi = word_of_int ((int (length vs) - 1) div 256)"
  shows "ch_out (chip_feed clk [0x39, lo, hi] (fst v)) = []
    \<and> length (ch_out (chip_feed clk vs (fst (view_step clk ex [0x39, lo, hi] None 0 v)))) = length vs
    \<and> view_step clk ex' vs (Some (Byte_copier r (int k) (int (length vs)))) (int (length vs))
        (view_step clk ex [0x39, lo, hi] None 0 v)
      = shift_view clk r (8 * k) (map (Pair (ch_tms (fst v))) (vbits vs 0 (8 * length vs))) v"
proof -
  let ?c = "fst v" and ?v = "view_step clk ex [0x39, lo, hi] None 0 v"
  have acc: "ch_acc ?c = []" and out: "ch_out ?c = []" using idle by (auto simp: idle_def)
  have hd: "chip_feed clk [0x39, lo, hi] ?c = ?c\<lparr>ch_acc := [0x39, lo, hi]\<rparr>"
    using acc by (rule chip_feed_octets_header)
  have "octet_count [lo, hi] = length vs"
  proof -
    obtain n where n: "length vs = Suc n" using len(1) by (cases "length vs") auto
    have "int (length vs) - 1 = int n" "(int (length vs) - 1) div 256 = int (n div 256)"
      using n by (simp_all add: zdiv_int)
    then have "lo = of_nat n" "hi = of_nat (n div 256)"
      using lohi by (simp_all only: of_int_of_nat_eq)
    moreover have "n div 256 < 256" using len(2) n by simp
    ultimately show ?thesis
      by (simp add: octet_count_def unat_of_nat n)
  qed
  then have data: "chip_feed clk vs (?c\<lparr>ch_acc := [0x39, lo, hi]\<rparr>)
      = fold (chip_octet clk) vs (?c\<lparr>ch_acc := [0x39, lo, hi], ch_acc := []\<rparr>)"
    by (subst chip_feed_octets_data [of _ lo hi]) simp_all
  have empt: "?c\<lparr>ch_acc := [0x39, lo, hi], ch_acc := []\<rparr> = ?c" using acc by simp
  have v: "?v = (?c\<lparr>ch_acc := [0x39, lo, hi]\<rparr>, snd v)"
    unfolding view_step_def case_prod_unfold hd using out
    by (simp add: deliver_def new_node_def Let_def)
  let ?cs = "map (Pair (ch_tms ?c)) (vbits vs 0 (8 * length vs))"
  obtain outs where fd: "fold (chip_octet clk) vs ?c = (snd (do_clocks clk ?cs ?c))\<lparr>ch_out := outs\<rparr>"
    "length outs = length vs" "vbits outs 0 (8 * length vs) = fst (do_clocks clk ?cs ?c)"
    using fold_chip_octet [OF out] by blast
  have feed: "chip_feed clk vs (fst ?v) = (snd (do_clocks clk ?cs ?c))\<lparr>ch_out := outs\<rparr>"
    unfolding v fst_conv data empt fd(1) ..
  have "ch_out (snd (do_clocks clk ?cs ?c)) = []" using out by simp
  then have res: "(snd (do_clocks clk ?cs ?c))\<lparr>ch_out := []\<rparr> = snd (do_clocks clk ?cs ?c)" by simp
  have "view_step clk ex' vs (Some (Byte_copier r (int k) (int (length vs)))) (int (length vs)) ?v
      = (snd (do_clocks clk ?cs ?c), put_bits (r, 8 * k, fst (do_clocks clk ?cs ?c)) (snd v))"
    unfolding view_step_def [of clk ex'] case_prod_unfold feed Let_def
    using len fd(2,3) res
    by (simp add: v deliver_def new_node_def node_bits_def Let_def)
  then show ?thesis
    using feed fd(2) out hd by (simp add: shift_view_def case_prod_unfold)
qed

end
