(* ===== verification/Ftdi_Shift.thy ===== *)
theory Ftdi_Shift
  imports Ftdi_Driver Mpsse_Chip
begin

text \<open>
  The translation of splitter events to MPSSE commands is safe and correct.

  The proofs are made once, over the interface \<open>command_link\<close>: what a flush of the buffer would
  make of the outside world (\<open>view\<close>) is left unchanged by flushing and changed by queueing a
  command the way the command says, as long as the link (\<open>lnk\<close>) holds. Interpreted with no link
  at all this gives safety for an arbitrary D2XX library, whatever it reports; interpreted with
  the reference chip it gives what the JTAG target sees and what is read back.
\<close>

subsection \<open>Invariant and room\<close>

definition drv_inv :: "'w d2xx \<Rightarrow> 'w ftdi \<Rightarrow> bool" where
  "drv_inv dx d \<longleftrightarrow> d2xx_ok dx \<and> pool_ok (fd_pool d)
     \<and> buf_inv (bit_extras (fd_io d)) (mem_size (mem (fd_io d))) (cmdBuffer d)
     \<and> chipBufferBytes d = maxRxBufferBytes (cmdBuffer d)"

definition drv_sizes :: "'w ftdi \<Rightarrow> buf_ref \<Rightarrow> nat" where
  "drv_sizes d = mem_size (mem (fd_io d))"

definition drv_same :: "'w ftdi \<Rightarrow> 'w ftdi \<Rightarrow> bool" where
  "drv_same d d' \<longleftrightarrow> same_cfg (cmdBuffer d) (cmdBuffer d') \<and> same_arena (fd_pool d) (fd_pool d')
     \<and> chipBufferBytes d' = chipBufferBytes d \<and> highSpeedCapable d' = highSpeedCapable d
     \<and> drv_sizes d' = drv_sizes d"

text \<open>Room for \<open>k\<close> more bits read back before the next flush event.\<close>

definition drv_room :: "nat \<Rightarrow> 'w ftdi \<Rightarrow> bool" where
  "drv_room k d \<longleftrightarrow> roomy k (cmdBuffer d)
     \<and> unat (pool_head (fd_pool d)) + 32 * k \<le> unat (pool_end (fd_pool d))"

text \<open>Pending bit copiers lie below the head of the driver's arena.\<close>

definition fresh_extras :: "'w ftdi \<Rightarrow> bool" where
  "fresh_extras d \<longleftrightarrow> (\<forall>o' \<in> set (rxObservers (cmdBuffer d)). \<forall>a. ob_fn o' = Bit_copier a \<longrightarrow>
     unat a < unat (pool_head (fd_pool d)))"

lemma drv_same_refl [simp]: "drv_same d d"
  by (simp add: drv_same_def)

lemma drv_same_trans: "drv_same d d1 \<Longrightarrow> drv_same d1 d2 \<Longrightarrow> drv_same d d2"
  by (auto simp: drv_same_def dest: same_cfg_trans same_arena_trans)

lemma drv_room_mono: "drv_room k d \<Longrightarrow> l \<le> k \<Longrightarrow> drv_room l d"
  by (auto simp: drv_room_def intro: roomy_mono)

lemma op_values [simp]:
  "op_tms = 0x4b" "op_bits = 0x3b" "op_octets = 0x39" "op_last = 0x6b"
  by (simp_all add: op_tms_def op_bits_def op_octets_def op_last_def
      OP_SHIFT_WR_FALLING_FLAG_def OP_SHIFT_BITMODE_FLAG_def OP_SHIFT_LSB_FIRST_FLAG_def
      OP_SHIFT_WR_TDI_FLAG_def OP_SHIFT_RD_TDO_FLAG_def OP_SHIFT_WR_TMS_FLAG_def)

text \<open>The data byte of a TMS command.\<close>

lemma tms_cmd_ok:
  assumes "0 < n" "n \<le> 6" "f + n \<le> 8 * length tms"
  shows "\<exists>w. tms_cmd lv tms (int f) (int n) = Ok [0x4b, word_of_int (int n - 1), w]
    \<and> (\<forall>i<n. bit w i = vbits tms f (f + n) ! i) \<and> bit w n = last (vbits tms f (f + n))
    \<and> bit w 7 = lv"
proof -
  define v where "v = [push_bit 7 (if lv then 1 else 0 :: u8)]"
  let ?bs = "vbits tms f (f + n) @ [vbit tms (f + n - 1)]"
  have len: "length v = 1" and v7: "vbit v 7 = lv"
    by (simp_all add: v_def vbit_def bit_simps)
  have "length (write_bits v 0 ?bs) = 1" by (simp add: len)
  then obtain w where w: "write_bits v 0 ?bs = [w]"
    by (auto simp only: One_nat_def length_Suc_conv length_0_conv)
  have "copy_bits tms (int f) v (int 0) (int n) True = Ok [w]"
    unfolding w [symmetric] using assms len by (intro copy_bits_dup_ok) simp_all
  then have "tms_cmd lv tms (int f) (int n) = Ok [0x4b, word_of_int (int n - 1), w]"
    unfolding tms_cmd_def v_def [symmetric] by simp
  moreover have bits: "bit w j = (if j < Suc n then ?bs ! j else vbit v j)" if "j < 8" for j
  proof -
    have "vbit [w] j = (if 0 \<le> j \<and> j < 0 + length ?bs then ?bs ! (j - 0) else vbit v j)"
      unfolding w [symmetric] using assms len by (intro vbit_write_bits) simp
    then show ?thesis using that by (simp add: vbit_def)
  qed
  moreover have "last (vbits tms f (f + n)) = vbit tms (f + n - 1)"
    using assms(1) by (cases n) (simp_all add: vbits_snoc)
  ultimately show ?thesis
    using assms v7 by (intro exI [of _ w]) (auto simp: nth_append)
qed

text \<open>The ranges of a TDI shift over natural numbers: \<open>lead\<close> bits up to an octet boundary, then
  whole octets up to \<open>inner_end\<close>, the rest, and the last bit.\<close>

definition lead :: "nat \<Rightarrow> nat \<Rightarrow> nat" where
  "lead f t = min ((8 - f mod 8) mod 8) (t - 1 - f)"

definition short_range :: "nat \<Rightarrow> nat \<Rightarrow> bool" where
  "short_range f t \<longleftrightarrow> lead f t = t - 1 - f"

definition inner_end :: "nat \<Rightarrow> nat" where
  "inner_end t = 8 * ((t - 1) div 8)"

lemma range_simps:
  assumes "f < t"
  shows "lastBitIdx (int t) = int (t - 1)"
    and "numLeadingBits (int f) (int t) = int (lead f t)"
    and "leadingOnly (int f) (int t) \<longleftrightarrow> short_range f t"
    and "innerBeginIdx (int f) (int t) = (if short_range f t then - 1 else int (f + lead f t))"
    and "innerEndIdx (int f) (int t) = (if short_range f t then - 1 else int (inner_end t))"
    and "numTrailingBits (int f) (int t) = (if short_range f t then 0 else int ((t - 1) mod 8))"
proof -
  show l: "lastBitIdx (int t) = int (t - 1)" using assms by (simp add: lastBitIdx_def)
  have r: "numRegularBits (int f) (int t) = int (t - 1 - f)"
    using assms by (simp add: numRegularBits_def l)
  have "f mod 8 < 8" by simp
  then have "(if 8 - int (f mod 8) = 8 then 0 else 8 - int (f mod 8)) = int ((8 - f mod 8) mod 8)"
    by (cases "f mod 8 = 0") (auto simp: nat_less_iff)
  then show n: "numLeadingBits (int f) (int t) = int (lead f t)"
    by (simp add: numLeadingBits_def Let_def int_octet_smod r c_min_def lead_def del: of_nat_mod)
  show o: "leadingOnly (int f) (int t) \<longleftrightarrow> short_range f t"
    by (simp add: leadingOnly_def n r short_range_def)
  show "innerBeginIdx (int f) (int t) = (if short_range f t then - 1 else int (f + lead f t))"
    by (simp add: innerBeginIdx_def n o)
  have "int (t - 1) - int ((t - 1) mod 8) = int (inner_end t)"
    using minus_mod_eq_mult_div [of "t - 1" 8] by (simp add: inner_end_def flip: of_nat_diff)
  then show "innerEndIdx (int f) (int t) = (if short_range f t then - 1 else int (inner_end t))"
    by (simp only: innerEndIdx_def o l int_octet_smod)
  show "numTrailingBits (int f) (int t) = (if short_range f t then 0 else int ((t - 1) mod 8))"
    by (simp only: numTrailingBits_def o l int_octet_smod)
qed

lemma lead_octet: "8 dvd (f :: nat) + (8 - f mod 8) mod 8"
proof -
  obtain q r where f: "f = 8 * q + r" "r < 8" "f mod 8 = r"
    using mult_div_mod_eq [of 8 f] by (metis mod_less_divisor zero_less_numeral)
  then have "f + (8 - r) mod 8 = 8 * (if r = 0 then q else q + 1)" by auto
  then show ?thesis unfolding f(3) by (metis dvd_triv_left)
qed

lemma lead_facts:
  assumes "f < t"
  shows "f + lead f t < t" "f mod 8 + lead f t \<le> 8"
    and "\<not> short_range f t \<Longrightarrow> 8 dvd f + lead f t"
    and "\<not> short_range f t \<Longrightarrow> f + lead f t \<le> inner_end t"
    and "short_range f t \<Longrightarrow> f + lead f t = t - 1"
proof -
  show "f + lead f t < t" using assms by (auto simp: lead_def)
  have m: "f mod 8 < 8" by simp
  show "f mod 8 + lead f t \<le> 8"
    using m by (cases "f mod 8 = 0") (auto simp: lead_def)
  show "short_range f t \<Longrightarrow> f + lead f t = t - 1" using assms by (simp add: short_range_def)
  assume ns: "\<not> short_range f t"
  then have "lead f t = (8 - f mod 8) mod 8"
    unfolding short_range_def lead_def by linarith
  then show d: "8 dvd f + lead f t"
    using lead_octet by simp
  have "lead f t < t - 1 - f"
    using ns unfolding short_range_def by (simp add: lead_def min_def split: if_splits)
  then have "f + lead f t < t - 1" by linarith
  with d show "f + lead f t \<le> inner_end t" by (auto simp: inner_end_def elim!: dvdE)
qed

subsection \<open>The interface\<close>

locale command_link =
  fixes dx :: "'w d2xx"
    and clk :: "'d target"
    and lnk :: "ft_buffer \<Rightarrow> 'w io \<Rightarrow> bool"
    and view :: "ft_buffer \<Rightarrow> 'w io \<Rightarrow> 'd view"
  assumes ensure_link: "buf_inv (bit_extras i) (mem_size (mem i)) b \<Longrightarrow> lnk b i \<Longrightarrow>
      ft_buffer_ensure_can_append dx b i n m = Ok (ok, b', i') \<Longrightarrow>
      ok \<and> lnk b' i' \<and> view b' i' = view b i"
    and view_sizes: "lnk b i \<Longrightarrow> mem_size (snd (view b i)) = mem_size (mem i)"
    and flush_link: "buf_inv (bit_extras i) (mem_size (mem i)) b \<Longrightarrow> lnk b i \<Longrightarrow>
      ft_buffer_flush dx b i = Ok (ok, b', i') \<Longrightarrow>
      ok \<and> lnk b' i' \<and> view b' i' = view b i \<and> snd (view b' i') = mem i'"
    and append_link: "lnk b i \<Longrightarrow> appended b b' data n observer m \<Longrightarrow>
      list_all (node_ok (bit_extras i) sz (rxNumBytes b)) (rxObservers b) \<Longrightarrow>
      (\<And>fn. 0 < m \<Longrightarrow> observer = Some fn \<Longrightarrow> fn_ok (bit_extras i) sz m fn) \<Longrightarrow>
      int (length (ch_out (chip_feed clk (take (nat n) data) (fst (view b i))))) = m \<Longrightarrow>
      lnk b' i \<and> view b' i = view_step clk (bit_extras i) (take (nat n) data) observer m (view b i)"
    and extras_link: "lnk b i \<Longrightarrow> \<forall>o' \<in> set (rxObservers b). ob_fn o' \<noteq> Bit_copier a \<Longrightarrow>
      lnk b (i\<lparr>bit_extras := (bit_extras i)(a \<mapsto> e)\<rparr>)
      \<and> view b (i\<lparr>bit_extras := (bit_extras i)(a \<mapsto> e)\<rparr>) = view b i"
begin

definition dlinked :: "'w ftdi \<Rightarrow> bool" where
  "dlinked d \<longleftrightarrow> lnk (cmdBuffer d) (fd_io d) \<and> fresh_extras d"

definition dview :: "'w ftdi \<Rightarrow> 'd view" where
  "dview d = view (cmdBuffer d) (fd_io d)"

text \<open>What is common to the two ways of queueing.\<close>

lemma queue_effect:
  assumes inv: "drv_inv dx d" and nm: "0 \<le> n" "0 \<le> m" "n < 2 ^ 30" "m < 2 ^ 30"
    and ens: "ft_buffer_ensure_can_append dx (cmdBuffer d) (fd_io d) n m = Ok (True, b1, i')"
    and ap: "appended b1 b' data n observer m" and same: "io_same (fd_io d) i'"
    and fn: "\<And>fn. 0 < m \<Longrightarrow> observer = Some fn \<Longrightarrow> fn_ok (bit_extras (fd_io d)) (drv_sizes d) m fn"
    and addr: "\<And>a. observer = Some (Bit_copier a) \<Longrightarrow> unat a < unat (pool_head (fd_pool d))"
    and link: "dlinked d"
    and answers: "int (length (ch_out (chip_feed clk (take (nat n) data) (fst (dview d))))) = m"
  shows "dlinked (d\<lparr>cmdBuffer := b', fd_io := i'\<rparr>)
    \<and> dview (d\<lparr>cmdBuffer := b', fd_io := i'\<rparr>)
      = view_step clk (bit_extras (fd_io d)) (take (nat n) data) observer m (dview d)"
proof -
  have inv': "buf_inv (bit_extras (fd_io d)) (mem_size (mem (fd_io d))) (cmdBuffer d)" "d2xx_ok dx"
    using inv by (simp_all add: drv_inv_def)
  have "c_out False (ft_buffer_ensure_can_append dx (cmdBuffer d) (fd_io d) n m) (\<lambda>(ok, b', i').
      buf_inv (bit_extras (fd_io d)) (mem_size (mem (fd_io d))) b')"
    by (rule c_out_mono [OF ensure_out [OF inv' nm, where k = 0]]) auto
  then have nodes: "list_all (node_ok (bit_extras i') (mem_size (mem i')) (rxNumBytes b1)) (rxObservers b1)"
    using same by (simp add: ens buf_inv_def io_same_def)
  have l: "lnk b1 i'" "view b1 i' = dview d"
    using ensure_link [OF inv'(1) _ ens] link by (simp_all add: dlinked_def dview_def)
  have step: "lnk b' i'
      \<and> view b' i' = view_step clk (bit_extras i') (take (nat n) data) observer m (view b1 i')"
  proof (rule append_link [OF l(1) ap nodes])
    fix f
    assume "0 < m" "observer = Some f"
    with fn [of f] same show "fn_ok (bit_extras i') (mem_size (mem i')) m f"
      by (simp add: io_same_def drv_sizes_def)
  next
    show "int (length (ch_out (chip_feed clk (take (nat n) data) (fst (view b1 i'))))) = m"
      using answers by (simp add: l(2))
  qed
  have "set (rxObservers b') \<subseteq> set (rxObservers (cmdBuffer d))
      \<union> set (new_node observer (rxNumBytes b1) m)"
    using ensure_observers [OF ens] ap by (auto simp: appended_def)
  moreover have "unat a < unat (pool_head (fd_pool d))"
    if "o' \<in> set (new_node observer (rxNumBytes b1) m)" "ob_fn o' = Bit_copier a" for o' a
  proof (rule addr)
    show "observer = Some (Bit_copier a)"
      using that by (cases "0 < m"; cases observer) (auto simp: new_node_def)
  qed
  ultimately have "fresh_extras (d\<lparr>cmdBuffer := b', fd_io := i'\<rparr>)"
    using link by (fastforce simp: dlinked_def fresh_extras_def)
  with step show ?thesis
    using same l(2) by (simp add: dlinked_def dview_def io_same_def)
qed

text \<open>The effect of a step on the view, where the link holds.\<close>

definition moves :: "'w ftdi \<Rightarrow> bool \<Rightarrow> 'w ftdi \<Rightarrow> ('d view \<Rightarrow> 'd view) \<Rightarrow> bool" where
  "moves d ok d' f \<longleftrightarrow> (dlinked d \<longrightarrow> ok \<and> dlinked d' \<and> dview d' = f (dview d))"

lemma queued_out:
  assumes inv: "drv_inv dx d" and nm: "0 \<le> n" "0 \<le> m" "n < 2 ^ 30" "m < 2 ^ 30"
    and fn: "\<And>fn. 0 < m \<Longrightarrow> observer = Some fn \<Longrightarrow> fn_ok (bit_extras (fd_io d)) (drv_sizes d) m fn"
    and addr: "\<And>a. observer = Some (Bit_copier a) \<Longrightarrow> unat a < unat (pool_head (fd_pool d))"
    and res: "case x of (ok, b', i') \<Rightarrow> buf_inv (bit_extras (fd_io d)) (mem_size (mem (fd_io d))) b'
       \<and> same_cfg (cmdBuffer d) b' \<and> io_same (fd_io d) i'
       \<and> (\<not> ok \<longrightarrow> ft_buffer_ensure_can_append dx (cmdBuffer d) (fd_io d) n m = Ok (False, b', i'))
       \<and> (ok \<longrightarrow> (strict \<longrightarrow> roomy k b')
            \<and> (\<exists>b1. ft_buffer_ensure_can_append dx (cmdBuffer d) (fd_io d) n m = Ok (True, b1, i')
                  \<and> appended b1 b' data n observer m))"
  shows "c_out strict (case x of (ok, b, i) \<Rightarrow> Ok (ok, d\<lparr>cmdBuffer := b, fd_io := i\<rparr>)) (\<lambda>(ok, d').
    drv_inv dx d' \<and> drv_same d d' \<and> fd_pool d' = fd_pool d \<and> lastTdi d' = lastTdi d
    \<and> (ok \<and> strict \<longrightarrow> roomy k (cmdBuffer d'))
    \<and> (int (length (ch_out (chip_feed clk (take (nat n) data) (fst (dview d))))) = m \<longrightarrow>
       moves d ok d' (view_step clk (bit_extras (fd_io d)) (take (nat n) data) observer m)))"
proof -
  from res obtain ok b' i' where x: "x = (ok, b', i')"
    and p: "buf_inv (bit_extras (fd_io d)) (mem_size (mem (fd_io d))) b'"
       "same_cfg (cmdBuffer d) b'" "io_same (fd_io d) i'"
       "\<not> ok \<longrightarrow> ft_buffer_ensure_can_append dx (cmdBuffer d) (fd_io d) n m = Ok (False, b', i')"
       "ok \<longrightarrow> (strict \<longrightarrow> roomy k b')
            \<and> (\<exists>b1. ft_buffer_ensure_can_append dx (cmdBuffer d) (fd_io d) n m = Ok (True, b1, i')
                  \<and> appended b1 b' data n observer m)"
    by (cases x) auto
  let ?d = "d\<lparr>cmdBuffer := b', fd_io := i'\<rparr>"
  have "drv_inv dx ?d" "drv_same d ?d"
    using inv p(1-3) by (simp_all add: drv_inv_def drv_same_def drv_sizes_def io_same_def same_cfg_def)
  moreover have "moves d ok ?d (view_step clk (bit_extras (fd_io d)) (take (nat n) data) observer m)"
    if "int (length (ch_out (chip_feed clk (take (nat n) data) (fst (dview d))))) = m"
  proof (cases ok)
    case False
    then have "\<not> dlinked d"
      using p(4) ensure_link [of "fd_io d" "cmdBuffer d" n m False b' i'] inv
      by (auto simp: dlinked_def drv_inv_def)
    then show ?thesis by (simp add: moves_def)
  next
    case True
    then obtain b1 where b1: "ft_buffer_ensure_can_append dx (cmdBuffer d) (fd_io d) n m = Ok (True, b1, i')"
      "appended b1 b' data n observer m" using p(5) by blast
    show ?thesis
      using True queue_effect [OF inv nm(1-4) b1 p(3) fn addr] that by (simp add: moves_def)
  qed
  ultimately show ?thesis
    using p(5) by (simp add: x)
qed

lemma write_step:
  assumes inv: "drv_inv dx d" and nm: "0 \<le> n" "0 \<le> m" "n < 2 ^ 30" "m < 2 ^ 30" "nat n \<le> length data"
    and fn: "\<And>fn. 0 < m \<Longrightarrow> observer = Some fn \<Longrightarrow> fn_ok (bit_extras (fd_io d)) (drv_sizes d) m fn"
    and addr: "\<And>a. observer = Some (Bit_copier a) \<Longrightarrow> unat a < unat (pool_head (fd_pool d))"
    and strict: "strict \<Longrightarrow> n \<le> chipBufferBytes d \<and> m \<le> chipBufferBytes d
      \<and> roomy (if 0 < m then Suc k else k) (cmdBuffer d)"
  shows "c_out strict (on_buffer (\<lambda>b i.
      ft_buffer_add_write_to_chip_with_readback dx b i data n observer m) d) (\<lambda>(ok, d').
    drv_inv dx d' \<and> drv_same d d' \<and> fd_pool d' = fd_pool d \<and> lastTdi d' = lastTdi d
    \<and> (ok \<and> strict \<longrightarrow> roomy k (cmdBuffer d'))
    \<and> (int (length (ch_out (chip_feed clk (take (nat n) data) (fst (dview d))))) = m \<longrightarrow>
       moves d ok d' (view_step clk (bit_extras (fd_io d)) (take (nat n) data) observer m)))"
  unfolding on_buffer_def
proof (rule c_out_bindI)
  show "c_out strict (ft_buffer_add_write_to_chip_with_readback dx (cmdBuffer d) (fd_io d) data n observer m)
    (\<lambda>(ok, b', i'). buf_inv (bit_extras (fd_io d)) (mem_size (mem (fd_io d))) b'
       \<and> same_cfg (cmdBuffer d) b' \<and> io_same (fd_io d) i'
       \<and> (\<not> ok \<longrightarrow> ft_buffer_ensure_can_append dx (cmdBuffer d) (fd_io d) n m = Ok (False, b', i'))
       \<and> (ok \<longrightarrow> (strict \<longrightarrow> roomy k b')
            \<and> (\<exists>b1. ft_buffer_ensure_can_append dx (cmdBuffer d) (fd_io d) n m = Ok (True, b1, i')
                  \<and> appended b1 b' data n observer m)))"
    using inv nm fn strict by (intro add_write_out) (auto simp: drv_inv_def drv_sizes_def)
next
  fix x
  assume "case x of (ok, b', i') \<Rightarrow> buf_inv (bit_extras (fd_io d)) (mem_size (mem (fd_io d))) b'
       \<and> same_cfg (cmdBuffer d) b' \<and> io_same (fd_io d) i'
       \<and> (\<not> ok \<longrightarrow> ft_buffer_ensure_can_append dx (cmdBuffer d) (fd_io d) n m = Ok (False, b', i'))
       \<and> (ok \<longrightarrow> (strict \<longrightarrow> roomy k b')
            \<and> (\<exists>b1. ft_buffer_ensure_can_append dx (cmdBuffer d) (fd_io d) n m = Ok (True, b1, i')
                  \<and> appended b1 b' data n observer m))"
  then show "c_out strict (case x of (ok, b, i) \<Rightarrow> Ok (ok, d\<lparr>cmdBuffer := b, fd_io := i\<rparr>))
    (\<lambda>(ok, d'). drv_inv dx d' \<and> drv_same d d' \<and> fd_pool d' = fd_pool d \<and> lastTdi d' = lastTdi d
    \<and> (ok \<and> strict \<longrightarrow> roomy k (cmdBuffer d'))
    \<and> (int (length (ch_out (chip_feed clk (take (nat n) data) (fst (dview d))))) = m \<longrightarrow>
       moves d ok d' (view_step clk (bit_extras (fd_io d)) (take (nat n) data) observer m)))"
    using inv nm fn addr by (intro queued_out)
qed

text \<open>A command answered by one byte of which the last bits are wanted.\<close>

definition read_back_post ::
  "bool \<Rightarrow> nat \<Rightarrow> u8 list \<Rightarrow> bit_copier_extra \<Rightarrow> 'w ftdi \<Rightarrow> bool \<times> 'w ftdi \<Rightarrow> bool" where
  "read_back_post strict k cmd e d = (\<lambda>(ok, d').
    drv_inv dx d' \<and> drv_same d d' \<and> lastTdi d' = lastTdi d \<and> (ok \<and> strict \<longrightarrow> drv_room k d')
    \<and> (\<forall>cs t. idle (dview d) \<and> bx_fromBit e = 8 - bx_numBits e \<and> length cs = nat (bx_numBits e)
         \<and> chip_feed clk cmd (fst (dview d))
             = (chip_answer (snd (do_clocks clk cs (fst (dview d)))))\<lparr>ch_tms := t\<rparr>
       \<longrightarrow> moves d ok d' (\<lambda>v. set_tms t (shift_view clk (bx_dst e) (nat (bx_toBit e)) cs v))))"

lemma read_back_step:
  assumes inv: "drv_inv dx d" and cmd: "length cmd = 3" and e: "extra_ok (drv_sizes d) e"
    and strict: "strict \<Longrightarrow> drv_room (Suc k) d"
  shows "c_out strict (read_back_bits dx cmd e d) (read_back_post strict k cmd e d)"
  unfolding read_back_bits_def new_extra_def c_bind_assoc
proof (rule c_out_bindI)
  show "c_out strict (txvc_mempool_alloc_aligned (fd_pool d) 24 8) (\<lambda>(a, q). \<exists>b. a = Some b
      \<and> pool_ok q \<and> same_arena (fd_pool d) q \<and> unat (pool_head (fd_pool d)) \<le> unat b
      \<and> unat (pool_head q) = unat b + unat (24 :: u64) \<and> unat b < unat (pool_head (fd_pool d)) + 8)"
    using inv strict by (intro small_object_out) (auto simp: drv_inv_def drv_room_def)
next
  fix x :: "u64 option \<times> mempool"
  assume "case x of (a, q) \<Rightarrow> \<exists>b. a = Some b
      \<and> pool_ok q \<and> same_arena (fd_pool d) q \<and> unat (pool_head (fd_pool d)) \<le> unat b
      \<and> unat (pool_head q) = unat b + unat (24 :: u64) \<and> unat b < unat (pool_head (fd_pool d)) + 8"
  then obtain a :: u64 and q where x: "x = (Some a, q)"
    and q: "pool_ok q" "same_arena (fd_pool d) q" "unat (pool_head (fd_pool d)) \<le> unat a"
      "unat (pool_head q) = unat a + 24" "unat a < unat (pool_head (fd_pool d)) + 8"
    by (cases x) auto
  let ?d = "d\<lparr>fd_pool := q, fd_io := (fd_io d)\<lparr>bit_extras := (bit_extras (fd_io d))(a \<mapsto> e)\<rparr>\<rparr>"
  have inv1: "drv_inv dx ?d" and sizes: "drv_sizes ?d = drv_sizes d"
    using inv q(1) e buf_inv_extra [of "bit_extras (fd_io d)" "mem_size (mem (fd_io d))" "cmdBuffer d" e a]
    by (simp_all add: drv_inv_def drv_sizes_def)
  have same1: "drv_same d ?d" using q(2) sizes by (simp add: drv_same_def)
  have link1: "dlinked ?d \<and> dview ?d = dview d" if "dlinked d"
  proof -
    have "\<forall>o' \<in> set (rxObservers (cmdBuffer d)). ob_fn o' \<noteq> Bit_copier a"
      using that q(3) by (fastforce simp: dlinked_def fresh_extras_def)
    then show ?thesis
      using that extras_link [of "cmdBuffer d" "fd_io d" a e] q(3,4)
      by (fastforce simp: dlinked_def dview_def fresh_extras_def)
  qed
  have room1: "roomy (Suc k) (cmdBuffer ?d)" "1 \<le> chipBufferBytes d \<and> 3 \<le> chipBufferBytes d"
    "unat (pool_head q) + 32 * k \<le> unat (pool_end q)" if strict
    using strict [OF that] q inv by (auto simp: drv_room_def same_arena_def drv_inv_def buf_inv_def)
  have "c_out strict (on_buffer (\<lambda>b i. ft_buffer_add_write_to_chip_with_readback dx b i cmd 3
            (Some (Bit_copier a)) 1) ?d) (\<lambda>(ok, d').
      drv_inv dx d' \<and> drv_same ?d d' \<and> fd_pool d' = fd_pool ?d \<and> lastTdi d' = lastTdi ?d
      \<and> (ok \<and> strict \<longrightarrow> roomy k (cmdBuffer d'))
      \<and> (int (length (ch_out (chip_feed clk (take (nat 3) cmd) (fst (dview ?d))))) = 1 \<longrightarrow>
         moves ?d ok d' (view_step clk (bit_extras (fd_io ?d)) (take (nat 3) cmd) (Some (Bit_copier a)) 1)))"
    using inv1 cmd e sizes q(3,4) room1 by (intro write_step) auto
  then have "c_out strict (on_buffer (\<lambda>b i. ft_buffer_add_write_to_chip_with_readback dx b i cmd 3
            (Some (Bit_copier a)) 1) ?d) (read_back_post strict k cmd e d)"
    unfolding read_back_post_def
  proof (rule c_out_mono, clarify, intro conjI allI impI; (elim conjE)?)
    fix ok d'
    assume p: "drv_same ?d d'" "fd_pool d' = fd_pool ?d" "lastTdi d' = lastTdi ?d"
      "ok \<and> strict \<longrightarrow> roomy k (cmdBuffer d')"
      "int (length (ch_out (chip_feed clk (take (nat 3) cmd) (fst (dview ?d))))) = 1 \<longrightarrow>
         moves ?d ok d' (view_step clk (bit_extras (fd_io ?d)) (take (nat 3) cmd) (Some (Bit_copier a)) 1)"
    show "drv_same d d'" using same1 p(1) by (rule drv_same_trans)
    show "lastTdi d' = lastTdi d" using p(3) by simp
    show "drv_room k d'" if ok strict using that p(2,4) room1(3) by (simp add: drv_room_def)
    fix cs t
    assume f: "idle (dview d)" "bx_fromBit e = 8 - bx_numBits e" "length cs = nat (bx_numBits e)"
      "chip_feed clk cmd (fst (dview d))
         = (chip_answer (snd (do_clocks clk cs (fst (dview d)))))\<lparr>ch_tms := t\<rparr>"
    have n: "0 < bx_numBits e" "bx_numBits e \<le> 8" using e f(2) by (auto simp: extra_ok_def)
    have tk: "take (nat 3) cmd = cmd" using cmd by simp
    show "moves d ok d' (\<lambda>v. set_tms t (shift_view clk (bx_dst e) (nat (bx_toBit e)) cs v))"
      unfolding moves_def
    proof
      assume l: "dlinked d"
      from view_step_bits [of "bit_extras (fd_io ?d)" a e "nat (bx_numBits e)" clk cmd "dview d" t cs]
      have "length (ch_out (chip_feed clk cmd (fst (dview d)))) = 1
        \<and> view_step clk (bit_extras (fd_io ?d)) cmd (Some (Bit_copier a)) 1 (dview d)
          = set_tms t (shift_view clk (bx_dst e) (nat (bx_toBit e)) cs (dview d))"
        using f n by simp
      with p(5) link1 [OF l] show "ok \<and> dlinked d'
          \<and> dview d' = set_tms t (shift_view clk (bx_dst e) (nat (bx_toBit e)) cs (dview d))"
        unfolding tk moves_def by simp
    qed
  qed
  then show "c_out strict (c_bind (case x of (a, p) \<Rightarrow> case a of None \<Rightarrow> Fault NullDeref
       | Some addr \<Rightarrow> Ok (addr, d\<lparr>fd_pool := p,
           fd_io := (fd_io d)\<lparr>bit_extras := (bit_extras (fd_io d))(addr \<mapsto> e)\<rparr>\<rparr>))
      (\<lambda>(a, d'). on_buffer (\<lambda>b i.
         ft_buffer_add_write_to_chip_with_readback dx b i cmd 3 (Some (Bit_copier a)) 1) d'))
    (read_back_post strict k cmd e d)"
    by (simp add: x)
qed

subsubsection \<open>TMS shifts\<close>

lemma tms_step:
  assumes inv: "drv_inv dx d" and n: "0 < n" "n \<le> 6" "f + n \<le> 8 * length tms"
    and cmd: "tms_cmd (lastTdi d) tms (int f) (int n) = Ok cmd"
    and strict: "strict \<Longrightarrow> drv_room k d"
  shows "c_out strict (on_buffer (\<lambda>b i. ft_buffer_add_write_to_chip dx b i cmd 3) d) (\<lambda>(ok, d').
    drv_inv dx d' \<and> drv_same d d' \<and> lastTdi d' = lastTdi d \<and> (ok \<and> strict \<longrightarrow> drv_room k d')
    \<and> (idle (dview d) \<longrightarrow> moves d ok d' (tms_view clk (lastTdi d) (vbits tms f (f + n)))))"
proof -
  obtain w where w: "cmd = [0x4b, word_of_int (int n - 1), w]"
    "\<forall>i<n. bit w i = vbits tms f (f + n) ! i" "bit w n = last (vbits tms f (f + n))"
    "bit w 7 = lastTdi d"
    using tms_cmd_ok [OF n, of "lastTdi d"] cmd by auto
  have "c_out strict (on_buffer (\<lambda>b i.
      ft_buffer_add_write_to_chip_with_readback dx b i cmd 3 None 0) d) (\<lambda>(ok, d').
    drv_inv dx d' \<and> drv_same d d' \<and> fd_pool d' = fd_pool d \<and> lastTdi d' = lastTdi d
    \<and> (ok \<and> strict \<longrightarrow> roomy k (cmdBuffer d'))
    \<and> (int (length (ch_out (chip_feed clk (take (nat 3) cmd) (fst (dview d))))) = 0 \<longrightarrow>
       moves d ok d' (view_step clk (bit_extras (fd_io d)) (take (nat 3) cmd) None 0)))"
    using inv strict by (intro write_step) (auto simp: w drv_room_def drv_inv_def buf_inv_def)
  then show ?thesis
    unfolding ft_buffer_add_write_to_chip_def
  proof (rule c_out_mono, clarify, intro conjI impI; (elim conjE)?)
    fix ok d'
    assume p: "fd_pool d' = fd_pool d" "ok \<and> strict \<longrightarrow> roomy k (cmdBuffer d')"
      "int (length (ch_out (chip_feed clk (take (nat 3) cmd) (fst (dview d))))) = 0 \<longrightarrow>
       moves d ok d' (view_step clk (bit_extras (fd_io d)) (take (nat 3) cmd) None 0)"
    show "drv_room k d'" if ok strict using that p strict by (simp add: drv_room_def)
    assume "idle (dview d)"
    have "ch_out (chip_feed clk cmd (fst (dview d))) = []
        \<and> view_step clk (bit_extras (fd_io d)) cmd None 0 (dview d)
          = tms_view clk (lastTdi d) (vbits tms f (f + n)) (dview d)"
      unfolding w(1) using w n \<open>idle (dview d)\<close> count_byte [of n]
      by (intro view_step_tms [where n = n]) auto
    moreover have "take (nat 3) cmd = cmd" by (simp add: w)
    ultimately show "moves d ok d' (tms_view clk (lastTdi d) (vbits tms f (f + n)))"
      using p(3) by (simp add: moves_def)
  qed
qed

lemma append_tms_loop_out:
  assumes "drv_inv dx d" "f \<le> t" "t \<le> 8 * length tms" "strict \<Longrightarrow> drv_room k d"
  shows "c_out strict (append_tms_loop dx tms (int f) (int t) d) (\<lambda>(ok, d').
    drv_inv dx d' \<and> drv_same d d' \<and> lastTdi d' = lastTdi d \<and> (ok \<and> strict \<longrightarrow> drv_room k d')
    \<and> (idle (dview d) \<longrightarrow>
        moves d ok d' (if f < t then tms_view clk (lastTdi d) (vbits tms f t) else id)))"
  using assms
proof (induction "t - f" arbitrary: f d rule: less_induct)
  case less
  show ?case
  proof (cases "f < t")
    case False
    then show ?thesis using less.prems by (simp add: append_tms_loop.simps moves_def)
  next
    case True
    define n where "n = min (t - f) 6"
    have n: "0 < n" "n \<le> 6" "f + n \<le> t" using True by (auto simp: n_def)
    have cm: "c_min (int t - int f) 6 = int n" using True by (auto simp: c_min_def n_def)
    have len: "f + n \<le> 8 * length tms" using n less.prems by simp
    obtain cmd where cmd: "tms_cmd (lastTdi d) tms (int f) (int n) = Ok cmd"
      using tms_cmd_ok [OF n(1,2) len] by blast
    have fn: "int f + int n = int (f + n)" by simp
    show ?thesis
      using True
      apply (subst append_tms_loop.simps)
      apply (simp only: of_nat_less_iff if_True Let_def cm cmd c_bind.simps fn)
      apply (rule c_out_bindI [OF tms_step [OF less.prems(1) n(1,2) len cmd less.prems(4)]])
       apply assumption
      apply clarify
      subgoal for ok d1
      proof (cases ok)
        case False
        assume "drv_inv dx d1" "drv_same d d1" "lastTdi d1 = lastTdi d"
          "idle (dview d) \<longrightarrow> moves d ok d1 (tms_view clk (lastTdi d) (vbits tms f (f + n)))"
        with False show ?thesis by (auto simp: moves_def)
      next
        case True
        assume p: "drv_inv dx d1" "drv_same d d1" "lastTdi d1 = lastTdi d"
          "ok \<and> strict \<longrightarrow> drv_room k d1"
          "idle (dview d) \<longrightarrow> moves d ok d1 (tms_view clk (lastTdi d) (vbits tms f (f + n)))"
        have IH: "c_out strict (append_tms_loop dx tms (int (f + n)) (int t) d1) (\<lambda>(ok, d').
            drv_inv dx d' \<and> drv_same d1 d' \<and> lastTdi d' = lastTdi d1 \<and> (ok \<and> strict \<longrightarrow> drv_room k d')
            \<and> (idle (dview d1) \<longrightarrow> moves d1 ok d' (if f + n < t
                 then tms_view clk (lastTdi d1) (vbits tms (f + n) t) else id)))"
          using n p True less.prems by (intro less.hyps) auto
        have ne: "f + n < t \<Longrightarrow> vbits tms (f + n) t \<noteq> []" by (simp add: vbits_Cons)
        have sp: "vbits tms f t = vbits tms f (f + n) @ vbits tms (f + n) t"
          using n by (simp add: vbits_append)
        have eff: "tms_view clk lv (vbits tms f t) v
            = (if f + n < t then tms_view clk lv (vbits tms (f + n) t) else id)
                (tms_view clk lv (vbits tms f (f + n)) v)" for lv v
        proof (cases "f + n < t")
          case True
          then show ?thesis unfolding sp by (simp only: if_True tms_view_append [OF ne [OF True]])
        next
          case False
          with n(3) have "f + n = t" by simp
          then show ?thesis by simp
        qed
        have "c_out strict (append_tms_loop dx tms (int (f + n)) (int t) d1) (\<lambda>(ok, d').
            drv_inv dx d' \<and> drv_same d d' \<and> lastTdi d' = lastTdi d \<and> (ok \<and> strict \<longrightarrow> drv_room k d')
            \<and> (idle (dview d) \<longrightarrow>
                moves d ok d' (if f < t then tms_view clk (lastTdi d) (vbits tms f t) else id)))"
        proof (rule c_out_mono [OF IH], clarify, intro conjI impI)
          fix ok2 d2
          assume q: "drv_same d1 d2" "lastTdi d2 = lastTdi d1"
            "idle (dview d1) \<longrightarrow> moves d1 ok2 d2 (if f + n < t
                 then tms_view clk (lastTdi d1) (vbits tms (f + n) t) else id)"
          show "drv_same d d2" using p(2) q(1) by (rule drv_same_trans)
          show "lastTdi d2 = lastTdi d" using p(3) q(2) by simp
          assume "idle (dview d)"
          then show "moves d ok2 d2
              (if f < t then tms_view clk (lastTdi d) (vbits tms f t) else id)"
            unfolding moves_def
          proof (intro impI)
            assume "dlinked d"
            with p(3,5) True \<open>idle (dview d)\<close> have d1: "dlinked d1"
              "dview d1 = tms_view clk (lastTdi d) (vbits tms f (f + n)) (dview d)"
              by (simp_all add: moves_def)
            with \<open>idle (dview d)\<close> have "idle (dview d1)" by simp
            with q(3) d1(1) have "ok2 \<and> dlinked d2 \<and> dview d2 = (if f + n < t
                 then tms_view clk (lastTdi d1) (vbits tms (f + n) t) else id) (dview d1)"
              by (simp only: moves_def simp_thms)
            then show "ok2 \<and> dlinked d2 \<and> dview d2
                = (if f < t then tms_view clk (lastTdi d) (vbits tms f t) else id) (dview d)"
              using \<open>f < t\<close> p(3) by (simp only: eff d1(2) if_True)
          qed
        qed simp_all
        with True \<open>f < t\<close> show ?thesis by simp
      qed
      done
  qed
qed

lemma append_tms_out:
  assumes "drv_inv dx d" "f < t" "t \<le> 8 * length tms" "strict \<Longrightarrow> drv_room k d"
  shows "c_out strict (append_tms_shift_to_transaction dx tms (int f) (int t) d) (\<lambda>(ok, d').
    drv_inv dx d' \<and> drv_same d d' \<and> lastTdi d' = lastTdi d \<and> (ok \<and> strict \<longrightarrow> drv_room k d')
    \<and> (idle (dview d) \<longrightarrow> moves d ok d' (tms_view clk (lastTdi d) (vbits tms f t))))"
  using append_tms_loop_out [OF assms(1) _ assms(3,4), of f] assms(2)
  by (simp add: append_tms_shift_to_transaction_def)

subsubsection \<open>TDI shifts\<close>

text \<open>Clocking the TDI bits from \<open>c\<close> up to \<open>c'\<close> at the current level of TMS.\<close>

definition adv :: "u8 list \<Rightarrow> buf_ref \<Rightarrow> nat \<Rightarrow> nat \<Rightarrow> 'd view \<Rightarrow> 'd view" where
  "adv tdi tdo c c' v = shift_view clk tdo c (map (Pair (ch_tms (fst v))) (vbits tdi c c')) v"

lemma adv_same [simp]: "adv tdi tdo c c v = v"
  by (simp add: adv_def)

lemma adv_fields [simp]:
  "idle (adv tdi tdo c c' v) = idle v" "ch_tms (fst (adv tdi tdo c c' v)) = ch_tms (fst v)"
  "mem_size (snd (adv tdi tdo c c' v)) = mem_size (snd v)"
  by (simp_all add: adv_def)

lemma adv_trans:
  assumes "c \<le> c'" "c' \<le> c''" "c'' \<le> 8 * mem_size (snd v) tdo"
  shows "adv tdi tdo c' c'' (adv tdi tdo c c' v) = adv tdi tdo c c'' v"
  using assms shift_view_append [of c "map (Pair (ch_tms (fst v))) (vbits tdi c c')"
      "map (Pair (ch_tms (fst v))) (vbits tdi c' c'')" v tdo clk]
  by (simp add: adv_def vbits_append flip: map_append)

lemma dview_sizes: "dlinked d \<Longrightarrow> mem_size (snd (dview d)) = drv_sizes d"
  by (simp add: dlinked_def dview_def drv_sizes_def view_sizes)

text \<open>The outcome of a step from bit \<open>c\<close> that does not reach the last bit.\<close>

definition tdi_post ::
  "bool \<Rightarrow> nat \<Rightarrow> u8 list \<Rightarrow> buf_ref \<Rightarrow> nat \<Rightarrow> (nat \<Rightarrow> bool) \<Rightarrow> nat \<Rightarrow> 'w ftdi \<Rightarrow> bool \<times> int \<times> 'w ftdi \<Rightarrow> bool"
where
  "tdi_post strict N tdi tdo t R c d = (\<lambda>(ok, cur, d'). drv_inv dx d' \<and> drv_same d d'
     \<and> lastTdi d' = lastTdi d
     \<and> (\<exists>c'. cur = int c' \<and> c \<le> c' \<and> c' < t \<and> (ok \<longrightarrow> R c') \<and> (ok \<and> strict \<longrightarrow> drv_room (N - c') d')
         \<and> (idle (dview d) \<longrightarrow> moves d ok d' (adv tdi tdo c c'))))"

lemma tdi_post_bind:
  assumes m: "c_out strict m (tdi_post strict N tdi tdo t R c d)"
    and size: "t \<le> 8 * drv_sizes d tdo"
    and f: "\<And>c' d'. c \<le> c' \<Longrightarrow> c' < t \<Longrightarrow> R c' \<Longrightarrow> drv_inv dx d' \<Longrightarrow> drv_same d d' \<Longrightarrow>
      (strict \<Longrightarrow> drv_room (N - c') d') \<Longrightarrow> c_out strict (f (int c') d') (tdi_post strict N tdi tdo t Q c' d')"
  shows "c_out strict (and_then m f) (tdi_post strict N tdi tdo t Q c d)"
  unfolding and_then_def
proof (rule c_out_bindI [OF m], clarify)
  fix ok cur d1
  assume "tdi_post strict N tdi tdo t R c d (ok, cur, d1)"
  then obtain c1 where 1: "drv_inv dx d1" "drv_same d d1" "lastTdi d1 = lastTdi d" "cur = int c1"
    "c \<le> c1" "c1 < t" "ok \<longrightarrow> R c1" "ok \<and> strict \<longrightarrow> drv_room (N - c1) d1"
    "idle (dview d) \<longrightarrow> moves d ok d1 (adv tdi tdo c c1)"
    by (auto simp: tdi_post_def)
  show "c_out strict (if \<not> ok then Ok (False, cur, d1) else f cur d1) (tdi_post strict N tdi tdo t Q c d)"
  proof (cases ok)
    case False
    with 1 show ?thesis by (auto simp: tdi_post_def)
  next
    case True
    have "c_out strict (f (int c1) d1) (tdi_post strict N tdi tdo t Q c1 d1)"
      using 1 True by (intro f) auto
    then have "c_out strict (f (int c1) d1) (tdi_post strict N tdi tdo t Q c d)"
    proof (rule c_out_mono)
      fix x
      assume "tdi_post strict N tdi tdo t Q c1 d1 x"
      then obtain ok2 d2 c2 where x: "x = (ok2, int c2, d2)"
        and 2: "drv_inv dx d2" "drv_same d1 d2" "lastTdi d2 = lastTdi d1" "c1 \<le> c2" "c2 < t"
          "ok2 \<longrightarrow> Q c2" "ok2 \<and> strict \<longrightarrow> drv_room (N - c2) d2"
          "idle (dview d1) \<longrightarrow> moves d1 ok2 d2 (adv tdi tdo c1 c2)"
        by (cases x) (auto simp: tdi_post_def)
      have "moves d ok2 d2 (adv tdi tdo c c2)" if i: "idle (dview d)"
        unfolding moves_def
      proof
        assume l: "dlinked d"
        with 1(9) i have v: "dlinked d1" "dview d1 = adv tdi tdo c c1 (dview d)"
          by (simp_all add: moves_def)
        then have "idle (dview d1)" using i by simp
        with 2(8) v(1) have "ok2 \<and> dlinked d2 \<and> dview d2 = adv tdi tdo c1 c2 (dview d1)"
          by (simp add: moves_def)
        then show "ok2 \<and> dlinked d2 \<and> dview d2 = adv tdi tdo c c2 (dview d)"
          using 1(5) 2(4,5) size by (simp add: v(2) adv_trans dview_sizes [OF l])
      qed
      moreover have "drv_same d d2" using 1(2) 2(2) by (rule drv_same_trans)
      ultimately show "tdi_post strict N tdi tdo t Q c d x"
        using 1 2 by (auto simp: tdi_post_def x intro!: exI [of _ c2])
    qed
    with True 1(4) show ?thesis by simp
  qed
qed

lemma tdi_post_mono:
  "c_out strict m (tdi_post strict N tdi tdo t R c d) \<Longrightarrow> (\<And>c'. c \<le> c' \<Longrightarrow> c' < t \<Longrightarrow> R c' \<Longrightarrow> Q c') \<Longrightarrow>
   c_out strict m (tdi_post strict N tdi tdo t Q c d)"
  by (erule c_out_mono) (auto simp: tdi_post_def)

lemma tdi_post_skip:
  "drv_inv dx d \<Longrightarrow> c < t \<Longrightarrow> R c \<Longrightarrow> (strict \<Longrightarrow> drv_room (N - c) d) \<Longrightarrow>
   tdi_post strict N tdi tdo t R c d (True, int c, d)"
  by (auto simp: tdi_post_def moves_def)

text \<open>A bit-mode command for bits of one octet.\<close>

lemma tdi_clocks_octet_bits:
  "c mod 8 + n \<le> 8 \<Longrightarrow>
   tdi_clocks tms n (drop_bit (c mod 8) (tdi ! (c div 8))) = map (Pair tms) (vbits tdi c (c + n))"
proof (rule nth_equalityI)
  fix i
  assume n: "c mod 8 + n \<le> 8" and "i < length (tdi_clocks tms n (drop_bit (c mod 8) (tdi ! (c div 8))))"
  then have "i < n" by (simp add: tdi_clocks_def)
  then have "c mod 8 + i < 8" using n by simp
  then have "(c + i) div 8 = c div 8" "(c + i) mod 8 = c mod 8 + i"
    by (simp_all add: octet_offset)
  then show "tdi_clocks tms n (drop_bit (c mod 8) (tdi ! (c div 8))) ! i
      = map (Pair tms) (vbits tdi c (c + n)) ! i"
    using \<open>i < n\<close> by (simp add: tdi_clocks_def vbit_def bit_drop_bit_eq)
qed (simp add: tdi_clocks_def)

lemma set_tms_same: "ch_tms (fst v) = b \<Longrightarrow> set_tms b v = v"
  by (cases v) (simp add: set_tms_def)

lemma octet_bits_step:
  assumes inv: "drv_inv dx d" and n: "0 < n" "c mod 8 + n \<le> 8" "c + n < t"
    and size: "t \<le> 8 * drv_sizes d tdo" and tN: "t \<le> N" and room: "strict \<Longrightarrow> drv_room (N - c) d"
    and R: "R (c + n)"
  shows "c_out strict (c_bind (read_back_bits dx
      [op_bits, word_of_int (int n - 1), drop_bit (c mod 8) (tdi ! (c div 8))]
      \<lparr>bx_fromBit = 8 - int n, bx_dst = tdo, bx_toBit = int c, bx_numBits = int n\<rparr> d)
      (\<lambda>(ok, d'). if \<not> ok then Ok (False, int c, d') else Ok (True, int c + int n, d')))
    (tdi_post strict N tdi tdo t R c d)"
proof -
  let ?cmd = "[op_bits, word_of_int (int n - 1), drop_bit (c mod 8) (tdi ! (c div 8))]"
  let ?e = "\<lparr>bx_fromBit = 8 - int n, bx_dst = tdo, bx_toBit = int c, bx_numBits = int n\<rparr>"
  have "c_out strict (read_back_bits dx ?cmd ?e d) (read_back_post strict (N - Suc c) ?cmd ?e d)"
  proof (rule read_back_step [OF inv])
    show "extra_ok (drv_sizes d) ?e" using n size by (auto simp: extra_ok_def)
    assume strict
    with room n tN show "drv_room (Suc (N - Suc c)) d" by (simp add: Suc_diff_Suc)
  qed simp
  then show ?thesis
  proof (rule c_out_bindI, clarify)
    fix ok d1
    assume "read_back_post strict (N - Suc c) ?cmd ?e d (ok, d1)"
    then have p: "drv_inv dx d1" "drv_same d d1" "lastTdi d1 = lastTdi d"
      "ok \<and> strict \<longrightarrow> drv_room (N - Suc c) d1"
      "\<And>cs b. idle (dview d) \<Longrightarrow> length cs = n \<Longrightarrow> chip_feed clk ?cmd (fst (dview d))
         = (chip_answer (snd (do_clocks clk cs (fst (dview d)))))\<lparr>ch_tms := b\<rparr> \<Longrightarrow>
         moves d ok d1 (\<lambda>v. set_tms b (shift_view clk tdo c cs v))"
      by (auto simp: read_back_post_def)
    have "moves d ok d1 (adv tdi tdo c (c + n))" if i: "idle (dview d)"
    proof -
      let ?b = "ch_tms (fst (dview d))"
      let ?cs = "map (Pair ?b) (vbits tdi c (c + n))"
      have "chip_feed clk ?cmd (fst (dview d))
          = (chip_answer (snd (do_clocks clk ?cs (fst (dview d)))))\<lparr>ch_tms := ?b\<rparr>"
        using feed_op_bits [OF i, of "word_of_int (int n - 1)" n clk "drop_bit (c mod 8) (tdi ! (c div 8))"]
          count_byte [of n] n tdi_clocks_octet_bits [OF n(2), of ?b tdi] by simp
      from p(5) [OF i _ this] have "moves d ok d1 (\<lambda>v. set_tms ?b (shift_view clk tdo c ?cs v))" by simp
      then show ?thesis by (simp add: moves_def adv_def set_tms_same)
    qed
    moreover have "ok \<and> strict \<longrightarrow> drv_room (N - (c + n)) d1"
      using p(4) n by (auto elim: drv_room_mono)
    ultimately show "c_out strict (if \<not> ok then Ok (False, int c, d1) else Ok (True, int c + int n, d1))
        (tdi_post strict N tdi tdo t R c d)"
      using p n R by (auto simp: tdi_post_def moves_def intro: exI [of _ "c + n"] exI [of _ c])
  qed
qed

lemma tdi_leading_out:
  assumes inv: "drv_inv dx d" and ft: "f \<le> c" "c < t" "t \<le> 8 * length tdi"
    and size: "t \<le> 8 * drv_sizes d tdo" and tN: "t \<le> N" and room: "strict \<Longrightarrow> drv_room (N - c) d"
  shows "c_out strict (tdi_leading dx tdi tdo (int f) (int t) (int c) d)
    (tdi_post strict N tdi tdo t (\<lambda>c'. c' = (if c = f then f + lead f t else c)) c d)"
proof -
  have "f < t" using ft by simp
  note rs = range_simps [OF this] and lf = lead_facts [OF this]
  show ?thesis
  proof (cases "c = f \<and> 0 < lead f t")
    case True
    then have c: "c = f" and n: "0 < lead f t" by simp_all
    have "f div 8 < length tdi" using ft c by (intro octet_index) simp
    then show ?thesis
      using octet_bits_step [OF inv, of "lead f t" f t tdo N strict "\<lambda>c'. c' = f + lead f t" tdi]
        n lf ft size tN room
      unfolding c
      by (simp add: tdi_leading_def rs Let_def int_octet_sdiv int_octet_smod rd_at_nat
          del: of_nat_mod of_nat_div)
  next
    case False
    then have "(if c = f then f + lead f t else c) = c" by auto
    with False show ?thesis
      using inv ft room by (auto simp: tdi_leading_def rs Let_def intro!: tdi_post_skip)
  qed
qed

lemma tdi_trailing_out:
  assumes inv: "drv_inv dx d" and ft: "f \<le> c" "c < t" "t \<le> 8 * length tdi"
    and size: "t \<le> 8 * drv_sizes d tdo" and tN: "t \<le> N" and room: "strict \<Longrightarrow> drv_room (N - c) d"
  shows "c_out strict (tdi_trailing dx tdi tdo (int f) (int t) (int c) d)
    (tdi_post strict N tdi tdo t
      (\<lambda>c'. c' = (if \<not> short_range f t \<and> c = inner_end t then t - 1 else c)) c d)"
proof -
  have "f < t" using ft by simp
  note rs = range_simps [OF this]
  let ?n = "(t - 1) mod 8"
  have en: "inner_end t + ?n = t - 1" by (simp add: inner_end_def)
  have e8: "inner_end t mod 8 = 0" by (simp add: inner_end_def)
  show ?thesis
  proof (cases "\<not> short_range f t \<and> c = inner_end t \<and> 0 < ?n")
    case True
    then have c: "c = inner_end t" and n: "0 < ?n" and ns: "\<not> short_range f t" by simp_all
    have "c div 8 < length tdi" using ft by (intro octet_index) simp
    moreover have "c + ?n < t" using en c ft by linarith
    moreover have "c_out strict (c_bind (read_back_bits dx
        [op_bits, word_of_int (int ?n - 1), drop_bit (inner_end t mod 8) (tdi ! (inner_end t div 8))]
        \<lparr>bx_fromBit = 8 - int ?n, bx_dst = tdo, bx_toBit = int (inner_end t), bx_numBits = int ?n\<rparr> d)
        (\<lambda>(ok, d'). if \<not> ok then Ok (False, int (inner_end t), d')
                    else Ok (True, int (inner_end t) + int ?n, d')))
      (tdi_post strict N tdi tdo t (\<lambda>c'. c' = t - 1) (inner_end t) d)"
      using n en e8 ft size tN room unfolding c
      by (intro octet_bits_step [OF inv]) (simp_all del: of_nat_mod)
    ultimately show ?thesis
      using ns n unfolding c
      by (simp add: tdi_trailing_def rs Let_def int_octet_sdiv rd_at_nat e8
          del: of_nat_mod of_nat_div One_nat_def)
  next
    case False
    moreover have "(if \<not> short_range f t \<and> c = inner_end t then t - 1 else c) = c"
      using False en by auto
    ultimately show ?thesis
      using inv ft room by (auto simp: tdi_trailing_def rs Let_def intro!: tdi_post_skip)
  qed
qed

text \<open>Whole octets: a header and, in a second call that may flush in between, the data.\<close>

lemma write_simple_step:
  assumes inv: "drv_inv dx d" and nm: "0 \<le> n" "0 < m" "n < 2 ^ 30" "m < 2 ^ 30" "nat n \<le> length data"
    and fn: "0 \<le> off" "off + m \<le> int (drv_sizes d r)"
    and strict: "strict \<Longrightarrow> n \<le> chipBufferBytes d \<and> m \<le> chipBufferBytes d
      \<and> roomy (Suc k) (cmdBuffer d)"
  shows "c_out strict (on_buffer (\<lambda>b i.
      ft_buffer_add_write_to_chip_with_readback_simple dx b i data n r off m) d) (\<lambda>(ok, d').
    drv_inv dx d' \<and> drv_same d d' \<and> fd_pool d' = fd_pool d \<and> lastTdi d' = lastTdi d
    \<and> (ok \<and> strict \<longrightarrow> roomy k (cmdBuffer d'))
    \<and> (int (length (ch_out (chip_feed clk (take (nat n) data) (fst (dview d))))) = m \<longrightarrow>
       moves d ok d' (view_step clk (bit_extras (fd_io d)) (take (nat n) data)
         (Some (Byte_copier r off m)) m)))"
  unfolding on_buffer_def
proof (rule c_out_bindI)
  show "c_out strict (ft_buffer_add_write_to_chip_with_readback_simple dx (cmdBuffer d) (fd_io d) data n r off m)
    (\<lambda>(ok, b', i'). buf_inv (bit_extras (fd_io d)) (mem_size (mem (fd_io d))) b'
       \<and> same_cfg (cmdBuffer d) b' \<and> io_same (fd_io d) i'
       \<and> (\<not> ok \<longrightarrow> ft_buffer_ensure_can_append dx (cmdBuffer d) (fd_io d) n m = Ok (False, b', i'))
       \<and> (ok \<longrightarrow> (strict \<longrightarrow> roomy k b')
            \<and> (\<exists>b1. ft_buffer_ensure_can_append dx (cmdBuffer d) (fd_io d) n m = Ok (True, b1, i')
                  \<and> appended b1 b' data n (Some (Byte_copier r off m)) m)))"
    using inv nm fn strict by (intro add_write_simple_out) (auto simp: drv_inv_def drv_sizes_def)
next
  fix x
  assume "case x of (ok, b', i') \<Rightarrow> buf_inv (bit_extras (fd_io d)) (mem_size (mem (fd_io d))) b'
       \<and> same_cfg (cmdBuffer d) b' \<and> io_same (fd_io d) i'
       \<and> (\<not> ok \<longrightarrow> ft_buffer_ensure_can_append dx (cmdBuffer d) (fd_io d) n m = Ok (False, b', i'))
       \<and> (ok \<longrightarrow> (strict \<longrightarrow> roomy k b')
            \<and> (\<exists>b1. ft_buffer_ensure_can_append dx (cmdBuffer d) (fd_io d) n m = Ok (True, b1, i')
                  \<and> appended b1 b' data n (Some (Byte_copier r off m)) m))"
  then show "c_out strict (case x of (ok, b, i) \<Rightarrow> Ok (ok, d\<lparr>cmdBuffer := b, fd_io := i\<rparr>))
    (\<lambda>(ok, d'). drv_inv dx d' \<and> drv_same d d' \<and> fd_pool d' = fd_pool d \<and> lastTdi d' = lastTdi d
    \<and> (ok \<and> strict \<longrightarrow> roomy k (cmdBuffer d'))
    \<and> (int (length (ch_out (chip_feed clk (take (nat n) data) (fst (dview d))))) = m \<longrightarrow>
       moves d ok d' (view_step clk (bit_extras (fd_io d)) (take (nat n) data)
         (Some (Byte_copier r off m)) m)))"
    using inv nm fn by (intro queued_out) (auto simp: drv_sizes_def)
qed

lemma inner_chunk:
  assumes inv: "drv_inv dx d" and k: "0 < k" "k \<le> 65536" and c: "c mod 8 = 0" "c + 8 * k < t"
    and tdi: "t \<le> 8 * length tdi" and size: "t \<le> 8 * drv_sizes d tdo" and tN: "t \<le> N"
    and room: "strict \<Longrightarrow> drv_room (N - c) d \<and> int k \<le> chipBufferBytes d"
    and R: "R (c + 8 * k)"
  shows "c_out strict (c_bind (on_buffer (\<lambda>b i. ft_buffer_add_write_to_chip dx b i
        [op_octets, word_of_int (int k - 1), word_of_int ((int k - 1) div 256)] 3) d) (\<lambda>(ok, d').
      if \<not> ok then Ok (False, int c, d')
      else c_bind (on_buffer (\<lambda>b i. ft_buffer_add_write_to_chip_with_readback_simple dx b i
             (drop (c div 8) tdi) (int k) tdo (int (c div 8)) (int k)) d') (\<lambda>(ok, d'').
        if \<not> ok then Ok (False, int c, d'') else Ok (True, int c + int k * 8, d''))))
    (tdi_post strict N tdi tdo t R c d)"
proof -
  let ?h = "[op_octets, word_of_int (int k - 1), word_of_int ((int k - 1) div 256)]"
  let ?vs = "take k (drop (c div 8) tdi)"
  have c8: "8 * (c div 8) = c" using c(1) by (simp add: mult.commute div_mult_self1_is_m dvd_eq_mod_eq_0)
  have len: "length ?vs = k" using c c8 tdi by auto
  have tk: "take (nat 3) ?h = ?h" by simp
  have head: "c_out strict (on_buffer (\<lambda>b i. ft_buffer_add_write_to_chip dx b i ?h 3) d) (\<lambda>(ok, d').
    drv_inv dx d' \<and> drv_same d d' \<and> fd_pool d' = fd_pool d \<and> lastTdi d' = lastTdi d
    \<and> (ok \<and> strict \<longrightarrow> roomy (N - c) (cmdBuffer d'))
    \<and> (int (length (ch_out (chip_feed clk (take (nat 3) ?h) (fst (dview d))))) = 0 \<longrightarrow>
       moves d ok d' (view_step clk (bit_extras (fd_io d)) (take (nat 3) ?h) None 0)))"
    unfolding ft_buffer_add_write_to_chip_def
    using inv room by (intro write_step) (auto simp: drv_room_def drv_inv_def buf_inv_def)
  show ?thesis
  proof (rule c_out_bindI [OF head], clarify)
    fix ok d1
    assume 1: "drv_inv dx d1" "drv_same d d1" "fd_pool d1 = fd_pool d" "lastTdi d1 = lastTdi d"
      "ok \<and> strict \<longrightarrow> roomy (N - c) (cmdBuffer d1)"
      "int (length (ch_out (chip_feed clk (take (nat 3) ?h) (fst (dview d))))) = 0 \<longrightarrow>
       moves d ok d1 (view_step clk (bit_extras (fd_io d)) (take (nat 3) ?h) None 0)"
    have oct: "ch_out (chip_feed clk ?h (fst (dview d))) = []
      \<and> length (ch_out (chip_feed clk ?vs (fst (view_step clk ex ?h None 0 (dview d))))) = k
      \<and> view_step clk ex' ?vs (Some (Byte_copier tdo (int (c div 8)) (int k))) (int k)
          (view_step clk ex ?h None 0 (dview d)) = adv tdi tdo c (c + 8 * k) (dview d)"
      if "idle (dview d)" for ex ex'
    proof -
      have "vbits ?vs 0 (8 * k) = vbits tdi c (c + 8 * k)"
        using vbits_drop [of "c div 8" k tdi "8 * k" 0] tdi c by (simp add: vbits_take c8)
      then show ?thesis
        using view_step_octets [OF that, of ?vs "word_of_int (int k - 1)"
            "word_of_int ((int k - 1) div 256)" clk ex ex' tdo "c div 8"] k
        by (simp add: len adv_def c8 del: length_take length_drop)
    qed
    have m1: "moves d ok d1 (view_step clk (bit_extras (fd_io d)) ?h None 0)" if "idle (dview d)"
      using 1(6) oct [OF that] unfolding tk by simp
    show "c_out strict (if \<not> ok then Ok (False, int c, d1)
      else c_bind (on_buffer (\<lambda>b i. ft_buffer_add_write_to_chip_with_readback_simple dx b i
             (drop (c div 8) tdi) (int k) tdo (int (c div 8)) (int k)) d1) (\<lambda>(ok, d'').
        if \<not> ok then Ok (False, int c, d'') else Ok (True, int c + int k * 8, d'')))
      (tdi_post strict N tdi tdo t R c d)"
    proof (cases ok)
      case False
      with 1 m1 c show ?thesis by (auto simp: tdi_post_def moves_def intro: exI [of _ c])
    next
      case True
      have sz: "drv_sizes d1 = drv_sizes d" and chip: "chipBufferBytes d1 = chipBufferBytes d"
        using 1(2) by (simp_all add: drv_same_def)
      have data: "c_out strict (on_buffer (\<lambda>b i. ft_buffer_add_write_to_chip_with_readback_simple dx b i
             (drop (c div 8) tdi) (int k) tdo (int (c div 8)) (int k)) d1) (\<lambda>(ok, d').
        drv_inv dx d' \<and> drv_same d1 d' \<and> fd_pool d' = fd_pool d1 \<and> lastTdi d' = lastTdi d1
        \<and> (ok \<and> strict \<longrightarrow> roomy (N - Suc c) (cmdBuffer d'))
        \<and> (int (length (ch_out (chip_feed clk (take (nat (int k)) (drop (c div 8) tdi)) (fst (dview d1))))) = int k \<longrightarrow>
           moves d1 ok d' (view_step clk (bit_extras (fd_io d1)) (take (nat (int k)) (drop (c div 8) tdi))
             (Some (Byte_copier tdo (int (c div 8)) (int k))) (int k))))"
      proof (rule write_simple_step [OF 1(1)])
        have "c div 8 + k \<le> drv_sizes d tdo" using c c8 size by linarith
        then show "int (c div 8) + int k \<le> int (drv_sizes d1 tdo)" by (simp add: sz)
        have "Suc (N - Suc c) = N - c" using c tN by simp
        then show "strict \<Longrightarrow> int k \<le> chipBufferBytes d1 \<and> int k \<le> chipBufferBytes d1
            \<and> roomy (Suc (N - Suc c)) (cmdBuffer d1)"
          using room True 1(5) by (simp add: chip)
      qed (use k len in auto)
      show ?thesis
        using True
      proof (simp, intro c_out_bindI [OF data], clarify)
        fix ok2 d2
        assume 2: "drv_inv dx d2" "drv_same d1 d2" "fd_pool d2 = fd_pool d1" "lastTdi d2 = lastTdi d1"
          "ok2 \<and> strict \<longrightarrow> roomy (N - Suc c) (cmdBuffer d2)"
          "int (length (ch_out (chip_feed clk (take (nat (int k)) (drop (c div 8) tdi)) (fst (dview d1))))) = int k \<longrightarrow>
           moves d1 ok2 d2 (view_step clk (bit_extras (fd_io d1)) (take (nat (int k)) (drop (c div 8) tdi))
             (Some (Byte_copier tdo (int (c div 8)) (int k))) (int k))"
        have "moves d ok2 d2 (adv tdi tdo c (c + 8 * k))" if i: "idle (dview d)"
          unfolding moves_def
        proof
          assume l: "dlinked d"
          with m1 [OF i] True have v: "dlinked d1"
            "dview d1 = view_step clk (bit_extras (fd_io d)) ?h None 0 (dview d)"
            by (simp_all add: moves_def)
          with 2(6) oct [OF i, of "bit_extras (fd_io d)" "bit_extras (fd_io d1)"]
          show "ok2 \<and> dlinked d2 \<and> dview d2 = adv tdi tdo c (c + 8 * k) (dview d)"
            by (simp add: moves_def)
        qed
        moreover have "ok2 \<and> strict \<longrightarrow> drv_room (N - (c + 8 * k)) d2"
          using 2(3,5) 1(3) room k
          by (auto simp: drv_room_def elim: roomy_mono)
        moreover have "drv_same d d2" using 1(2) 2(2) by (rule drv_same_trans)
        ultimately show "c_out strict (if \<not> ok2 then Ok (False, int c, d2)
            else Ok (True, int c + int k * 8, d2)) (tdi_post strict N tdi tdo t R c d)"
          using 1(4) 2(1,4) c R
          by (auto simp: tdi_post_def moves_def intro: exI [of _ c] intro!: exI [of _ "c + 8 * k"])
      qed
    qed
  qed
qed

lemma tdi_inner_out:
  assumes inv: "drv_inv dx d" and ft: "f < t" "f \<le> c" "c < t" "t \<le> 8 * length tdi"
    and c8: "\<not> short_range f t \<Longrightarrow> c < inner_end t \<Longrightarrow> c mod 8 = 0"
    and size: "t \<le> 8 * drv_sizes d tdo" and tN: "t \<le> N" and room: "strict \<Longrightarrow> drv_room (N - c) d"
  shows "c_out strict (tdi_inner dx tdi tdo (int f) (int t) (int c) d)
    (tdi_post strict N tdi tdo t (\<lambda>c'. if \<not> short_range f t \<and> c < inner_end t
       then c' mod 8 = 0 \<and> c < c' \<and> c' \<le> inner_end t else c' = c) c d)"
proof -
  note rs = range_simps [OF ft(1)] and lf = lead_facts [OF ft(1)]
  show ?thesis
  proof (cases "\<not> short_range f t \<and> c < inner_end t")
    case False
    then have "\<not> int c < innerEndIdx (int f) (int t)" by (auto simp: rs)
    then show ?thesis
      using False inv ft room by (auto simp: tdi_inner_def intro!: tdi_post_skip)
  next
    case True
    let ?e = "inner_end t"
    obtain chip where chip: "chipBufferBytes d = int chip" "3 \<le> chip" "chip \<le> 65536"
      using inv nonneg_int_cases [of "chipBufferBytes d"]
      by (force simp: drv_inv_def buf_inv_def)
    define k where "k = min ((?e - c) div 8) chip"
    have cm: "c mod 8 = 0" using c8 True by simp
    have em: "?e mod 8 = 0" by (simp add: inner_end_def)
    have "8 dvd ?e - c" using cm em by (simp add: mod_eq_0_iff_dvd dvd_diff_nat)
    then have ec: "8 * ((?e - c) div 8) = ?e - c" "0 < (?e - c) div 8"
      using True by auto
    have et: "?e < t" using ft(1) by (simp add: inner_end_def)
    have k: "0 < k" "k \<le> 65536" "c + 8 * k \<le> ?e"
      using ec chip True by (auto simp: k_def)
    have sd: "(int ?e - int c) sdiv 8 = int ((?e - c) div 8)"
      using True by (simp only: int_octet_sdiv [symmetric]) simp
    have mn: "c_min ((int ?e - int c) sdiv 8) (int chip) = int k"
      unfolding sd by (simp only: c_min_def k_def) auto
    have asserts: "int (f + lead f t) smod 8 = 0" "int ?e smod 8 = 0" "int c smod 8 = 0"
      using lf(3) True cm em by (simp_all only: int_octet_smod dvd_eq_mod_eq_0) simp_all
    have lt: "int c < int ?e" using True by simp
    have R: "(c + 8 * k) mod 8 = 0 \<and> c < c + 8 * k \<and> c + 8 * k \<le> ?e" using cm k by simp
    have "strict \<Longrightarrow> int k \<le> chipBufferBytes d" by (simp add: chip k_def)
    then have chunk: "c_out strict (c_bind (on_buffer (\<lambda>b i. ft_buffer_add_write_to_chip dx b i
        [op_octets, word_of_int (int k - 1), word_of_int ((int k - 1) div 256)] 3) d) (\<lambda>(ok, d').
      if \<not> ok then Ok (False, int c, d')
      else c_bind (on_buffer (\<lambda>b i. ft_buffer_add_write_to_chip_with_readback_simple dx b i
             (drop (c div 8) tdi) (int k) tdo (int (c div 8)) (int k)) d') (\<lambda>(ok, d'').
        if \<not> ok then Ok (False, int c, d'') else Ok (True, int c + int k * 8, d''))))
      (tdi_post strict N tdi tdo t (\<lambda>c'. c' mod 8 = 0 \<and> c < c' \<and> c' \<le> ?e) c d)"
      using inner_chunk [OF inv k(1,2) cm _ ft(4) size tN, where
          R = "\<lambda>c'. c' mod 8 = 0 \<and> c < c' \<and> c' \<le> ?e"] k(3) et room R by simp
    have ends: "innerBeginIdx (int f) (int t) = int (f + lead f t)"
      "innerEndIdx (int f) (int t) = int ?e"
      using True by (simp_all only: rs) simp_all
    show ?thesis
      unfolding tdi_inner_def ends asserts chip(1) Let_def mn int_octet_sdiv nat_int
      using chunk True lt by simp
  qed
qed

text \<open>The last bit goes out with the TMS command.\<close>

definition fin :: "u8 list \<Rightarrow> buf_ref \<Rightarrow> nat \<Rightarrow> bool \<Rightarrow> nat \<Rightarrow> 'd view \<Rightarrow> 'd view" where
  "fin tdi tdo t hi c v = set_tms hi (shift_view clk tdo c
     (map (Pair (ch_tms (fst v))) (vbits tdi c (t - 1)) @ [(hi, vbit tdi (t - 1))]) v)"

lemma and_then_assoc: "and_then (and_then m f) g = and_then m (\<lambda>c d. and_then (f c d) g)"
  by (simp add: and_then_def c_bind_assoc case_prod_unfold cong: if_cong)
     (rule arg_cong [of _ _ "c_bind m"], simp add: fun_eq_iff)

text \<open>The loop variable is at the start, or at an octet boundary of the inner range.\<close>

definition tdi_at :: "nat \<Rightarrow> nat \<Rightarrow> nat \<Rightarrow> bool" where
  "tdi_at f t c \<longleftrightarrow> c = f \<or> \<not> short_range f t \<and> c mod 8 = 0 \<and> f + lead f t \<le> c \<and> c < inner_end t"

definition tdi_mid ::
  "u8 list \<Rightarrow> buf_ref \<Rightarrow> nat \<Rightarrow> nat \<Rightarrow> int \<Rightarrow> 'w ftdi \<Rightarrow> (bool \<times> int \<times> 'w ftdi) c_res" where
  "tdi_mid tdi tdo f t curIdx d =
     (if curIdx < lastBitIdx (int t)
      then and_then (tdi_inner dx tdi tdo (int f) (int t) curIdx d)
             (tdi_trailing dx tdi tdo (int f) (int t))
      else Ok (True, curIdx, d))"

lemma tdi_mid_out:
  assumes inv: "drv_inv dx d" and ft: "f \<le> c" "c < t" "t \<le> 8 * length tdi"
    and at: "\<not> short_range f t \<Longrightarrow> c mod 8 = 0 \<and> c \<le> inner_end t"
      "short_range f t \<Longrightarrow> c = t - 1"
    and size: "t \<le> 8 * drv_sizes d tdo" and tN: "t \<le> N" and room: "strict \<Longrightarrow> drv_room (N - c) d"
  shows "c_out strict (tdi_mid tdi tdo f t (int c) d)
    (tdi_post strict N tdi tdo t (\<lambda>c'. c' = t - 1 \<or>
       \<not> short_range f t \<and> c' mod 8 = 0 \<and> c < c' \<and> c' < inner_end t) c d)"
proof (cases "c < t - 1")
  case False
  then have "c = t - 1" using ft by simp
  then have "lastBitIdx (int t) = int c" using ft by (simp add: lastBitIdx_def)
  then have "tdi_mid tdi tdo f t (int c) d = Ok (True, int c, d)" by (simp add: tdi_mid_def)
  moreover have "tdi_post strict N tdi tdo t (\<lambda>c'. c' = t - 1 \<or>
       \<not> short_range f t \<and> c' mod 8 = 0 \<and> c < c' \<and> c' < inner_end t) c d (True, int c, d)"
    using inv ft room \<open>c = t - 1\<close> by (intro tdi_post_skip) simp_all
  ultimately show ?thesis by simp
next
  case True
  then have ns: "\<not> short_range f t" using at by auto
  then have c8: "c mod 8 = 0" "c \<le> inner_end t" using at by auto
  have ft': "f < t" using ft by simp
  have inner: "c_out strict (tdi_inner dx tdi tdo (int f) (int t) (int c) d)
    (tdi_post strict N tdi tdo t (\<lambda>c'. c' mod 8 = 0 \<and> c' \<le> inner_end t
       \<and> (c < c' \<or> c = inner_end t \<and> c' = c)) c d)"
    by (rule tdi_post_mono [OF tdi_inner_out [OF inv ft' ft c8(1) size tN room]])
       (use ns c8 in \<open>auto split: if_splits\<close>)
  have "c_out strict (and_then (tdi_inner dx tdi tdo (int f) (int t) (int c) d)
             (tdi_trailing dx tdi tdo (int f) (int t)))
    (tdi_post strict N tdi tdo t (\<lambda>c'. c' = t - 1 \<or>
       \<not> short_range f t \<and> c' mod 8 = 0 \<and> c < c' \<and> c' < inner_end t) c d)"
  proof (rule tdi_post_bind [OF inner size])
    fix c' d'
    assume 1: "c \<le> c'" "c' < t" "c' mod 8 = 0 \<and> c' \<le> inner_end t \<and> (c < c' \<or> c = inner_end t \<and> c' = c)"
      "drv_inv dx d'" "drv_same d d'" "strict \<Longrightarrow> drv_room (N - c') d'"
    have sz: "t \<le> 8 * drv_sizes d' tdo" using size 1(5) by (simp add: drv_same_def)
    have fc: "f \<le> c'" using 1(1) ft by simp
    show "c_out strict (tdi_trailing dx tdi tdo (int f) (int t) (int c') d')
      (tdi_post strict N tdi tdo t (\<lambda>c'. c' = t - 1 \<or>
       \<not> short_range f t \<and> c' mod 8 = 0 \<and> c < c' \<and> c' < inner_end t) c' d')"
      by (rule tdi_post_mono [OF tdi_trailing_out [OF 1(4) fc 1(2) ft(3) sz tN 1(6)]])
         (use ns 1(1,3) in \<open>auto split: if_splits\<close>)
  qed
  moreover have "int c < lastBitIdx (int t)" using True by (simp add: lastBitIdx_def)
  ultimately show ?thesis by (simp only: tdi_mid_def if_True)
qed

lemma tdi_regular_out:
  assumes inv: "drv_inv dx d" and at: "tdi_at f t c" and ft: "f \<le> c" "c < t" "t \<le> 8 * length tdi"
    and size: "t \<le> 8 * drv_sizes d tdo" and tN: "t \<le> N" and room: "strict \<Longrightarrow> drv_room (N - c) d"
  shows "c_out strict (and_then (tdi_leading dx tdi tdo (int f) (int t) (int c) d) (tdi_mid tdi tdo f t))
    (tdi_post strict N tdi tdo t (\<lambda>c'. c' = t - 1 \<or> tdi_at f t c' \<and> c < c') c d)"
proof (rule tdi_post_bind [OF tdi_leading_out [OF inv ft size tN room] size])
  note lf = lead_facts [of f t]
  have ft': "f < t" using ft by simp
  fix c' d'
  assume 1: "c \<le> c'" "c' < t" "c' = (if c = f then f + lead f t else c)"
      "drv_inv dx d'" "drv_same d d'" "strict \<Longrightarrow> drv_room (N - c') d'"
  have c': "\<not> short_range f t \<Longrightarrow> c' mod 8 = 0 \<and> c' \<le> inner_end t"
    "short_range f t \<Longrightarrow> c' = t - 1" "f + lead f t \<le> c'"
  proof -
    have lead: "\<not> short_range f t \<Longrightarrow> (f + lead f t) mod 8 = 0" "\<not> short_range f t \<Longrightarrow> f + lead f t \<le> inner_end t"
      "short_range f t \<Longrightarrow> f + lead f t = t - 1"
      using lf(3-5) ft' by (simp_all add: dvd_eq_mod_eq_0)
    show "\<not> short_range f t \<Longrightarrow> c' mod 8 = 0 \<and> c' \<le> inner_end t"
      "short_range f t \<Longrightarrow> c' = t - 1" "f + lead f t \<le> c'"
      using at 1(3) lead by (cases "c = f", simp_all add: tdi_at_def)+
  qed
  have fc: "f \<le> c'" and sz: "t \<le> 8 * drv_sizes d' tdo"
    using 1 ft size by (simp_all add: drv_same_def)
  show "c_out strict (tdi_mid tdi tdo f t (int c') d')
      (tdi_post strict N tdi tdo t (\<lambda>c'. c' = t - 1 \<or> tdi_at f t c' \<and> c < c') c' d')"
    by (rule tdi_post_mono [OF tdi_mid_out [OF 1(4) fc 1(2) ft(3) c'(1,2) sz tN 1(6)]])
       (use c'(3) 1(1) in \<open>auto simp: tdi_at_def\<close>)
qed

lemma tdi_last_skip:
  "c < t - 1 \<Longrightarrow> tdi_last dx tdi tdo (int t) hi (int c) d = Ok (True, int c, d)"
  by (simp add: tdi_last_def lastBitIdx_def Let_def)

text \<open>The outcome of a whole TDI shift begun at bit \<open>c\<close>.\<close>

definition shifted ::
  "bool \<Rightarrow> nat \<Rightarrow> u8 list \<Rightarrow> buf_ref \<Rightarrow> nat \<Rightarrow> bool \<Rightarrow> nat \<Rightarrow> 'w ftdi \<Rightarrow> bool \<times> 'w ftdi \<Rightarrow> bool"
where
  "shifted strict N tdi tdo t hi c d = (\<lambda>(ok, d'). drv_inv dx d' \<and> drv_same d d'
     \<and> (ok \<longrightarrow> lastTdi d' = vbit tdi (t - 1)) \<and> (ok \<and> strict \<longrightarrow> drv_room (N - t) d')
     \<and> (idle (dview d) \<longrightarrow> moves d ok d' (fin tdi tdo t hi c)))"

lemma tdi_last_out:
  assumes inv: "drv_inv dx d" and t: "t = Suc c" "t \<le> 8 * length tdi"
    and size: "t \<le> 8 * drv_sizes d tdo" and tN: "t \<le> N" and room: "strict \<Longrightarrow> drv_room (N - c) d"
  shows "c_out strict (tdi_last dx tdi tdo (int t) hi (int c) d) (\<lambda>(ok, cur, d').
      cur = (if ok then int t else int c) \<and> shifted strict N tdi tdo t hi c d (ok, d'))"
proof -
  have t1: "lastBitIdx (int t) = int c" using t by (simp add: lastBitIdx_def)
  let ?b = "vbit tdi c" and ?t = "if hi then 1 else 0 :: u8"
  let ?w = "push_bit 7 (if ?b then 1 else 0) OR push_bit 1 ?t OR ?t"
  let ?cmd = "[op_last, 0, ?w]"
  let ?e = "\<lparr>bx_fromBit = 7, bx_dst = tdo, bx_toBit = int c, bx_numBits = 1\<rparr>"
  have gb: "get_bit tdi (int c) = Ok ?b" using t by (intro get_bit_ok) simp
  have w: "bit ?w 0 = hi" "bit ?w 1 = hi" "bit ?w 7 = ?b"
    by (auto simp: bit_simps)
  have rb: "c_out strict (read_back_bits dx ?cmd ?e d) (read_back_post strict (N - t) ?cmd ?e d)"
    using inv size room t tN by (intro read_back_step) (auto simp: extra_ok_def Suc_diff_Suc)
  show ?thesis
    unfolding tdi_last_def t1 Let_def gb c_bind.simps
  proof (simp only: refl if_True, rule c_out_bindI [OF rb], clarify)
    fix ok d1
    assume "read_back_post strict (N - t) ?cmd ?e d (ok, d1)"
    then have p: "drv_inv dx d1" "drv_same d d1" "lastTdi d1 = lastTdi d"
      "ok \<and> strict \<longrightarrow> drv_room (N - t) d1"
      "\<And>cs b. idle (dview d) \<Longrightarrow> length cs = 1 \<Longrightarrow> chip_feed clk ?cmd (fst (dview d))
         = (chip_answer (snd (do_clocks clk cs (fst (dview d)))))\<lparr>ch_tms := b\<rparr> \<Longrightarrow>
         moves d ok d1 (\<lambda>v. set_tms b (shift_view clk tdo c cs v))"
      by (auto simp: read_back_post_def)
    have "moves d ok d1 (fin tdi tdo t hi c)" if i: "idle (dview d)"
    proof -
      have "chip_feed clk ?cmd (fst (dview d))
          = (chip_answer (snd (do_clocks clk [(hi, ?b)] (fst (dview d)))))\<lparr>ch_tms := hi\<rparr>"
        using feed_op_last [OF i w] by simp
      from p(5) [OF i _ this] show ?thesis by (simp add: moves_def fin_def t(1))
    qed
    moreover have "drv_inv dx (d1\<lparr>lastTdi := ?b\<rparr>)" "drv_same d (d1\<lparr>lastTdi := ?b\<rparr>)"
      "drv_room (N - t) d1 \<Longrightarrow> drv_room (N - t) (d1\<lparr>lastTdi := ?b\<rparr>)"
      "dlinked (d1\<lparr>lastTdi := ?b\<rparr>) = dlinked d1" "dview (d1\<lparr>lastTdi := ?b\<rparr>) = dview d1"
      using p(1,2)
      by (simp_all add: drv_inv_def drv_same_def drv_sizes_def drv_room_def dlinked_def
          fresh_extras_def dview_def)
    ultimately show "c_out strict (if \<not> ok then Ok (False, int c, d1)
        else Ok (True, int c + 1, d1\<lparr>lastTdi := ?b\<rparr>)) (\<lambda>(ok, cur, d').
      cur = (if ok then int t else int c) \<and> shifted strict N tdi tdo t hi c d (ok, d'))"
      using p t(1) by (cases ok) (auto simp: shifted_def moves_def)
  qed
qed

lemma fin_adv:
  assumes "c \<le> c'" "c' < t" "t \<le> 8 * mem_size (snd v) tdo"
  shows "fin tdi tdo t hi c' (adv tdi tdo c c' v) = fin tdi tdo t hi c v"
  using assms shift_view_append [of c "map (Pair (ch_tms (fst v))) (vbits tdi c c')"
      "map (Pair (ch_tms (fst v))) (vbits tdi c' (t - 1)) @ [(hi, vbit tdi (t - 1))]" v tdo clk]
    vbits_append [of c c' "t - 1" tdi]
  by (simp add: fin_def adv_def flip: append_assoc map_append)

text \<open>Going on after the bits from \<open>c\<close> to \<open>c'\<close>.\<close>

lemma shifted_after:
  assumes p: "drv_same d d1" "c \<le> c'" "c' < t" "idle (dview d) \<longrightarrow> moves d True d1 (adv tdi tdo c c')"
    and size: "t \<le> 8 * drv_sizes d tdo" and q: "shifted strict N tdi tdo t hi c' d1 x"
  shows "shifted strict N tdi tdo t hi c d x"
proof -
  obtain ok d2 where x: "x = (ok, d2)" by (cases x)
  have 2: "drv_inv dx d2" "drv_same d1 d2" "ok \<longrightarrow> lastTdi d2 = vbit tdi (t - 1)"
    "ok \<and> strict \<longrightarrow> drv_room (N - t) d2"
    "idle (dview d1) \<longrightarrow> moves d1 ok d2 (fin tdi tdo t hi c')"
    using q by (simp_all add: shifted_def x)
  have "moves d ok d2 (fin tdi tdo t hi c)" if i: "idle (dview d)"
    unfolding moves_def
  proof
    assume l: "dlinked d"
    with p(4) i have v: "dlinked d1" "dview d1 = adv tdi tdo c c' (dview d)"
      by (simp_all add: moves_def)
    then have "idle (dview d1)" using i by simp
    with 2(5) v(1) have "ok \<and> dlinked d2 \<and> dview d2 = fin tdi tdo t hi c' (dview d1)"
      by (simp add: moves_def)
    then show "ok \<and> dlinked d2 \<and> dview d2 = fin tdi tdo t hi c (dview d)"
      using p(2,3) size by (simp add: v(2) fin_adv dview_sizes [OF l])
  qed
  moreover have "drv_same d d2" using p(1) 2(2) by (rule drv_same_trans)
  ultimately show ?thesis using 2 by (simp add: shifted_def x)
qed

lemma tdi_iteration_regular:
  "tdi_iteration dx tdi tdo (int f) (int t) hi curIdx d =
   and_then (and_then (tdi_leading dx tdi tdo (int f) (int t) curIdx d) (tdi_mid tdi tdo f t))
     (tdi_last dx tdi tdo (int t) hi)"
  by (simp add: tdi_iteration_def and_then_assoc tdi_mid_def [abs_def])

lemma append_tdi_loop_out:
  assumes "drv_inv dx d" "tdi_at f t c" "f \<le> c" "c < t" "t \<le> 8 * length tdi"
    "t \<le> 8 * drv_sizes d tdo" "t \<le> N" "strict \<Longrightarrow> drv_room (N - c) d" "t - c \<le> n"
  shows "c_out strict (append_tdi_loop n dx tdi tdo (int f) (int t) hi (int c) d)
    (shifted strict N tdi tdo t hi c d)"
  using assms
proof (induction n arbitrary: c d)
  case 0
  then show ?case by simp
next
  case (Suc n)
  note inv = Suc.prems(1) and size = Suc.prems(6) and tN = Suc.prems(7)
  note reg = tdi_regular_out [OF Suc.prems(1-8)]
  have "c_out strict (tdi_iteration dx tdi tdo (int f) (int t) hi (int c) d) (\<lambda>(ok, cur, d').
      if ok \<and> cur < int t
      then \<exists>c'. cur = int c' \<and> tdi_at f t c' \<and> c < c' \<and> c' < t \<and> drv_inv dx d' \<and> drv_same d d'
        \<and> (strict \<longrightarrow> drv_room (N - c') d')
        \<and> (idle (dview d) \<longrightarrow> moves d True d' (adv tdi tdo c c'))
      else (ok \<longrightarrow> cur = int t) \<and> shifted strict N tdi tdo t hi c d (ok, d'))" (is "c_out _ _ ?P")
    unfolding tdi_iteration_regular and_then_def [of "and_then _ _"]
  proof (rule c_out_bindI [OF reg])
    fix x
    assume "tdi_post strict N tdi tdo t (\<lambda>c'. c' = t - 1 \<or> tdi_at f t c' \<and> c < c') c d x"
    then obtain ok c1 d1 where x: "x = (ok, int c1, d1)"
      and 1: "drv_inv dx d1" "drv_same d d1" "c \<le> c1" "c1 < t"
        "ok \<longrightarrow> c1 = t - 1 \<or> tdi_at f t c1 \<and> c < c1" "ok \<and> strict \<longrightarrow> drv_room (N - c1) d1"
        "idle (dview d) \<longrightarrow> moves d ok d1 (adv tdi tdo c c1)"
      by (cases x) (auto simp: tdi_post_def)
    have "c_out strict (if \<not> ok then Ok (False, int c1, d1)
        else tdi_last dx tdi tdo (int t) hi (int c1) d1) ?P"
    proof (cases ok)
      case False
      with 1 show ?thesis by (simp add: shifted_def moves_def)
    next
      case True
      note ok = this
      show ?thesis
      proof (cases "c1 = t - 1")
        case False
        with 1 ok show ?thesis by (auto simp: tdi_last_skip)
      next
        case True
        then have tc: "t = Suc c1" using 1(4) by simp
        have sz: "t \<le> 8 * drv_sizes d1 tdo" using size 1(2) by (simp add: drv_same_def)
        have rm: "strict \<Longrightarrow> drv_room (N - c1) d1" using 1(6) ok by simp
        have "c_out strict (tdi_last dx tdi tdo (int t) hi (int c1) d1) ?P"
        proof (rule c_out_mono [OF tdi_last_out [OF 1(1) tc Suc.prems(5) sz tN rm]])
          fix y
          assume y: "case y of (ok, cur, d') \<Rightarrow>
            cur = (if ok then int t else int c1) \<and> shifted strict N tdi tdo t hi c1 d1 (ok, d')"
          obtain ok2 cur2 d2 where y': "y = (ok2, cur2, d2)" by (cases y)
          have "shifted strict N tdi tdo t hi c d (ok2, d2)"
            using y 1(7) ok by (intro shifted_after [OF 1(2-4) _ size]) (auto simp: y')
          with y show "?P y" by (simp add: y')
        qed
        with ok show ?thesis by simp
      qed
    qed
    then show "c_out strict (case x of (ok, curIdx, d) \<Rightarrow>
        if \<not> ok then Ok (False, curIdx, d) else tdi_last dx tdi tdo (int t) hi curIdx d) ?P"
      by (simp add: x)
  qed
  then have "c_out strict (c_bind (tdi_iteration dx tdi tdo (int f) (int t) hi (int c) d)
     (\<lambda>(ok, cur, d'). if \<not> ok then Ok (False, d')
        else append_tdi_loop n dx tdi tdo (int f) (int t) hi cur d'))
    (shifted strict N tdi tdo t hi c d)"
  proof (rule c_out_bindI)
    fix x
    assume P: "?P x"
    obtain ok cur d1 where x: "x = (ok, cur, d1)" by (cases x)
    have "c_out strict (if \<not> ok then Ok (False, d1)
        else append_tdi_loop n dx tdi tdo (int f) (int t) hi cur d1) (shifted strict N tdi tdo t hi c d)"
    proof (cases "ok \<and> cur < int t")
      case False
      with P show ?thesis by (cases ok; cases n) (auto simp: x)
    next
      case True
      with P obtain c' where 1: "cur = int c'" "tdi_at f t c'" "c < c'" "c' < t" "drv_inv dx d1"
        "drv_same d d1" "strict \<Longrightarrow> drv_room (N - c') d1"
        "idle (dview d) \<longrightarrow> moves d True d1 (adv tdi tdo c c')"
        by (auto simp: x)
      have sz: "t \<le> 8 * drv_sizes d1 tdo" using size 1(6) by (simp add: drv_same_def)
      have "c_out strict (append_tdi_loop n dx tdi tdo (int f) (int t) hi (int c') d1)
          (shifted strict N tdi tdo t hi c' d1)"
        using 1 Suc.prems(3,5,9) sz tN by (intro Suc.IH) auto
      then have "c_out strict (append_tdi_loop n dx tdi tdo (int f) (int t) hi (int c') d1)
          (shifted strict N tdi tdo t hi c d)"
        using 1 by (elim c_out_mono) (auto intro!: shifted_after [OF 1(6) _ 1(4,8) size])
      with True 1(1) show ?thesis by simp
    qed
    then show "c_out strict (case x of (ok, cur, d') \<Rightarrow> if \<not> ok then Ok (False, d')
        else append_tdi_loop n dx tdi tdo (int f) (int t) hi cur d')
      (shifted strict N tdi tdo t hi c d)" by (simp add: x)
  qed
  then show ?case using Suc.prems(4) by simp
qed

lemma append_tdi_out:
  assumes "drv_inv dx d" "f < t" "t \<le> 8 * length tdi" "t \<le> 8 * drv_sizes d tdo" "t \<le> N"
    "strict \<Longrightarrow> drv_room (N - f) d"
  shows "c_out strict (append_tdi_shift_to_transaction dx tdi tdo (int f) (int t) hi d)
    (shifted strict N tdi tdo t hi f d)"
proof -
  have "nat (int t - int f) = t - f" by simp
  then show ?thesis
    using append_tdi_loop_out [OF assms(1) _ _ assms(2-6), where n = "t - f"] assms(2)
    by (simp add: append_tdi_shift_to_transaction_def tdi_at_def)
qed

end

end
