(* ===== verification/Ftdi_Device.thy ===== *)
theory Ftdi_Device
  imports Ftdi_Driver
begin

text \<open>
  \<open>libdrivers/ftdi_generic.c\<close>, the operations of the driver: the synchronisation check, the TCK
  divisor, activation, deactivation and the shift of a vector.

  The stack buffer \<open>resp\<close> of \<open>check_device_in_sync\<close> is the buffer \<open>resp_ref\<close>, which exists only
  while the function runs. \<open>FT_GetDeviceInfoList\<close> gives the entries it stores and the number it
  reports; reading an entry it has not stored is a fault, and so is storing more than the four
  there is room for. A D2XX call that fails leaves \<open>activate\<close> through one of its cleanup labels.
\<close>

subsection \<open>Synchronisation\<close>

definition resp_ref :: buf_ref where "resp_ref = 0"

definition set_mem :: "buf_ref \<Rightarrow> u8 list option \<Rightarrow> 'w ftdi \<Rightarrow> 'w ftdi" where
  "set_mem r v d = d\<lparr>fd_io := (fd_io d)\<lparr>mem := (mem (fd_io d))(r := v)\<rparr>\<rparr>"

definition check_device_in_sync :: "'w d2xx \<Rightarrow> 'w ftdi \<Rightarrow> (bool \<times> 'w ftdi) c_res" where
  "check_device_in_sync dx d =
     c_bind (on_buffer (\<lambda>b i.
         ft_buffer_add_write_to_chip_with_readback_simple dx b i [0xab] 1 resp_ref 0 2)
         (set_mem resp_ref (Some [0, 0]) d)) (\<lambda>(ok, d').
       if \<not> ok then Ok (False, set_mem resp_ref None d')
       else c_bind (on_buffer (ft_buffer_flush dx) d') (\<lambda>(ok, d'').
         if \<not> ok then Ok (False, set_mem resp_ref None d'')
         else case mem (fd_io d'') resp_ref of
                None \<Rightarrow> Fault DeadObject
              | Some resp \<Rightarrow>
                  c_bind (rd_at resp 0) (\<lambda>r0. c_bind (rd_at resp 1) (\<lambda>r1.
                    Ok (r0 = OP_BAD_COMMANDS \<and> r1 = 0xab, set_mem resp_ref None d'')))))"

subsection \<open>The TCK divisor\<close>

definition maxFreqMHz :: "'w ftdi \<Rightarrow> int" where
  "maxFreqMHz d = (if highSpeedCapable d then 30 else 6)"

definition tck_divider :: "int \<Rightarrow> int \<Rightarrow> int c_res" where
  "tck_divider maxFreq tckPeriodNs =
     c_bind (c_int (maxFreq * tckPeriodNs)) (\<lambda>p.
     c_bind (c_int (p sdiv 1000 - (if p smod 1000 = 0 then 1 else 0))) (\<lambda>divider.
       if divider < 0 then Fault Unreachable
       else Ok (if divider > 0xffff then 0xffff else divider)))"

definition actual_period :: "int \<Rightarrow> int \<Rightarrow> int c_res" where
  "actual_period maxFreq divider =
     c_bind (c_int (1 + divider)) (\<lambda>n. c_bind (c_int (n * 1000)) (\<lambda>m. Ok (m sdiv maxFreq)))"

definition set_tck_period :: "'w d2xx \<Rightarrow> int \<Rightarrow> 'w ftdi \<Rightarrow> (int \<times> 'w ftdi) c_res" where
  "set_tck_period dx tckPeriodNs d =
     c_bind (tck_divider (maxFreqMHz d) tckPeriodNs) (\<lambda>divider.
     c_bind (actual_period (maxFreqMHz d) divider) (\<lambda>actualPeriodNs.
       let cmd = [OP_SET_TCK_DIVISOR, word_of_int divider, word_of_int (divider div 256),
                  OP_DISABLE_CLK_DIVIDE_BY_5]
       in c_bind (on_buffer (\<lambda>b i. ft_buffer_add_write_to_chip dx b i cmd
                    (if highSpeedCapable d then 4 else 3)) d) (\<lambda>(ok, d').
            c_bind (if \<not> ok then Ok (False, d') else check_device_in_sync dx d') (\<lambda>(ok, d'').
              Ok (if ok then actualPeriodNs else - 1, d'')))))"

subsection \<open>Vectors\<close>

definition max_vector_bits :: "'w ftdi \<Rightarrow> int" where
  "max_vector_bits d = chipBufferBytes d * 8"

definition shift_bits ::
  "'w ftdi jtag_splitter \<Rightarrow> int \<Rightarrow> u8 list \<Rightarrow> u8 list \<Rightarrow> buf_ref \<Rightarrow> 'w ftdi \<Rightarrow>
   (bool \<times> 'w ftdi jtag_splitter \<times> 'w ftdi) c_res" where
  "shift_bits sp numBits tmsVector tdiVector tdoVector d =
     txvc_jtag_splitter_process sp numBits tmsVector tdiVector tdoVector d"

subsection \<open>Activation\<close>

text \<open>The buffer size of the configured chip and, if the channel is one it has, the letter its
  serial number ends with: \<open>0\<close> for a chip of a single channel.\<close>

definition select_chip :: "ft_params \<Rightarrow> (int \<times> char option) option" where
  "select_chip p =
     (if device p = FT_DEVICE_2232H then
        Some (4096, if channel p \<noteq> CHR ''A'' \<and> channel p \<noteq> CHR ''B'' then None else Some (channel p))
      else if device p = FT_DEVICE_232H then
        Some (1024, if channel p \<noteq> CHR ''A'' then None else Some (CHR 0x00))
      else None)"

fun find_device ::
  "char \<Rightarrow> ft_device_node list \<Rightarrow> nat \<Rightarrow> nat \<Rightarrow> ft_device_node option c_res" where
  "find_device channelSelector devices i 0 = Ok None"
| "find_device channelSelector devices i (Suc n) =
     c_bind (rd_at devices (int i)) (\<lambda>dev.
     c_bind (rd_at (SerialNumber dev) (int (length (SerialNumber dev)) - 1)) (\<lambda>c.
       if channelSelector = c then Ok (Some dev)
       else find_device channelSelector devices (Suc i) n))"

definition select_device ::
  "char \<Rightarrow> ft_device_node list \<Rightarrow> u32 \<Rightarrow> ft_device_node option c_res" where
  "select_device channelSelector devices numConnectedDevices =
     (if numConnectedDevices = 0 then Ok None
      else if channelSelector = CHR 0x00
      then c_bind (rd_at devices 0) (\<lambda>dev. Ok (Some dev))
      else find_device channelSelector devices 0 (unat numConnectedDevices))"

text \<open>The user's choices for the pins D4 to D7 in the setup command.\<close>

fun setup_pins :: "pin_role list \<Rightarrow> nat list \<Rightarrow> u8 \<times> u8 \<Rightarrow> (u8 \<times> u8) c_res" where
  "setup_pins roles [] (lvl, dir) = Ok (lvl, dir)"
| "setup_pins roles (i # is) (lvl, dir) =
     (case roles ! i of
        PIN_ROLE_OTHER_DRIVER_HIGH \<Rightarrow>
          setup_pins roles is (lvl OR push_bit i 1, dir OR push_bit i 1)
      | PIN_ROLE_OTHER_DRIVER_LOW \<Rightarrow> setup_pins roles is (lvl, dir OR push_bit i 1)
      | PIN_ROLE_OTHER_IGNORED \<Rightarrow> setup_pins roles is (lvl, dir)
      | _ \<Rightarrow> Fault Unreachable)"

definition set_world :: "'w \<Rightarrow> 'w ftdi \<Rightarrow> 'w ftdi" where
  "set_world w d = d\<lparr>fd_io := (fd_io d)\<lparr>world := w\<rparr>\<rparr>"

text \<open>\<open>REQUIRE_D2XX_SUCCESS_\<close>: go on with the next step, or with the cleanup.\<close>

definition require ::
  "('w \<Rightarrow> ft_status \<times> 'w) \<Rightarrow> ('w ftdi \<Rightarrow> 'r) \<Rightarrow> ('w ftdi \<Rightarrow> 'r) \<Rightarrow> 'w ftdi \<Rightarrow> 'r" where
  "require call bail go d = (case call (world (fd_io d)) of (status, w) \<Rightarrow>
     if status \<noteq> FT_OK then bail (set_world w d) else go (set_world w d))"

definition ft_close :: "'w d2xx \<Rightarrow> 'w ftdi \<Rightarrow> 'w ftdi" where
  "ft_close dx d = set_world (snd (FT_Close dx (ftHandle d) (world (fd_io d)))) d"

definition ft_reset_mode :: "'w d2xx \<Rightarrow> 'w ftdi \<Rightarrow> 'w ftdi" where
  "ft_reset_mode dx d =
     set_world (snd (FT_SetBitMode dx (ftHandle d) 0 0 (world (fd_io d)))) d"

type_synonym 'w activation = "(bool \<times> 'w ftdi jtag_splitter \<times> 'w ftdi) c_res"

text \<open>The part with an open device: \<open>bail_reset_mode\<close> and \<open>bail_usb_close\<close>.\<close>

definition setup_device ::
  "(u64 \<Rightarrow> u64 option) \<Rightarrow> 'w d2xx \<Rightarrow> 'w ftdi jtag_splitter \<Rightarrow> 'w ftdi \<Rightarrow> 'w activation" where
  "setup_device malloc dx sp d =
     c_bind (txvc_mempool_init malloc (64 * 1024)) (\<lambda>pool.
     c_bind (ft_buffer_init malloc (ftHandle d) (chipBufferBytes d)) (\<lambda>b.
     c_bind (setup_pins (d_pins (fd_params d)) [4, 5, 6, 7] (0x08, 0x0b)) (\<lambda>(lvl, dir).
       let d1 = d\<lparr>fd_pool := pool, cmdBuffer := b, lastTdi := False\<rparr> in
       c_bind (on_buffer (\<lambda>b i. ft_buffer_add_write_to_chip dx b i
                 [OP_SET_DBUS_LOBYTE, lvl, dir] 3) d1) (\<lambda>(ok, d2).
       c_bind (if \<not> ok then Ok (False, d2) else check_device_in_sync dx d2) (\<lambda>(ok, d3).
         if \<not> ok then Ok (False, sp, ft_close dx (ft_reset_mode dx d3))
         else c_bind (txvc_jtag_splitter_init sp (jtag_splitter_callback dx) d3) (\<lambda>(ok, sp', d4).
           if \<not> ok then Ok (False, sp', ft_close dx (ft_reset_mode dx d4))
           else Ok (True, sp', d4)))))))"

definition open_device ::
  "(u64 \<Rightarrow> u64 option) \<Rightarrow> 'w d2xx \<Rightarrow> ft_device_node \<Rightarrow> u32 \<Rightarrow> 'w ftdi jtag_splitter \<Rightarrow> 'w ftdi \<Rightarrow>
   'w activation" where
  "open_device malloc dx selectedDevice numConnectedDevices sp d =
     (case (if numConnectedDevices = 1 then FT_Open dx 0 (world (fd_io d))
            else FT_OpenEx dx (SerialNumber selectedDevice) (world (fd_io d))) of
        (status, h, w) \<Rightarrow>
          if status \<noteq> FT_OK then Ok (False, sp, set_world w d)
          else
            let d1 = (set_world w d)\<lparr>ftHandle := h\<rparr>; bail = (\<lambda>d. Ok (False, sp, ft_close dx d)) in
            require (FT_Purge dx h) bail
            (require (FT_SetChars dx h) bail
            (require (FT_SetFlowControl dx h) bail
            (require (FT_SetLatencyTimer dx h (word_of_int (read_latency_millis (fd_params d)))) bail
            (require (FT_SetBitMode dx h 0 0) bail
            (require (FT_SetBitMode dx h 0 2) bail
            (setup_device malloc dx sp)))))) d1)"

definition find_and_open ::
  "(u64 \<Rightarrow> u64 option) \<Rightarrow> 'w d2xx \<Rightarrow> char \<Rightarrow> 'w ftdi jtag_splitter \<Rightarrow> 'w ftdi \<Rightarrow> 'w activation" where
  "find_and_open malloc dx channelSelector sp d =
     (case FT_GetDeviceInfoList dx (world (fd_io d)) of
        (st, devices, numConnectedDevices, w) \<Rightarrow>
          if length devices > 4 then Fault OutOfBounds
          else if st \<noteq> FT_OK then Ok (False, sp, set_world w d)
          else c_bind (select_device channelSelector devices numConnectedDevices) (\<lambda>sel.
            case sel of
              None \<Rightarrow> Ok (False, sp, set_world w d)
            | Some dev \<Rightarrow> open_device malloc dx dev numConnectedDevices sp (set_world w d)))"

definition activate ::
  "(u64 \<Rightarrow> u64 option) \<Rightarrow> 'w d2xx \<Rightarrow> (string \<times> string) list \<Rightarrow> 'w ftdi jtag_splitter \<Rightarrow> 'w ftdi \<Rightarrow>
   'w activation" where
  "activate malloc dx args sp d =
     (case load_config args (fd_params d) of (ok, params) \<Rightarrow>
        let d = d\<lparr>fd_params := params\<rparr>; bail = (\<lambda>d. Ok (False, sp, d)) in
        if \<not> ok then bail d
        else case select_chip params of
          None \<Rightarrow> bail d
        | Some (bytes, selector) \<Rightarrow>
            let d = d\<lparr>chipBufferBytes := bytes, highSpeedCapable := True\<rparr> in
            case selector of
              None \<Rightarrow> bail d
            | Some channelSelector \<Rightarrow>
                require (\<lambda>w. case FT_GetLibraryVersion dx w of (st, _, w') \<Rightarrow> (st, w')) bail
                (require (FT_SetVIDPID dx (word_of_int (vid params)) (word_of_int (pid params))) bail
                (require (\<lambda>w. case FT_CreateDeviceInfoList dx w of (st, _, w') \<Rightarrow> (st, w')) bail
                (find_and_open malloc dx channelSelector sp))) d)"

subsection \<open>Deactivation\<close>

text \<open>The pointers that are freed are part of the result.\<close>

definition deactivate ::
  "'w d2xx \<Rightarrow> 'w ftdi jtag_splitter \<Rightarrow> 'w ftdi \<Rightarrow>
   (bool \<times> 'w ftdi jtag_splitter \<times> 'w ftdi \<times> u64 list) c_res" where
  "deactivate dx sp d =
     c_bind (txvc_jtag_splitter_deinit sp d) (\<lambda>(_, sp', d1).
     c_bind (ft_buffer_deinit dx (cmdBuffer d1) (fd_io d1)) (\<lambda>(b, i, fs).
       case txvc_mempool_deinit (fd_pool d1) of (p, gs) \<Rightarrow>
         let d2 = d1\<lparr>cmdBuffer := b, fd_io := i, fd_pool := p\<rparr> in
         Ok (True, sp', ft_close dx (ft_reset_mode dx d2), fs @ gs)))"

end
