(* ===== verification/Ftdi_Cable.thy ===== *)
theory Ftdi_Cable
  imports Ftdi_Shift Ftdi_Device
begin

text \<open>
  The FTDI driver as a JTAG cable.

  \<open>cable\<close> is the specification of an XVC shift on a JTAG target, bit by bit: TMS follows the
  vector, TDI follows it while the TAP is in a shift state and keeps the last shifted level
  elsewhere, and the level of TDO is recorded for the bits shifted. The lemmas lead from the
  events the splitter issues to this specification, inside the interface \<open>command_link\<close>; its two
  interpretations then give the properties of \<open>shift_bits\<close>: with no link, for an arbitrary D2XX
  library, that it is safe; with the reference chip, that it is the cable.
\<close>

fun cable ::
  "'d target \<Rightarrow> jtag_state \<Rightarrow> bool \<Rightarrow> (bool \<times> bool) list \<Rightarrow> nat \<Rightarrow> u8 list \<Rightarrow> 'd \<Rightarrow>
   bool \<times> u8 list \<times> 'd" where
  "cable clk q lv [] i tdo s = (lv, tdo, s)"
| "cable clk q lv ((tms, tdi) # bs) i tdo s =
     (let lv' = (if is_shift q then tdi else lv) in
      case clk tms lv' s of (b, s') \<Rightarrow>
        cable clk (next_state q tms) lv' bs (Suc i) (if is_shift q then put_bit tdo i b else tdo) s')"

lemma cable_append:
  "cable clk q lv (as @ bs) i tdo s = (case cable clk q lv as i tdo s of (lv1, tdo1, s1) \<Rightarrow>
     cable clk (tap_run q (map fst as)) lv1 bs (i + length as) tdo1 s1)"
proof (induction as arbitrary: q lv i tdo s)
  case (Cons a as)
  obtain tms tdi where a: "a = (tms, tdi)" by (cases a)
  obtain b s' where "clk tms (if is_shift q then tdi else lv) s = (b, s')" by fastforce
  then show ?case by (simp add: a Cons.IH)
qed simp

text \<open>Outside of the shift states, and in them.\<close>

lemma cable_tms:
  "list_all (\<lambda>x. \<not> is_shift x) (tap_path q (map fst bs)) \<Longrightarrow>
   cable clk q lv bs i tdo s = (lv, tdo, snd (clocks clk (map (\<lambda>b. (b, lv)) (map fst bs)) s))"
  by (induction clk q lv bs i tdo s rule: cable.induct) (simp_all split: prod.splits)

lemma cable_tdi:
  "list_all is_shift (tap_path q (map fst bs)) \<Longrightarrow>
   cable clk q lv bs i tdo s
     = (last (lv # map snd bs), write_bits tdo i (fst (clocks clk bs s)), snd (clocks clk bs s))"
  by (induction clk q lv bs i tdo s rule: cable.induct) (simp_all split: prod.splits)

lemma into_shift_low: "is_shift (tap_run q bs) \<Longrightarrow> bs \<noteq> [] \<Longrightarrow> \<not> last bs"
proof (cases bs rule: rev_cases)
  case (snoc as b)
  have "is_shift (next_state st b) \<Longrightarrow> \<not> b" for st
    by (cases st) (auto simp: is_shift_def split: if_splits)
  then show "is_shift (tap_run q bs) \<Longrightarrow> \<not> last bs" by (simp add: snoc)
qed simp

subsection \<open>Room after a flush\<close>

definition drv_cap :: "nat \<Rightarrow> 'w ftdi \<Rightarrow> bool" where
  "drv_cap k d \<longleftrightarrow>
     unat (pool_start (fb_pool (cmdBuffer d))) + nat (maxTxBufferBytes (cmdBuffer d))
       + nat (maxRxBufferBytes (cmdBuffer d)) + 64 * k \<le> fb_end (cmdBuffer d)
     \<and> unat (pool_start (fd_pool d)) + 32 * k \<le> unat (pool_end (fd_pool d))"

lemma drv_cap_same: "drv_same d d' \<Longrightarrow> drv_cap k d' = drv_cap k d"
  by (simp add: drv_cap_def drv_same_def same_cfg_def same_arena_def fb_end_def)

definition flushed :: "'w ftdi \<Rightarrow> bool" where
  "flushed d \<longleftrightarrow> txBuffer (cmdBuffer d) = None \<and> rxBuffer (cmdBuffer d) = None"

context command_link
begin

text \<open>The driver is linked to a target in state \<open>s\<close> through buffers \<open>m\<close> of which \<open>tdo\<close> will hold
  \<open>buf\<close>, with the TAP in state \<open>q\<close> and TDI at level \<open>lv\<close>.\<close>

definition linked_at ::
  "jtag_state \<Rightarrow> bool \<Rightarrow> (buf_ref \<Rightarrow> u8 list option) \<Rightarrow> buf_ref \<Rightarrow> u8 list \<Rightarrow> 'd \<Rightarrow> 'w ftdi \<Rightarrow> bool"
where
  "linked_at q lv m tdo buf s d \<longleftrightarrow> dlinked d \<and> idle (dview d) \<and> lastTdi d = lv
     \<and> snd (dview d) = m(tdo \<mapsto> buf) \<and> ch_dev (fst (dview d)) = s
     \<and> (is_shift q \<longrightarrow> \<not> ch_tms (fst (dview d)))"

definition follows ::
  "bool \<Rightarrow> nat \<Rightarrow> (bool \<times> bool) list \<Rightarrow> nat \<Rightarrow> buf_ref \<Rightarrow> jtag_state \<Rightarrow>
   'w ftdi \<Rightarrow> bool \<times> 'w ftdi \<Rightarrow> bool" where
  "follows strict k bs fp tdo q d = (\<lambda>(ok, d'). drv_inv dx d' \<and> drv_same d d'
     \<and> (ok \<and> strict \<longrightarrow> drv_room k d')
     \<and> (\<forall>lv m buf s. linked_at q lv m tdo buf s d \<longrightarrow> ok \<and>
          (case cable clk q lv bs fp buf s of (lv', buf', s') \<Rightarrow> linked_at (tap_run q (map fst bs)) lv' m tdo buf' s' d')))"

lemma tms_event_out:
  assumes inv: "drv_inv dx d" and ft: "f < t" "t \<le> 8 * length tms" "t \<le> N"
    and q: "list_all (\<lambda>x. \<not> is_shift x) (tap_path q (vbits tms f t))"
    and room: "strict \<Longrightarrow> drv_room (N - f) d" and len: "length ds = t - f"
  shows "c_out strict (jtag_splitter_callback dx (Shift_tms tms (int f) (int t)) d)
    (follows strict (N - t) (zip (vbits tms f t) ds) f tdo q d)"
  unfolding jtag_splitter_callback.simps
proof (rule c_out_mono [OF append_tms_out [OF inv ft(1,2) room]])
  fix x :: "bool \<times> 'w ftdi"
  obtain ok d' where x: "x = (ok, d')" by (cases x)
  assume "case x of (ok, d') \<Rightarrow> drv_inv dx d' \<and> drv_same d d' \<and> lastTdi d' = lastTdi d
    \<and> (ok \<and> strict \<longrightarrow> drv_room (N - f) d')
    \<and> (idle (dview d) \<longrightarrow> moves d ok d' (tms_view clk (lastTdi d) (vbits tms f t)))"
  then have p: "drv_inv dx d'" "drv_same d d'" "lastTdi d' = lastTdi d"
    "ok \<and> strict \<longrightarrow> drv_room (N - f) d'"
    "idle (dview d) \<longrightarrow> moves d ok d' (tms_view clk (lastTdi d) (vbits tms f t))"
    by (simp_all add: x)
  have z: "map fst (zip (vbits tms f t) ds) = vbits tms f t" using len by simp
  have low: "is_shift (tap_run q (vbits tms f t)) \<Longrightarrow> \<not> last (vbits tms f t)"
    using ft(1) by (intro into_shift_low) (simp_all add: vbits_Cons)
  have "ok \<and> (case cable clk q lv (zip (vbits tms f t) ds) f buf s of (lv', buf', s') \<Rightarrow>
      linked_at (tap_run q (vbits tms f t)) lv' m tdo buf' s' d')"
    if l: "linked_at q lv m tdo buf s d" for lv m buf s
  proof -
    from l p(5) have ok: "ok" "dlinked d'" "dview d' = tms_view clk lv (vbits tms f t) (dview d)"
      by (simp_all add: linked_at_def moves_def)
    have "ch_dev (snd (do_clocks clk cs c)) = snd (clocks clk cs (ch_dev c))" for cs c
      by (simp add: do_clocks_def split: prod.splits)
    then have "ch_dev (fst (dview d')) = snd (clocks clk (map (\<lambda>b. (b, lv)) (vbits tms f t)) s)"
      using l by (simp add: ok(3) tms_view_def linked_at_def)
    with ok l low p(3) show ?thesis
      by (simp add: cable_tms [of q] z q linked_at_def)
  qed
  then show "follows strict (N - t) (zip (vbits tms f t) ds) f tdo q d x"
    using p ft by (auto simp: follows_def x z elim: drv_room_mono)
qed simp

lemma tdi_event_out:
  assumes inv: "drv_inv dx d" and ft: "f < t" "t \<le> 8 * length tdi" "t \<le> N" "t \<le> 8 * drv_sizes d tdo"
    and ts: "ts = event_tms (Shift_tdi tdi tdo (int f) (int t) inc)"
    and q: "list_all is_shift (tap_path q ts)"
    and room: "strict \<Longrightarrow> drv_room (N - f) d"
  shows "c_out strict (jtag_splitter_callback dx (Shift_tdi tdi tdo (int f) (int t) inc) d)
    (follows strict (N - t) (zip ts (vbits tdi f t)) f tdo q d)"
  unfolding jtag_splitter_callback.simps
proof (rule c_out_mono [OF append_tdi_out [OF inv ft(1,2,4,3) room]])
  fix x :: "bool \<times> 'w ftdi"
  obtain ok d' where x: "x = (ok, d')" by (cases x)
  assume "shifted strict N tdi tdo t (\<not> inc) f d x"
  then have p: "drv_inv dx d'" "drv_same d d'" "ok \<longrightarrow> lastTdi d' = vbit tdi (t - 1)"
    "ok \<and> strict \<longrightarrow> drv_room (N - t) d'"
    "idle (dview d) \<longrightarrow> moves d ok d' (fin tdi tdo t (\<not> inc) f)"
    by (simp_all add: shifted_def x)
  have ts': "ts = replicate (t - 1 - f) False @ [\<not> inc]" using ft(1) by (simp add: ts)
  obtain u where u: "t = Suc u" "f \<le> u" using ft(1) by (cases t) auto
  have len: "length ts = t - f" using u by (simp add: ts')
  have z: "map fst (zip ts (vbits tdi f t)) = ts" "map snd (zip ts (vbits tdi f t)) = vbits tdi f t"
    using len by simp_all
  have zs: "zip ts (vbits tdi f t) = map (Pair False) (vbits tdi f (t - 1)) @ [(\<not> inc, vbit tdi (t - 1))]"
    using u(2) by (simp add: ts' u(1) vbits_snoc zip_append zip_replicate1)
  have lastv: "last (lv # vbits tdi f t) = vbit tdi (t - 1)" for lv
    using u(2) by (simp add: u(1) vbits_snoc)
  have qs: "is_shift q" using q u by (cases ts) (auto simp: ts')
  have low: "is_shift (tap_run q ts) \<Longrightarrow> inc"
    using into_shift_low [of q ts] by (simp add: ts')
  have "ok \<and> (case cable clk q lv (zip ts (vbits tdi f t)) f buf s of (lv', buf', s') \<Rightarrow>
      linked_at (tap_run q ts) lv' m tdo buf' s' d')"
    if l: "linked_at q lv m tdo buf s d" for lv m buf s
  proof -
    from l p(5) have ok: "ok" "dlinked d'" "dview d' = fin tdi tdo t (\<not> inc) f (dview d)"
      by (simp_all add: linked_at_def moves_def)
    have v: "ch_tms (fst (dview d)) = False" "snd (dview d) tdo = Some buf" "ch_dev (fst (dview d)) = s"
      using l qs by (simp_all add: linked_at_def)
    obtain os s' where cs: "clocks clk (zip ts (vbits tdi f t)) s = (os, s')" by fastforce
    have "dview d' = ((fst (shift_view clk tdo f (zip ts (vbits tdi f t)) (dview d)))\<lparr>ch_tms := \<not> inc\<rparr>,
        (snd (dview d))(tdo \<mapsto> write_bits buf f os))"
      using v cs by (simp add: ok(3) fin_def zs shift_view_def do_clocks_def put_bits_single set_tms_def)
    moreover have "ch_dev (fst (shift_view clk tdo f (zip ts (vbits tdi f t)) (dview d))) = s'"
      using v cs by (simp add: shift_view_def do_clocks_def)
    ultimately show ?thesis
      using ok l low p(3) cs lastv [of lv]
      by (simp add: cable_tdi [of q] z q linked_at_def idle_def)
  qed
  then show "follows strict (N - t) (zip ts (vbits tdi f t)) f tdo q d x"
    using p by (auto simp: follows_def x z)
qed

lemma follows_trans:
  assumes m: "c_out strict m (follows strict k bs fp tdo q d)" and i: "i = fp + length bs"
    and f: "\<And>d'. drv_inv dx d' \<Longrightarrow> drv_same d d' \<Longrightarrow> (strict \<Longrightarrow> drv_room k d') \<Longrightarrow>
      c_out strict (f d') (follows strict l cs i tdo (tap_run q (map fst bs)) d')"
  shows "c_out strict (c_bind m (\<lambda>(ok, d'). if ok then f d' else Ok (False, d')))
    (follows strict l (bs @ cs) fp tdo q d)"
proof (rule c_out_bindI [OF m])
  fix x :: "bool \<times> 'w ftdi"
  obtain ok d1 where x: "x = (ok, d1)" by (cases x)
  assume "follows strict k bs fp tdo q d x"
  then have 1: "drv_inv dx d1" "drv_same d d1" "ok \<and> strict \<longrightarrow> drv_room k d1"
    "\<And>lv m buf s. linked_at q lv m tdo buf s d \<Longrightarrow> ok \<and>
       (case cable clk q lv bs fp buf s of (lv', buf', s') \<Rightarrow>
          linked_at (tap_run q (map fst bs)) lv' m tdo buf' s' d1)"
    by (simp_all add: follows_def x)
  have "c_out strict (if ok then f d1 else Ok (False, d1)) (follows strict l (bs @ cs) fp tdo q d)"
  proof (cases ok)
    case False
    with 1 show ?thesis by (auto simp: follows_def)
  next
    case True
    then have "c_out strict (f d1) (follows strict l cs i tdo (tap_run q (map fst bs)) d1)"
      using 1 by (intro f) auto
    then have "c_out strict (f d1) (follows strict l (bs @ cs) fp tdo q d)"
    proof (rule c_out_mono)
      fix y :: "bool \<times> 'w ftdi"
      assume y: "follows strict l cs i tdo (tap_run q (map fst bs)) d1 y"
      then have "drv_same d (snd y)" using drv_same_trans [OF 1(2)] by (auto simp: follows_def)
      with y 1(4) show "follows strict l (bs @ cs) fp tdo q d y"
        by (fastforce simp: follows_def cable_append i split: prod.splits)
    qed
    with True show ?thesis by simp
  qed
  then show "c_out strict (case x of (ok, d') \<Rightarrow> if ok then f d' else Ok (False, d'))
      (follows strict l (bs @ cs) fp tdo q d)" by (simp add: x)
qed

lemma feed_events_out:
  assumes "drv_inv dx d" "covers tms tdi tdo fp n es" "shift_states_ok q es"
    "concat (map event_tms es) = vbits tms fp n" "n \<le> 8 * length tms" "n \<le> 8 * length tdi"
    "n \<le> 8 * drv_sizes d tdo" "n \<le> N" "strict \<Longrightarrow> drv_room (N - fp) d"
  shows "c_out strict (feed (jtag_splitter_callback dx) es d)
    (follows strict (N - n) (zip (vbits tms fp n) (vbits tdi fp n)) fp tdo q d)"
  using assms
proof (induction es arbitrary: d fp q)
  case Nil
  then show ?case by (auto simp: follows_def)
next
  case (Cons e es)
  from Cons.prems(2) obtain t' where t': "int fp < t'" "covers tms tdi tdo (nat t') n es"
    "e = Shift_tms tms (int fp) t' \<or> (\<exists>i. e = Shift_tdi tdi tdo (int fp) t' i)"
    by (cases e) auto
  then obtain t where t: "t' = int t" by (metis nonneg_int_cases order.strict_trans1 of_nat_0_le_iff order_less_imp_le)
  have ft: "fp < t" "t \<le> n" using t' covers_le [OF t'(2)] by (simp_all add: t)
  have lent: "length (event_tms e) = t - fp" using t'(3) ft by (auto simp: t)
  have "vbits tms fp n = vbits tms fp t @ vbits tms t n" using ft by (simp add: vbits_append)
  with Cons.prems(4) lent have ev: "event_tms e = vbits tms fp t"
    "concat (map event_tms es) = vbits tms t n" by simp_all
  have ss: "list_all (\<lambda>x. is_shift x \<longleftrightarrow> is_shift_tdi e) (tap_path q (vbits tms fp t))"
    "shift_states_ok (tap_run q (vbits tms fp t)) es"
    using Cons.prems(3) by (simp_all add: ev)
  have first: "c_out strict (jtag_splitter_callback dx e d)
    (follows strict (N - t) (zip (vbits tms fp t) (vbits tdi fp t)) fp tdo q d)"
  proof (cases "is_shift_tdi e")
    case False
    then have e: "e = Shift_tms tms (int fp) (int t)" using t'(3) t by auto
    show ?thesis
      unfolding e using Cons.prems ft ss(1) False
      by (intro tms_event_out) (auto simp: list_all_iff)
  next
    case True
    then obtain i where e: "e = Shift_tdi tdi tdo (int fp) (int t) i" using t'(3) t by auto
    show ?thesis
      unfolding e using Cons.prems ft ss(1) True ev(1) e
      by (intro tdi_event_out) (auto simp: list_all_iff)
  qed
  have zs: "zip (vbits tms fp n) (vbits tdi fp n)
      = zip (vbits tms fp t) (vbits tdi fp t) @ zip (vbits tms t n) (vbits tdi t n)"
    using ft zip_append [of "vbits tms fp t" "vbits tdi fp t" "vbits tms t n" "vbits tdi t n"]
    by (simp add: vbits_append)
  show ?case
    unfolding feed.simps zs
  proof (rule follows_trans [OF first, where i = t])
    fix d'
    assume "drv_inv dx d'" "drv_same d d'" "strict \<Longrightarrow> drv_room (N - t) d'"
    moreover from this have "n \<le> 8 * drv_sizes d' tdo" using Cons.prems(7) by (simp add: drv_same_def)
    ultimately show "c_out strict (feed (jtag_splitter_callback dx) es d')
      (follows strict (N - n) (zip (vbits tms t n) (vbits tdi t n)) t tdo
        (tap_run q (map fst (zip (vbits tms fp t) (vbits tdi fp t)))) d')"
      using Cons.prems t'(2) ev(2) ss(2) by (intro Cons.IH) (simp_all add: t)
  qed (use ft in simp)
qed

lemma flush_event_out:
  assumes inv: "drv_inv dx d"
  shows "c_out strict (jtag_splitter_callback dx Flush_all d) (\<lambda>(ok, d'). drv_inv dx d' \<and> drv_same d d'
    \<and> (\<forall>k. ok \<and> drv_cap k d \<longrightarrow> drv_room k d') \<and> (ok \<longrightarrow> flushed d')
    \<and> (dlinked d \<longrightarrow> ok \<and> dlinked d' \<and> dview d' = dview d \<and> snd (dview d') = mem (fd_io d')
         \<and> lastTdi d' = lastTdi d))"
proof -
  let ?b = "cmdBuffer d" and ?i = "fd_io d"
  have bi: "buf_inv (bit_extras ?i) (mem_size (mem ?i)) ?b" "d2xx_ok dx" "pool_ok (fd_pool d)"
    using inv by (simp_all add: drv_inv_def)
  show ?thesis
    unfolding jtag_splitter_callback.simps on_buffer_def c_bind_assoc
  proof (rule c_out_bindI [OF flush_out [OF bi(1,2)]])
    fix x :: "bool \<times> ft_buffer \<times> 'w io"
    obtain ok b i where x: "x = (ok, b, i)" by (cases x)
    assume fl: "ft_buffer_flush dx ?b ?i = Ok x"
      and "case x of (ok, b', i') \<Rightarrow> buf_inv (bit_extras ?i) (mem_size (mem ?i)) b' \<and> same_cfg ?b b'
        \<and> io_same ?i i' \<and> (ok \<longrightarrow> txBuffer b' = None \<and> rxBuffer b' = None
             \<and> pool_head (fb_pool b') = pool_start (fb_pool ?b))"
    then have p: "buf_inv (bit_extras ?i) (mem_size (mem ?i)) b" "same_cfg ?b b" "io_same ?i i"
      "ok \<longrightarrow> txBuffer b = None \<and> rxBuffer b = None \<and> pool_head (fb_pool b) = pool_start (fb_pool ?b)"
      by (simp_all add: x)
    let ?d = "d\<lparr>cmdBuffer := b, fd_io := i, fd_pool := txvc_mempool_reclaim_all (fd_pool d)\<rparr>"
    have "drv_inv dx ?d"
      using inv p(1-3) pool_ok_reclaim [OF bi(3)]
      by (simp add: drv_inv_def io_same_def same_cfg_def)
    moreover have "drv_same d ?d"
      using p(2,3) by (simp add: drv_same_def drv_sizes_def io_same_def reclaim_arena)
    moreover have "drv_room k ?d" if "ok" "drv_cap k d" for k
      using that p(2,4)
      by (auto simp: drv_room_def drv_cap_def roomy_def fb_need_def fb_end_def same_cfg_def
          same_arena_def txvc_mempool_reclaim_all_def)
    moreover have "ok \<longrightarrow> flushed ?d" using p(4) by (simp add: flushed_def)
    moreover have "ok \<and> dlinked ?d \<and> dview ?d = dview d \<and> snd (dview d) = mem i"
      if l: "dlinked d"
    proof -
      have f: "ok" "lnk b i" "view b i = view ?b ?i" "snd (view b i) = mem i"
        using flush_link [OF bi(1) _ fl [unfolded x]] l unfolding dlinked_def by blast+
      note f = f [unfolded f(3)] f(3)
      then have "rxObservers b = []" using p(1,4) by (simp add: buf_inv_def)
      then show ?thesis using f by (simp add: dlinked_def dview_def fresh_extras_def)
    qed
    ultimately show "c_out strict (c_bind (case x of (ok, b, i) \<Rightarrow> Ok (ok, d\<lparr>cmdBuffer := b, fd_io := i\<rparr>))
        (\<lambda>(res, d'). Ok (res, d'\<lparr>fd_pool := txvc_mempool_reclaim_all (fd_pool d')\<rparr>)))
      (\<lambda>(ok, d'). drv_inv dx d' \<and> drv_same d d' \<and> (\<forall>k. ok \<and> drv_cap k d \<longrightarrow> drv_room k d') \<and> (ok \<longrightarrow> flushed d')
        \<and> (dlinked d \<longrightarrow> ok \<and> dlinked d' \<and> dview d' = dview d \<and> snd (dview d') = mem (fd_io d')
         \<and> lastTdi d' = lastTdi d))"
      by (simp add: x)
  qed
qed

lemma shift_bits_linked:
  assumes inv: "drv_inv dx d" and sp: "sp_cb sp = Some (jtag_splitter_callback dx)"
    and n: "n \<le> 2 ^ 31 - 8" "n \<le> 8 * length tms" "n \<le> 8 * length tdi" "n \<le> 8 * drv_sizes d tdo"
    and room: "strict \<Longrightarrow> drv_room n d" and l: "linked_at (sp_state sp) lv m tdo buf s d"
    and cab: "cable clk (sp_state sp) lv (zip (vbits tms 0 n) (vbits tdi 0 n)) 0 buf s = (lv', buf', s')"
  shows "c_out strict (shift_bits sp (int n) tms tdi tdo d) (\<lambda>(ok, sp', d').
    ok \<and> sp' = sp\<lparr>sp_state := tap_run (sp_state sp) (vbits tms 0 n)\<rparr>
    \<and> drv_inv dx d' \<and> drv_same d d' \<and> (\<forall>k. drv_cap k d \<longrightarrow> drv_room k d') \<and> flushed d'
    \<and> linked_at (sp_state sp') lv' m tdo buf' s' d' \<and> mem (fd_io d') = m(tdo \<mapsto> buf'))"
proof -
  let ?cb = "jtag_splitter_callback dx" and ?q = "sp_state sp"
  let ?es = "split_bits n tms tdi tdo 0 0 ?q (vbits tms 0 n)"
  have es: "covers tms tdi tdo 0 n ?es \<and> concat (map event_tms ?es) = vbits tms 0 n
      \<and> shift_states_ok ?q ?es"
    by (rule split_bits_meaning) (simp_all add: vbits_def)
  let ?P = "\<lambda>(ok, d'). ok \<and> drv_inv dx d' \<and> drv_same d d' \<and> (\<forall>k. drv_cap k d \<longrightarrow> drv_room k d') \<and> flushed d'
    \<and> linked_at (tap_run ?q (vbits tms 0 n)) lv' m tdo buf' s' d' \<and> mem (fd_io d') = m(tdo \<mapsto> buf')"
  have "c_out strict (feed ?cb ?es d)
      (follows strict (n - n) (zip (vbits tms 0 n) (vbits tdi 0 n)) 0 tdo ?q d)"
    using es inv n room by (intro feed_events_out) auto
  then have "c_out strict (feed ?cb (?es @ [Flush_all]) d) ?P"
    unfolding feed_append
  proof (rule c_out_bindI)
    fix x :: "bool \<times> 'w ftdi"
    obtain ok d1 where x: "x = (ok, d1)" by (cases x)
    assume "follows strict (n - n) (zip (vbits tms 0 n) (vbits tdi 0 n)) 0 tdo ?q d x"
    then have 1: "drv_inv dx d1" "drv_same d d1" "ok"
      "linked_at (tap_run ?q (vbits tms 0 n)) lv' m tdo buf' s' d1"
      using l cab unfolding follows_def x prod.case by (simp, simp, blast, fastforce split: prod.splits)
    have "c_out strict (?cb Flush_all d1) ?P"
    proof (rule c_out_mono [OF flush_event_out [OF 1(1)]])
      fix y :: "bool \<times> 'w ftdi"
      assume "case y of (ok, d') \<Rightarrow> drv_inv dx d' \<and> drv_same d1 d'
        \<and> (\<forall>k. ok \<and> drv_cap k d1 \<longrightarrow> drv_room k d') \<and> (ok \<longrightarrow> flushed d')
        \<and> (dlinked d1 \<longrightarrow> ok \<and> dlinked d' \<and> dview d' = dview d1 \<and> snd (dview d') = mem (fd_io d')
             \<and> lastTdi d' = lastTdi d1)"
      then show "?P y"
        using 1(2,4) by (auto simp: linked_at_def drv_cap_same dest: drv_same_trans)
    qed
    moreover have "feed ?cb [Flush_all] d1 = ?cb Flush_all d1"
      by (cases "?cb Flush_all d1") (auto simp del: jtag_splitter_callback.simps)
    ultimately show "c_out strict (case x of (ok, s') \<Rightarrow>
        if ok then feed ?cb [Flush_all] s' else Ok (False, s')) ?P"
      using 1(3) by (simp add: x del: feed.simps jtag_splitter_callback.simps)
  qed
  then show ?thesis
    unfolding shift_bits_def splitter_refines_main [OF n(2,1) sp]
    by (rule c_out_bindI) auto
qed

text \<open>The callback keeps the invariant whatever is linked to the driver.\<close>

lemma callback_safe:
  assumes "drv_inv dx d" "event_ok (drv_sizes d) e"
  shows "c_safe (jtag_splitter_callback dx e d) (\<lambda>(ok, d'). drv_inv dx d' \<and> drv_same d d')"
proof (cases e)
  case (Shift_tms tms f t)
  with assms(2) obtain i j where ij: "f = int i" "t = int j"
    by (metis event_ok.simps(1) nonneg_int_cases order.strict_trans1 order_less_imp_le)
  with assms Shift_tms show ?thesis
    using c_out_mono [OF append_tms_out [of d i j tms False 0]]
    by (fastforce simp flip: c_out_False)
next
  case (Shift_tdi tdi tdo f t inc)
  with assms(2) obtain i j where ij: "f = int i" "t = int j"
    by (metis event_ok.simps(2) nonneg_int_cases order.strict_trans1 order_less_imp_le)
  with assms Shift_tdi show ?thesis
    using c_out_mono [OF append_tdi_out [of d i j tdi tdo j False "\<not> inc"]]
    by (fastforce simp: shifted_def simp flip: c_out_False)
next
  case Flush_all
  then show ?thesis
    using flush_event_out [OF assms(1), of False] unfolding c_out_False
    by (auto elim: c_safe_mono)
qed

end

end
