(* ===== verification/Ftdi_Shifting.thy ===== *)
theory Ftdi_Shifting
  imports Ftdi_Cable
begin

text \<open>
  Properties of the FTDI driver's \<open>shift_bits\<close> and of what it consists of, for an arbitrary D2XX
  library and for the reference chip.
\<close>

subsection \<open>The interfaces hold of the driver\<close>

interpretation unlinked: command_link dx clk "\<lambda>b i. False" view
  for dx :: "'w d2xx" and clk :: "'d target" and view
  by unfold_locales simp_all

lemma deliver_Cons: "deliver ex rx (o' # os) m = deliver ex rx os (put_bits (node_bits ex rx o') m)"
  by (simp add: deliver_def)

lemma linked_view_extra:
  assumes "\<forall>o' \<in> set (rxObservers b). ob_fn o' \<noteq> Bit_copier a"
  shows "linked_view clk b (i\<lparr>bit_extras := (bit_extras i)(a \<mapsto> e)\<rparr>) = linked_view clk b i"
proof -
  have "deliver ((bit_extras i)(a \<mapsto> e)) rx os m = deliver (bit_extras i) rx os m"
    if "\<forall>o' \<in> set os. ob_fn o' \<noteq> Bit_copier a" for rx os m
    using that
  proof (induction os arbitrary: m)
    case (Cons o' os)
    then have nb: "node_bits ((bit_extras i)(a \<mapsto> e)) rx o' = node_bits (bit_extras i) rx o'"
      by (cases "ob_fn o'") (auto simp: node_bits_def)
    show ?case unfolding deliver_Cons nb by (rule Cons.IH) (use Cons.prems in simp)
  qed (simp add: deliver_def)
  then show ?thesis using assms by (simp add: linked_view_def Let_def)
qed

interpretation mpsse: command_link dx clk "\<lambda>b i. chip_d2xx clk dx \<and> linked clk b i" "linked_view clk"
  for dx :: "'d chip d2xx" and clk :: "'d target"
proof unfold_locales
  fix i :: "'d chip io" and b b' n m ok i'
  assume "buf_inv (bit_extras i) (mem_size (mem i)) b" "chip_d2xx clk dx \<and> linked clk b i"
    "ft_buffer_ensure_can_append dx b i n m = Ok (ok, b', i')"
  then show "ok \<and> (chip_d2xx clk dx \<and> linked clk b' i') \<and> linked_view clk b' i' = linked_view clk b i"
    using ensure_chip by blast
next
  fix b and i :: "'d chip io"
  show "mem_size (snd (linked_view clk b i)) = mem_size (mem i)"
    by (simp add: linked_view_def Let_def)
next
  fix i :: "'d chip io" and b b' ok i'
  assume "buf_inv (bit_extras i) (mem_size (mem i)) b" "chip_d2xx clk dx \<and> linked clk b i"
    "ft_buffer_flush dx b i = Ok (ok, b', i')"
  then have "ok" "chip_d2xx clk dx" "world i' = fst (linked_view clk b i)"
    "mem i' = snd (linked_view clk b i)" "txBuffer b' = None" "rxObservers b' = []" "rxNumBytes b' = 0"
    using flush_chip [of i b clk dx] by auto
  moreover have "ch_out (fst (linked_view clk b i)) = []"
    by (simp add: linked_view_def Let_def)
  ultimately show "ok \<and> (chip_d2xx clk dx \<and> linked clk b' i') \<and> linked_view clk b' i' = linked_view clk b i
      \<and> snd (linked_view clk b' i') = mem i'"
    by (cases "linked_view clk b i")
       (simp add: linked_def linked_view_def [of clk b'] pend_tx_def deliver_def)
next
  fix b b' data n observer m sz and i :: "'d chip io"
  assume "chip_d2xx clk dx \<and> linked clk b i" "appended b b' data n observer m"
    "list_all (node_ok (bit_extras i) sz (rxNumBytes b)) (rxObservers b)"
    "\<And>fn. 0 < m \<Longrightarrow> observer = Some fn \<Longrightarrow> fn_ok (bit_extras i) sz m fn"
    "int (length (ch_out (chip_feed clk (take (nat n) data) (fst (linked_view clk b i))))) = m"
  then show "(chip_d2xx clk dx \<and> linked clk b' i) \<and> linked_view clk b' i
      = view_step clk (bit_extras i) (take (nat n) data) observer m (linked_view clk b i)"
    using appended_chip by blast
next
  fix b a e and i :: "'d chip io"
  assume "chip_d2xx clk dx \<and> linked clk b i" "\<forall>o' \<in> set (rxObservers b). ob_fn o' \<noteq> Bit_copier a"
  then show "(chip_d2xx clk dx \<and> linked clk b (i\<lparr>bit_extras := (bit_extras i)(a \<mapsto> e)\<rparr>))
      \<and> linked_view clk b (i\<lparr>bit_extras := (bit_extras i)(a \<mapsto> e)\<rparr>) = linked_view clk b i"
    by (simp add: linked_view_extra) (simp add: linked_def)
qed

interpretation ftdi_sink: jtag_sink "jtag_splitter_callback dx" "drv_inv dx" drv_sizes
  for dx :: "'w d2xx"
proof unfold_locales
  fix d :: "'w ftdi" and e
  assume "drv_inv dx d" "event_ok (drv_sizes d) e"
  then show "c_safe (jtag_splitter_callback dx e d) (\<lambda>(ok, d'). drv_inv dx d' \<and> drv_sizes d' = drv_sizes d)"
    by (rule c_safe_mono [OF unlinked.callback_safe]) (auto simp: drv_same_def)
qed

subsection \<open>A concrete library, chip and driver\<close>

text \<open>The witnesses below evaluate the properties on a library that transfers what it is asked to,
  a freshly activated driver, and a target whose TDO is the TDI of the clock before.\<close>

definition ref_d2xx :: "'d target \<Rightarrow> 'd chip d2xx" where
  "ref_d2xx clk = \<lparr>
     FT_Write = (\<lambda>h bs w. (FT_OK, of_nat (length bs), chip_feed clk bs w)),
     FT_Read = (\<lambda>h n w. let k = min (unat n) (length (ch_out w)) in
       (FT_OK, take k (ch_out w), of_nat k, w\<lparr>ch_out := drop k (ch_out w)\<rparr>)),
     FT_GetLibraryVersion = (\<lambda>w. (FT_OK, 0x30115, w)),
     FT_SetVIDPID = (\<lambda>vid pid w. (FT_OK, w)),
     FT_CreateDeviceInfoList = (\<lambda>w. (FT_OK, 1, w)),
     FT_GetDeviceInfoList = (\<lambda>w. (FT_OK, [\<lparr>SerialNumber = ''FT7A'', Description = ''MPSSE''\<rparr>], 1, w)),
     FT_Open = (\<lambda>i w. (FT_OK, 1, w\<lparr>ch_open := True\<rparr>)),
     FT_OpenEx = (\<lambda>s w. (FT_OK, 1, w\<lparr>ch_open := True\<rparr>)),
     FT_Purge = (\<lambda>h w. (FT_OK, w)),
     FT_SetChars = (\<lambda>h w. (FT_OK, w)),
     FT_SetFlowControl = (\<lambda>h w. (FT_OK, w)),
     FT_SetLatencyTimer = (\<lambda>h n w. (FT_OK, w)),
     FT_SetBitMode = (\<lambda>h mask mode w. (FT_OK, w\<lparr>ch_mode := mode\<rparr>)),
     FT_Close = (\<lambda>h w. (FT_OK, w\<lparr>ch_open := False\<rparr>))\<rparr>"

lemma ref_d2xx_ok: "d2xx_ok (ref_d2xx clk)"
  by (simp add: d2xx_ok_def ref_d2xx_def Let_def)

lemma ref_d2xx_chip: "chip_d2xx clk (ref_d2xx clk)"
  by (simp add: chip_d2xx_def ref_d2xx_def Let_def)

definition idle_chip :: "'d \<Rightarrow> 'd chip" where
  "idle_chip s = \<lparr>ch_acc = [], ch_out = [], ch_reg = 0, ch_tms = True, ch_divisor = 0,
     ch_fast = False, ch_pins = (0, 0), ch_mode = 0, ch_open = False, ch_dev = s\<rparr>"

lemma idle_chip_fields:
  "ch_acc (idle_chip s) = []" "ch_out (idle_chip s) = []" "ch_tms (idle_chip s) = True"
  "ch_dev (idle_chip s) = s"
  by (simp_all add: idle_chip_def)

definition ref_arena :: "u64 \<Rightarrow> u64 \<Rightarrow> mempool" where
  "ref_arena p sz = \<lparr>pool_start = p, pool_end = p + sz, pool_head = p, fatalOom = True,
     release = Some MallocPoolRelease\<rparr>"

definition ref_driver :: "(buf_ref \<Rightarrow> u8 list option) \<Rightarrow> 'w \<Rightarrow> 'w ftdi" where
  "ref_driver m w = \<lparr>
     fd_params = \<lparr>device = FT_DEVICE_2232H, vid = 0x403, pid = 0x6010, channel = CHR ''A'',
       read_latency_millis = 16, d_pins = replicate 8 PIN_ROLE_OTHER_IGNORED\<rparr>,
     chipBufferBytes = 4096, highSpeedCapable = True, ftHandle = 1, lastTdi = False,
     fd_pool = ref_arena 0x10000 0x10000,
     cmdBuffer = \<lparr>ftChip = 1, fb_pool = ref_arena 0x20000 0x20000, txBuffer = None, txNumBytes = 0,
       maxTxBufferBytes = 12288, rxBuffer = None, rxNumBytes = 0, maxRxBufferBytes = 4096,
       rxObservers = []\<rparr>,
     fd_io = \<lparr>mem = m, bit_extras = Map.empty, world = w\<rparr>\<rparr>"

lemma ref_driver_inv: "d2xx_ok dx \<Longrightarrow> drv_inv dx (ref_driver m w)"
  by (simp add: drv_inv_def ref_driver_def buf_inv_def pool_ok_def pool_wf_def ref_arena_def)

lemma ref_driver_fields:
  "fd_io (ref_driver m w) = \<lparr>mem = m, bit_extras = Map.empty, world = w\<rparr>"
  "lastTdi (ref_driver m w) = False" "flushed (ref_driver m w)"
  "drv_cap 1792 (ref_driver m w)" "drv_room 1792 (ref_driver m w)"
  by (simp_all add: ref_driver_def flushed_def drv_cap_def drv_room_def roomy_def fb_end_def
      fb_need_def ref_arena_def)

definition bypass :: "bool target" where "bypass tms tdi s = (s, tdi)"

subsection \<open>Safety\<close>

text \<open>C3. Whatever the D2XX library reports (it may fail, or transfer less than asked, at any
  call, as long as it does not store more bytes than it is given room for), shifting a vector
  that fits its buffers leaves no defined behaviour: every access of the driver and of its
  observers is in bounds and of a live object, no arithmetic overflows, nothing traps and no loop
  runs on; the only other outcome is the abort of an arena that has run out of memory. The
  driver's invariant is kept, and the splitter records the state the TAP is then in.\<close>
theorem shift_bits_safe:
  assumes "drv_inv dx d" "sp_cb sp = Some (jtag_splitter_callback dx)" "n \<le> 2 ^ 31 - 8"
    and "n \<le> 8 * length tms" "n \<le> 8 * length tdi" "n \<le> 8 * drv_sizes d tdo"
  shows "c_safe (shift_bits sp (int n) tms tdi tdo d) (\<lambda>(ok, sp', d').
    drv_inv dx d' \<and> drv_sizes d' = drv_sizes d \<and> sp_cb sp' = Some (jtag_splitter_callback dx) \<and>
    sp_state sp' = (if ok then tap_run (sp_state sp) (vbits tms 0 n) else TEST_LOGIC_RESET))"
  unfolding shift_bits_def using assms by (rule ftdi_sink.process_safe)

theorem shift_bits_safe_witness:
  "c_safe (shift_bits \<lparr>sp_state = TEST_LOGIC_RESET, sp_cb = Some (jtag_splitter_callback (ref_d2xx bypass))\<rparr>
      (int 8) [0x82] [0x57] 7 (ref_driver [7 \<mapsto> [0xff]] (idle_chip True)))
    (\<lambda>(ok, sp', d'). drv_inv (ref_d2xx bypass) d'
      \<and> sp_state sp' = (if ok then EXIT_1_DR else TEST_LOGIC_RESET))"
proof -
  let ?d = "ref_driver [7 \<mapsto> [0xff]] (idle_chip True)" and ?dx = "ref_d2xx bypass"
  let ?sp = "\<lparr>sp_state = TEST_LOGIC_RESET, sp_cb = Some (jtag_splitter_callback ?dx)\<rparr>"
  have run: "tap_run TEST_LOGIC_RESET (vbits [0x82] 0 8) = EXIT_1_DR" by code_simp
  have "drv_sizes ?d 7 = 1" by (simp add: drv_sizes_def ref_driver_fields mem_size_def)
  then have "c_safe (shift_bits ?sp (int 8) [0x82] [0x57] 7 ?d) (\<lambda>(ok, sp', d').
      drv_inv ?dx d' \<and> drv_sizes d' = drv_sizes ?d \<and> sp_cb sp' = Some (jtag_splitter_callback ?dx) \<and>
      sp_state sp' = (if ok then tap_run (sp_state ?sp) (vbits [0x82] 0 8) else TEST_LOGIC_RESET))"
    using ref_driver_inv [OF ref_d2xx_ok] by (intro shift_bits_safe) simp_all
  then show ?thesis by (rule c_safe_mono) (auto simp: run)
qed

subsection \<open>The reference chip\<close>

text \<open>Nothing is queued, neither in the buffer nor in the chip.\<close>

definition quiet :: "'d chip ftdi \<Rightarrow> bool" where
  "quiet d \<longleftrightarrow> flushed d \<and> ch_acc (world (fd_io d)) = [] \<and> ch_out (world (fd_io d)) = []"

lemma quiet_view:
  assumes "drv_inv dx d" "flushed d"
  shows "linked_view clk (cmdBuffer d) (fd_io d) = ((world (fd_io d))\<lparr>ch_out := []\<rparr>, mem (fd_io d))"
    and "linked clk (cmdBuffer d) (fd_io d) \<longleftrightarrow> ch_out (world (fd_io d)) = []"
    and "fresh_extras d"
  using assms
  by (simp_all add: drv_inv_def buf_inv_def flushed_def linked_view_def linked_def pend_tx_def
      deliver_def fresh_extras_def Let_def)

lemma quiet_linked:
  assumes "drv_inv dx d" "quiet d" "chip_d2xx clk dx" "mem (fd_io d) tdo = Some buf"
    and "is_shift q \<longrightarrow> \<not> ch_tms (world (fd_io d))"
  shows "mpsse.linked_at clk dx
    q (lastTdi d) (mem (fd_io d)) tdo buf (ch_dev (world (fd_io d))) d"
  using assms quiet_view [OF assms(1)]
  unfolding mpsse.linked_at_def mpsse.dlinked_def mpsse.dview_def
  by (auto simp: quiet_def idle_def)

lemma linked_quiet:
  assumes "drv_inv dx d" "flushed d"
    and "mpsse.linked_at clk dx q lv m tdo buf s d"
  shows "quiet d" "lastTdi d = lv" "mem (fd_io d) = m(tdo \<mapsto> buf)" "ch_dev (world (fd_io d)) = s"
    "is_shift q \<longrightarrow> \<not> ch_tms (world (fd_io d))"
  using assms quiet_view [OF assms(1,2)]
  by (auto simp: mpsse.linked_at_def mpsse.dlinked_def mpsse.dview_def quiet_def idle_def)

text \<open>What is true between two vectors.\<close>

definition ready :: "nat \<Rightarrow> 'd target \<Rightarrow> 'd chip d2xx \<Rightarrow> 'd chip ftdi jtag_splitter \<Rightarrow> 'd chip ftdi \<Rightarrow> bool"
where
  "ready k clk dx sp d \<longleftrightarrow> chip_d2xx clk dx \<and> drv_inv dx d \<and> quiet d \<and> drv_cap k d \<and> drv_room k d
     \<and> sp_cb sp = Some (jtag_splitter_callback dx)
     \<and> (is_shift (sp_state sp) \<longrightarrow> \<not> ch_tms (world (fd_io d)))"

lemma shift_bits_chip:
  assumes r: "chip_d2xx clk dx" "drv_inv dx d" "quiet d" "strict \<Longrightarrow> drv_room n d"
      "sp_cb sp = Some (jtag_splitter_callback dx)"
      "is_shift (sp_state sp) \<longrightarrow> \<not> ch_tms (world (fd_io d))"
    and n: "n \<le> 2 ^ 31 - 8" "n \<le> 8 * length tms" "n \<le> 8 * length tdi" "n \<le> 8 * length buf"
    and buf: "mem (fd_io d) tdo = Some buf"
    and cab: "cable clk (sp_state sp) (lastTdi d) (zip (vbits tms 0 n) (vbits tdi 0 n)) 0 buf
      (ch_dev (world (fd_io d))) = (lv', buf', s')"
  shows "c_out strict (shift_bits sp (int n) tms tdi tdo d) (\<lambda>(ok, sp', d').
    ok \<and> sp' = sp\<lparr>sp_state := tap_run (sp_state sp) (vbits tms 0 n)\<rparr>
    \<and> drv_inv dx d' \<and> drv_same d d' \<and> (\<forall>k. drv_cap k d \<longrightarrow> drv_cap k d' \<and> drv_room k d') \<and> quiet d'
    \<and> (is_shift (sp_state sp') \<longrightarrow> \<not> ch_tms (world (fd_io d')))
    \<and> mem (fd_io d') = (mem (fd_io d))(tdo \<mapsto> buf') \<and> ch_dev (world (fd_io d')) = s'
    \<and> lastTdi d' = lv')"
proof -
  have size: "n \<le> 8 * drv_sizes d tdo" using n(4) buf by (simp add: drv_sizes_def mem_size_def)
  show ?thesis
  proof (rule c_out_mono [OF mpsse.shift_bits_linked [OF r(2,5) n(1-3) size r(4)
          quiet_linked [OF r(2,3,1) buf r(6)] cab]], assumption)
    fix x :: "bool \<times> 'a chip ftdi jtag_splitter \<times> 'a chip ftdi"
    obtain ok sp' d' where x: "x = (ok, sp', d')" by (cases x)
    assume "case x of (ok, sp', d') \<Rightarrow> ok \<and> sp' = sp\<lparr>sp_state := tap_run (sp_state sp) (vbits tms 0 n)\<rparr>
      \<and> drv_inv dx d' \<and> drv_same d d' \<and> (\<forall>k. drv_cap k d \<longrightarrow> drv_room k d') \<and> flushed d'
      \<and> mpsse.linked_at clk dx
          (sp_state sp') lv' (mem (fd_io d)) tdo buf' s' d' \<and> mem (fd_io d') = (mem (fd_io d))(tdo \<mapsto> buf')"
    then have p: "ok" "sp' = sp\<lparr>sp_state := tap_run (sp_state sp) (vbits tms 0 n)\<rparr>" "drv_inv dx d'"
      "drv_same d d'" "\<forall>k. drv_cap k d \<longrightarrow> drv_room k d'" "flushed d'"
      "mpsse.linked_at clk dx
          (sp_state sp') lv' (mem (fd_io d)) tdo buf' s' d'"
      unfolding x prod.case by blast+
    show "case x of (ok, sp', d') \<Rightarrow> ok \<and> sp' = sp\<lparr>sp_state := tap_run (sp_state sp) (vbits tms 0 n)\<rparr>
    \<and> drv_inv dx d' \<and> drv_same d d' \<and> (\<forall>k. drv_cap k d \<longrightarrow> drv_cap k d' \<and> drv_room k d') \<and> quiet d'
    \<and> (is_shift (sp_state sp') \<longrightarrow> \<not> ch_tms (world (fd_io d')))
    \<and> mem (fd_io d') = (mem (fd_io d))(tdo \<mapsto> buf') \<and> ch_dev (world (fd_io d')) = s'
    \<and> lastTdi d' = lv'"
      using p(1-5) linked_quiet [OF p(3,6,7)] by (simp add: x drv_cap_same)
  qed
qed

text \<open>C2. With the reference chip behind it, shifting a vector is the JTAG cable: the target is
  clocked with the TMS bits of the vector and, while its TAP is in a shift state, with the TDI
  bits, else with the level of the last bit shifted; the levels of TDO at the bits shifted are
  what the TDO vector then holds there, and no other bit of it and no other buffer is changed. The
  only other outcome is that the logger aborts because an arena is out of memory.\<close>
theorem shift_bits_is_cable:
  assumes "chip_d2xx clk dx" "drv_inv dx d" "quiet d"
    and "sp_cb sp = Some (jtag_splitter_callback dx)"
    and "is_shift (sp_state sp) \<longrightarrow> \<not> ch_tms (world (fd_io d))"
    and "n \<le> 2 ^ 31 - 8" "n \<le> 8 * length tms" "n \<le> 8 * length tdi" "n \<le> 8 * length buf"
    and "mem (fd_io d) tdo = Some buf"
    and "cable clk (sp_state sp) (lastTdi d) (zip (vbits tms 0 n) (vbits tdi 0 n)) 0 buf
      (ch_dev (world (fd_io d))) = (lv', buf', s')"
  shows "c_safe (shift_bits sp (int n) tms tdi tdo d) (\<lambda>(ok, sp', d').
    ok \<and> sp' = sp\<lparr>sp_state := tap_run (sp_state sp) (vbits tms 0 n)\<rparr>
    \<and> mem (fd_io d') = (mem (fd_io d))(tdo \<mapsto> buf') \<and> ch_dev (world (fd_io d')) = s'
    \<and> lastTdi d' = lv' \<and> quiet d')"
  unfolding c_out_False [symmetric]
  by (rule c_out_mono [OF shift_bits_chip [OF assms(1-3) _ assms(4-)]]) auto

theorem shift_bits_is_cable_witness:
  "c_safe (shift_bits \<lparr>sp_state = TEST_LOGIC_RESET, sp_cb = Some (jtag_splitter_callback (ref_d2xx bypass))\<rparr>
      (int 8) [0x82] [0x57] 7 (ref_driver [7 \<mapsto> [0xff]] (idle_chip True)))
    (\<lambda>(ok, sp', d'). ok \<and> sp_state sp' = EXIT_1_DR \<and> mem (fd_io d') 7 = Some [0xaf]
      \<and> ch_dev (world (fd_io d')) = False \<and> quiet d')"
proof -
  let ?d = "ref_driver [7 \<mapsto> [0xff]] (idle_chip True)" and ?dx = "ref_d2xx bypass"
  let ?sp = "\<lparr>sp_state = TEST_LOGIC_RESET, sp_cb = Some (jtag_splitter_callback ?dx)\<rparr>"
  have run: "tap_run TEST_LOGIC_RESET (vbits [0x82] 0 8) = EXIT_1_DR" by code_simp
  have cab: "cable bypass TEST_LOGIC_RESET False (zip (vbits [0x82] 0 8) (vbits [0x57] 0 8)) 0
      [0xff] True = (False, [0xaf], False)" by code_simp
  have "quiet ?d" by (simp add: quiet_def ref_driver_fields idle_chip_fields)
  then have "c_safe (shift_bits ?sp (int 8) [0x82] [0x57] 7 ?d) (\<lambda>(ok, sp', d').
      ok \<and> sp' = ?sp\<lparr>sp_state := EXIT_1_DR\<rparr> \<and> mem (fd_io d') = (mem (fd_io ?d))(7 \<mapsto> [0xaf])
      \<and> ch_dev (world (fd_io d')) = False \<and> lastTdi d' = False \<and> quiet d')"
    using shift_bits_is_cable [where clk = bypass and dx = ?dx and d = ?d and sp = ?sp and n = 8
        and tms = "[0x82]" and tdi = "[0x57]" and buf = "[0xff]" and tdo = 7
        and lv' = False and buf' = "[0xaf]" and s' = False] cab
    by (simp add: ref_driver_fields idle_chip_fields is_shift_def run ref_d2xx_chip
        ref_driver_inv ref_d2xx_ok)
  then show ?thesis by (rule c_safe_mono) auto
qed

text \<open>C4. A driver that is ready for vectors of up to \<open>k\<close> bits serves any number of them: each
  call returns, reports success and leaves the driver ready again. An arena of the size the
  driver reserves is enough for \<open>k = 1792\<close> with the largest chip buffer.\<close>
theorem shift_bits_serves:
  assumes "ready k clk dx sp d" "n \<le> k" "k \<le> 2 ^ 31 - 8"
    and "n \<le> 8 * length tms" "n \<le> 8 * length tdi" "n \<le> 8 * length buf"
    and "mem (fd_io d) tdo = Some buf"
  shows "\<exists>sp' d'. shift_bits sp (int n) tms tdi tdo d = Ok (True, sp', d') \<and> ready k clk dx sp' d'
    \<and> drv_sizes d' = drv_sizes d"
proof -
  obtain lv' buf' s' where cab: "cable clk (sp_state sp) (lastTdi d)
      (zip (vbits tms 0 n) (vbits tdi 0 n)) 0 buf (ch_dev (world (fd_io d))) = (lv', buf', s')"
    by (metis prod_cases3)
  have "c_out True (shift_bits sp (int n) tms tdi tdo d) (\<lambda>(ok, sp', d'). ok \<and> ready k clk dx sp' d')"
    by (rule c_out_mono [OF shift_bits_chip [where clk = clk, OF _ _ _ _ _ _ _ assms(4-7) cab]])
       (use assms(1-3) in \<open>auto simp: ready_def elim: drv_room_mono\<close>)
  moreover have "c_safe (shift_bits sp (int n) tms tdi tdo d) (\<lambda>(ok, sp', d'). drv_sizes d' = drv_sizes d)"
    using assms unfolding shift_bits_def
    by (intro c_safe_mono [OF ftdi_sink.process_safe])
       (auto simp: ready_def drv_sizes_def mem_size_def)
  ultimately show ?thesis
    by (auto simp: c_out_True c_safe_iff)
qed

theorem shift_bits_serves_witness:
  "\<exists>sp' d'. shift_bits \<lparr>sp_state = TEST_LOGIC_RESET, sp_cb = Some (jtag_splitter_callback (ref_d2xx bypass))\<rparr>
      (int 8) [0x82] [0x57] 7 (ref_driver [7 \<mapsto> [0xff]] (idle_chip True)) = Ok (True, sp', d')
    \<and> ready 1792 bypass (ref_d2xx bypass) sp' d'"
proof -
  let ?d = "ref_driver [7 \<mapsto> [0xff]] (idle_chip True)" and ?dx = "ref_d2xx bypass"
  let ?sp = "\<lparr>sp_state = TEST_LOGIC_RESET, sp_cb = Some (jtag_splitter_callback ?dx)\<rparr>"
  have "ready 1792 bypass ?dx ?sp ?d"
    using ref_driver_inv [OF ref_d2xx_ok, of bypass]
    by (simp add: ready_def ref_d2xx_chip quiet_def ref_driver_fields idle_chip_fields is_shift_def)
  then show ?thesis
    using shift_bits_serves [of 1792 bypass ?dx ?sp ?d 8 "[0x82]" "[0x57]" "[0xff]" 7]
    by (simp add: ref_driver_fields) blast
qed

end
