(* ===== verification/Ftdi_Tck.thy ===== *)
theory Ftdi_Tck
  imports Ftdi_Shifting
begin

text \<open>
  Properties of the synchronisation check and of the TCK divisor of \<open>libdrivers/ftdi_generic.c\<close>,
  on the reference chip and when the chip does not answer.
\<close>

subsection \<open>Queueing without a flush\<close>

lemma length_pend_tx: "buf_inv ex sz b \<Longrightarrow> int (length (pend_tx b)) = txNumBytes b"
  by (auto simp: buf_inv_def pend_tx_def split: option.splits)

lemma ensure_no_flush:
  assumes "buf_inv ex sz b" "0 \<le> n" "0 \<le> m" "n \<le> maxRxBufferBytes b"
    and "txNumBytes b + n \<le> maxTxBufferBytes b" "rxNumBytes b + m \<le> maxRxBufferBytes b"
  shows "ft_buffer_ensure_can_append dx b i n m = Ok (True, b, i)"
proof -
  have "m \<le> maxRxBufferBytes b" using assms by (simp add: buf_inv_def)
  moreover have "c_int (txNumBytes b + n) = Ok (txNumBytes b + n)"
    "c_int (rxNumBytes b + m) = Ok (rxNumBytes b + m)"
    using assms by (auto simp: buf_inv_def intro!: c_int_in)
  ultimately show ?thesis using assms by (simp add: ft_buffer_ensure_can_append_def)
qed

text \<open>The driver after a command has been queued.\<close>

definition queued ::
  "'w d2xx \<Rightarrow> 'w ftdi \<Rightarrow> u8 list \<Rightarrow> rx_observer_node list \<Rightarrow> int \<Rightarrow> 'w ftdi \<Rightarrow> bool" where
  "queued dx d bytes os m d' \<longleftrightarrow> drv_inv dx d'
     \<and> (\<exists>b'. d' = d\<lparr>cmdBuffer := b'\<rparr> \<and> same_cfg (cmdBuffer d) b'
          \<and> pend_tx b' = pend_tx (cmdBuffer d) @ bytes \<and> rxObservers b' = rxObservers (cmdBuffer d) @ os
          \<and> rxNumBytes b' = rxNumBytes (cmdBuffer d) + m)"

lemma queue_write:
  assumes inv: "drv_inv dx d" and n: "0 \<le> n" "nat n \<le> length data" "n \<le> maxRxBufferBytes (cmdBuffer d)"
    and fits: "txNumBytes (cmdBuffer d) + n \<le> maxTxBufferBytes (cmdBuffer d)"
    and room: "strict \<Longrightarrow> roomy k (cmdBuffer d)"
  shows "c_out strict (on_buffer (\<lambda>b i. ft_buffer_add_write_to_chip dx b i data n) d) (\<lambda>(ok, d').
    ok \<and> queued dx d (take (nat n) data) [] 0 d' \<and> (strict \<longrightarrow> roomy k (cmdBuffer d')))"
proof -
  let ?b = "cmdBuffer d" and ?i = "fd_io d"
  have bi: "buf_inv (bit_extras ?i) (mem_size (mem ?i)) ?b" "d2xx_ok dx"
    using inv by (simp_all add: drv_inv_def)
  have "n \<le> 65536" using bi n by (simp add: buf_inv_def)
  then have w: "c_out strict (ft_buffer_add_write_to_chip_with_readback dx ?b ?i data n None 0)
    (\<lambda>(ok, b', i'). buf_inv (bit_extras ?i) (mem_size (mem ?i)) b' \<and> same_cfg ?b b' \<and> io_same ?i i'
       \<and> (\<not> ok \<longrightarrow> ft_buffer_ensure_can_append dx ?b ?i n 0 = Ok (False, b', i'))
       \<and> (ok \<longrightarrow> (strict \<longrightarrow> roomy k b')
            \<and> (\<exists>b1. ft_buffer_ensure_can_append dx ?b ?i n 0 = Ok (True, b1, i')
                  \<and> appended b1 b' data n None 0)))"
    using bi n room by (intro add_write_out) (auto simp: buf_inv_def)
  have ens: "ft_buffer_ensure_can_append dx ?b ?i n 0 = Ok (True, ?b, ?i)"
    using bi n fits by (intro ensure_no_flush) (auto simp: buf_inv_def)
  show ?thesis
    unfolding on_buffer_def ft_buffer_add_write_to_chip_def
    by (rule c_out_bindI [OF w])
       (use inv in \<open>auto simp: ens appended_def queued_def new_node_def drv_inv_def same_cfg_def\<close>)
qed

lemma queue_read:
  assumes inv: "drv_inv dx d" and n: "0 \<le> n" "nat n \<le> length data" "n \<le> maxRxBufferBytes (cmdBuffer d)"
    and fits: "txNumBytes (cmdBuffer d) + n \<le> maxTxBufferBytes (cmdBuffer d)"
    and m: "0 < m" "rxNumBytes (cmdBuffer d) + m \<le> maxRxBufferBytes (cmdBuffer d)"
    and dst: "m \<le> int (drv_sizes d r)" and room: "strict \<Longrightarrow> roomy (Suc k) (cmdBuffer d)"
  shows "c_out strict (on_buffer (\<lambda>b i.
      ft_buffer_add_write_to_chip_with_readback_simple dx b i data n r 0 m) d) (\<lambda>(ok, d').
    ok \<and> queued dx d (take (nat n) data)
      [\<lparr>ob_fn = Byte_copier r 0 m, ob_data = rxNumBytes (cmdBuffer d)\<rparr>] m d')"
proof -
  let ?b = "cmdBuffer d" and ?i = "fd_io d"
  have bi: "buf_inv (bit_extras ?i) (mem_size (mem ?i)) ?b" "d2xx_ok dx"
    using inv by (simp_all add: drv_inv_def)
  have small: "n \<le> 65536" "m \<le> maxRxBufferBytes ?b" "m \<le> 65536" using bi n m by (auto simp: buf_inv_def)
  then have w: "c_out strict (ft_buffer_add_write_to_chip_with_readback_simple dx ?b ?i data n r 0 m)
    (\<lambda>(ok, b', i'). buf_inv (bit_extras ?i) (mem_size (mem ?i)) b' \<and> same_cfg ?b b' \<and> io_same ?i i'
       \<and> (\<not> ok \<longrightarrow> ft_buffer_ensure_can_append dx ?b ?i n m = Ok (False, b', i'))
       \<and> (ok \<longrightarrow> (strict \<longrightarrow> roomy k b')
            \<and> (\<exists>b1. ft_buffer_ensure_can_append dx ?b ?i n m = Ok (True, b1, i')
                  \<and> appended b1 b' data n (Some (Byte_copier r 0 m)) m)))"
    using bi n m room dst by (intro add_write_simple_out) (auto simp: drv_sizes_def)
  have ens: "ft_buffer_ensure_can_append dx ?b ?i n m = Ok (True, ?b, ?i)"
    using bi n m fits by (intro ensure_no_flush) auto
  show ?thesis
    unfolding on_buffer_def
    by (rule c_out_bindI [OF w])
       (use inv m in \<open>auto simp: ens appended_def queued_def new_node_def drv_inv_def same_cfg_def\<close>)
qed

subsection \<open>The synchronisation check\<close>

lemma bad_opcode:
  assumes "ch_acc c = []" "ch_out c = []"
  shows "chip_feed clk [0xab] c = c\<lparr>ch_out := [0xfa, 0xab]\<rparr>"
  using assms by (simp add: chip_byte_def command_complete_def chip_exec_def)

lemma drv_inv_set_mem:
  "drv_inv dx d \<Longrightarrow> rxObservers (cmdBuffer d) = [] \<Longrightarrow> drv_inv dx (set_mem r v d)"
  by (simp add: drv_inv_def set_mem_def buf_inv_def split: option.splits)

lemma set_mem_fields [simp]:
  "cmdBuffer (set_mem r v d) = cmdBuffer d" "fd_pool (set_mem r v d) = fd_pool d"
  "lastTdi (set_mem r v d) = lastTdi d" "chipBufferBytes (set_mem r v d) = chipBufferBytes d"
  "highSpeedCapable (set_mem r v d) = highSpeedCapable d" "ftHandle (set_mem r v d) = ftHandle d"
  "mem (fd_io (set_mem r v d)) = (mem (fd_io d))(r := v)"
  "world (fd_io (set_mem r v d)) = world (fd_io d)"
  "bit_extras (fd_io (set_mem r v d)) = bit_extras (fd_io d)"
  by (simp_all add: set_mem_def)

text \<open>On the reference chip the check succeeds, after the commands queued before it.\<close>

lemma check_chip:
  fixes d :: "'d chip ftdi"
  assumes inv: "drv_inv dx d" and chip: "chip_d2xx clk dx"
    and obs: "rxObservers (cmdBuffer d) = []" "rxNumBytes (cmdBuffer d) = 0" "txNumBytes (cmdBuffer d) \<le> 4"
    and c: "c = chip_feed clk (pend_tx (cmdBuffer d)) (world (fd_io d))" "ch_acc c = []" "ch_out c = []"
    and room: "strict \<Longrightarrow> roomy 1 (cmdBuffer d)"
  shows "c_out strict (check_device_in_sync dx d) (\<lambda>(ok, d'). ok \<and> drv_inv dx d' \<and> quiet d'
    \<and> world (fd_io d') = c \<and> mem (fd_io d') = (mem (fd_io d))(resp_ref := None)
    \<and> fd_pool d' = fd_pool d \<and> lastTdi d' = lastTdi d \<and> chipBufferBytes d' = chipBufferBytes d
    \<and> same_cfg (cmdBuffer d) (cmdBuffer d')
    \<and> pool_head (fb_pool (cmdBuffer d')) = pool_start (fb_pool (cmdBuffer d)))"
    (is "c_out _ _ ?P")
  unfolding check_device_in_sync_def
proof (rule c_out_bindI)
  let ?d1 = "set_mem resp_ref (Some [0, 0]) d"
  let ?o = "\<lparr>ob_fn = Byte_copier resp_ref 0 2, ob_data = 0\<rparr>"
  have bi: "buf_inv (bit_extras (fd_io d)) (mem_size (mem (fd_io d))) (cmdBuffer d)"
    using inv by (simp add: drv_inv_def)
  have "drv_sizes ?d1 resp_ref = 2" by (simp add: drv_sizes_def mem_size_def)
  then show "c_out strict (on_buffer (\<lambda>b i.
         ft_buffer_add_write_to_chip_with_readback_simple dx b i [0xab] 1 resp_ref 0 2) ?d1)
     (\<lambda>(ok, d'). ok \<and> queued dx ?d1 (take (nat 1) [0xab])
        [\<lparr>ob_fn = Byte_copier resp_ref 0 2, ob_data = rxNumBytes (cmdBuffer ?d1)\<rparr>] 2 d')"
    using inv obs bi room drv_inv_set_mem
    by (intro queue_read [where k = 0]) (auto simp: buf_inv_def)
  fix x :: "bool \<times> 'd chip ftdi"
  obtain ok d2 where x: "x = (ok, d2)" by (cases x)
  assume "case x of (ok, d') \<Rightarrow> ok \<and> queued dx ?d1 (take (nat 1) [0xab])
        [\<lparr>ob_fn = Byte_copier resp_ref 0 2, ob_data = rxNumBytes (cmdBuffer ?d1)\<rparr>] 2 d'"
  then obtain b2 where ok: "ok" and 2: "drv_inv dx d2" "d2 = ?d1\<lparr>cmdBuffer := b2\<rparr>"
      "same_cfg (cmdBuffer d) b2" "pend_tx b2 = pend_tx (cmdBuffer d) @ [0xab]"
      "rxObservers b2 = [?o]" "rxNumBytes b2 = 2"
    using obs by (auto simp: x queued_def)
  have feed: "chip_feed clk (pend_tx b2) (world (fd_io d)) = c\<lparr>ch_out := [0xfa, 0xab]\<rparr>"
    using 2(4) bad_opcode [OF c(2,3), of clk] c(1) by simp
  have bits: "write_bits [0, 0] 0 (vbits [0xfa, 0xab] 0 16) = [0xfa, 0xab :: u8]" by code_simp
  have view: "linked_view clk b2 (fd_io d2) = (c, (mem (fd_io d))(resp_ref \<mapsto> [0xfa, 0xab]))"
    using c(3) 2(5) bits
    by (simp add: 2(2) linked_view_def feed Let_def deliver_def node_bits_def put_bits_single)
  have "linked clk b2 (fd_io d2)" using 2(6) by (simp add: 2(2) linked_def feed)
  moreover have bi2: "buf_inv (bit_extras (fd_io d2)) (mem_size (mem (fd_io d2))) b2" "d2xx_ok dx"
    using 2(1,2) by (simp_all add: drv_inv_def)
  ultimately obtain b3 i3 where fl: "ft_buffer_flush dx b2 (fd_io d2) = Ok (True, b3, i3)"
    "world i3 = c" "mem i3 = (mem (fd_io d))(resp_ref \<mapsto> [0xfa, 0xab])"
    "bit_extras i3 = bit_extras (fd_io d2)" "txBuffer b3 = None" "rxBuffer b3 = None" "rxObservers b3 = []"
    using flush_chip [OF bi2(1) chip] view by auto
  let ?d3 = "d2\<lparr>cmdBuffer := b3, fd_io := i3\<rparr>"
  from flush_out [OF bi2, of False] fl have 3:
    "buf_inv (bit_extras (fd_io d2)) (mem_size (mem (fd_io d2))) b3" "same_cfg b2 b3"
    "io_same (fd_io d2) i3" "pool_head (fb_pool b3) = pool_start (fb_pool b2)"
    by auto
  have flush: "on_buffer (ft_buffer_flush dx) d2 = Ok (True, ?d3)"
    using fl(1) 2(2) by (simp add: on_buffer_def)
  have inv3: "drv_inv dx ?d3"
    using 2(1,2) 3 by (simp add: drv_inv_def io_same_def same_cfg_def)
  have "drv_inv dx (set_mem resp_ref None ?d3)" using drv_inv_set_mem [OF inv3] fl(7) by simp
  moreover have "quiet (set_mem resp_ref None ?d3)"
    using fl c by (simp add: quiet_def flushed_def)
  moreover have "same_cfg (cmdBuffer d) b3" using 2(3) 3(2) by (rule same_cfg_trans)
  moreover have "pool_head (fb_pool b3) = pool_start (fb_pool (cmdBuffer d))"
    using 3(4) 2(3) by (simp add: same_cfg_def same_arena_def)
  ultimately show "c_out strict (case x of (ok, d') \<Rightarrow>
       if \<not> ok then Ok (False, set_mem resp_ref None d')
       else c_bind (on_buffer (ft_buffer_flush dx) d') (\<lambda>(ok, d'').
         if \<not> ok then Ok (False, set_mem resp_ref None d'')
         else case mem (fd_io d'') resp_ref of
                None \<Rightarrow> Fault DeadObject
              | Some resp \<Rightarrow>
                  c_bind (rd_at resp 0) (\<lambda>r0. c_bind (rd_at resp 1) (\<lambda>r1.
                    Ok (r0 = OP_BAD_COMMANDS \<and> r1 = 0xab, set_mem resp_ref None d''))))) ?P"
    using ok 2(2) fl(2,3) by (simp add: x flush [unfolded 2(2)] rd_at_def OP_BAD_COMMANDS_def)
qed


subsection \<open>The divisor\<close>

lemma tck_divider_value:
  assumes "0 < f" "0 < t" "f * t < 2 ^ 31"
  shows "tck_divider f t = Ok (min 0xffff ((f * t - 1) div 1000))"
proof -
  define p where "p = f * t"
  have p: "0 < p" "p < 2 ^ 31" using assms by (simp_all add: p_def)
  have "p div 1000 - (if p mod 1000 = 0 then 1 else 0) = (p - 1) div 1000"
  proof -
    obtain q r where qr: "p = 1000 * q + r" "0 \<le> r" "r < 1000"
      using mult_div_mod_eq [of 1000 p, symmetric] by fastforce
    then have "p div 1000 = q" "p mod 1000 = r" by auto
    moreover have "(p - 1) div 1000 = (if r = 0 then q - 1 else q)"
    proof (cases "r = 0")
      case True
      then have "p - 1 = 1000 * (q - 1) + 999" using qr by simp
      then show ?thesis using True by simp
    next
      case False
      then have "p - 1 = 1000 * q + (r - 1)" "0 \<le> r - 1" "r - 1 < 1000" using qr by simp_all
      then show ?thesis using False by simp
    qed
    ultimately show ?thesis by simp
  qed
  moreover have "0 \<le> (p - 1) div 1000" "(p - 1) div 1000 < 2 ^ 31"
    using p zdiv_mono2 [of "p - 1" 1 1000] by (simp_all add: pos_imp_zdiv_nonneg_iff)
  ultimately show ?thesis
    using p by (simp add: tck_divider_def c_int_in sdiv_nonneg smod_nonneg flip: p_def)
qed

lemma actual_period_value:
  assumes "0 \<le> n" "n \<le> 0xffff" "0 < f"
  shows "actual_period f n = Ok ((1 + n) * 1000 div f)"
proof -
  have "c_int (1 + n) = Ok (1 + n)" "c_int ((1 + n) * 1000) = Ok ((1 + n) * 1000)"
    using assms by (auto intro!: c_int_in)
  then show ?thesis using assms by (simp add: actual_period_def sdiv_nonneg)
qed

lemma tck_bytes:
  assumes "0 \<le> n" "n \<le> 0xffff"
  shows "uint (word_of_int n :: u8) + 256 * uint (word_of_int (n div 256) :: u8) = n"
  using assms by (simp add: uint_word_of_int take_bit_eq_mod)

lemma feed_tck:
  assumes "ch_acc c = []"
  shows "chip_feed clk [OP_SET_TCK_DIVISOR, a, b, OP_DISABLE_CLK_DIVIDE_BY_5] c
    = c\<lparr>ch_divisor := uint a + 256 * uint b, ch_fast := True\<rparr>"
proof -
  have "chip_feed clk [0x86, a, b] c = c\<lparr>ch_divisor := uint a + 256 * uint b\<rparr>"
    using assms by (subst chip_feed_command3) (simp_all add: chip_exec_def)
  moreover have "chip_byte clk 0x8a c' = c'\<lparr>ch_fast := True\<rparr>" if "ch_acc c' = []" for c' :: "'a chip"
    using that by (cases c') (simp add: chip_byte_def command_complete_def chip_exec_def)
  ultimately show ?thesis
    using assms chip_feed_simps(3) [of clk "[0x86, a, b]" "[0x8a]" c]
    by (simp add: OP_SET_TCK_DIVISOR_def OP_DISABLE_CLK_DIVIDE_BY_5_def del: chip_feed_simps(3))
qed

subsection \<open>Setting the period\<close>

lemma ready_fields:
  assumes "ready k clk dx sp d"
  shows "drv_inv dx d" "quiet d" "chip_d2xx clk dx" "drv_room k d" "drv_cap k d"
    "rxObservers (cmdBuffer d) = []" "rxNumBytes (cmdBuffer d) = 0" "txNumBytes (cmdBuffer d) = 0"
    "pend_tx (cmdBuffer d) = []"
proof -
  show r: "drv_inv dx d" "quiet d" "chip_d2xx clk dx" "drv_room k d" "drv_cap k d"
    using assms by (simp_all add: ready_def)
  then have "txBuffer (cmdBuffer d) = None" "rxBuffer (cmdBuffer d) = None"
    "buf_inv (bit_extras (fd_io d)) (mem_size (mem (fd_io d))) (cmdBuffer d)"
    by (simp_all add: quiet_def flushed_def drv_inv_def)
  then show "rxObservers (cmdBuffer d) = []" "rxNumBytes (cmdBuffer d) = 0"
    "txNumBytes (cmdBuffer d) = 0" "pend_tx (cmdBuffer d) = []"
    by (simp_all add: buf_inv_def pend_tx_def)
qed

lemma ready_set_mem: "ready k clk dx sp d \<Longrightarrow> ready k clk dx sp (set_mem r v d)"
  using ready_fields(6) [of k clk dx sp d]
  by (simp add: ready_def drv_inv_set_mem quiet_def flushed_def drv_cap_def drv_room_def)

lemma set_tck_main:
  fixes d :: "'d chip ftdi"
  assumes r: "ready k clk dx sp d" and k: "1 \<le> k" and hs: "highSpeedCapable d"
    and b4: "4 \<le> chipBufferBytes d" and t: "0 < t" "30 * t < 2 ^ 31"
    and n: "n = min 0xffff ((30 * t - 1) div 1000)"
  shows "\<exists>d'. set_tck_period dx t d = Ok ((1 + n) * 1000 div 30, d') \<and> ready k clk dx sp d'
    \<and> world (fd_io d') = (world (fd_io d))\<lparr>ch_divisor := n, ch_fast := True\<rparr>
    \<and> mem (fd_io d') = (mem (fd_io d))(resp_ref := None) \<and> lastTdi d' = lastTdi d"
proof -
  note rf = ready_fields [OF r]
  have n0: "0 \<le> n" "n \<le> 0xffff" using t(1) by (simp_all add: n pos_imp_zdiv_nonneg_iff)
  have f: "maxFreqMHz d = 30" using hs by (simp add: maxFreqMHz_def)
  have div: "tck_divider (maxFreqMHz d) t = Ok n"
    unfolding f using t by (simp add: tck_divider_value n)
  have per: "actual_period (maxFreqMHz d) n = Ok ((1 + n) * 1000 div 30)"
    unfolding f using n0 by (simp add: actual_period_value)
  let ?cmd = "[OP_SET_TCK_DIVISOR, word_of_int n, word_of_int (n div 256), OP_DISABLE_CLK_DIVIDE_BY_5]"
  let ?c = "(world (fd_io d))\<lparr>ch_divisor := n, ch_fast := True\<rparr>"
  have rx: "4 \<le> maxRxBufferBytes (cmdBuffer d)" "4 \<le> maxTxBufferBytes (cmdBuffer d)"
    using b4 rf(1) by (simp_all add: drv_inv_def buf_inv_def)
  have rm: "roomy k (cmdBuffer d)" using rf(4) by (simp add: drv_room_def)
  have idle: "ch_acc (world (fd_io d)) = []" "ch_out (world (fd_io d)) = []"
    using rf(2) by (simp_all add: quiet_def)
  have "c_out True (on_buffer (\<lambda>b i. ft_buffer_add_write_to_chip dx b i ?cmd 4) d) (\<lambda>(ok, d').
      ok \<and> queued dx d (take (nat 4) ?cmd) [] 0 d' \<and> (True \<longrightarrow> roomy k (cmdBuffer d')))"
    using rf rx rm by (intro queue_write) auto
  then obtain d1 b1 where 1: "on_buffer (\<lambda>b i. ft_buffer_add_write_to_chip dx b i ?cmd 4) d = Ok (True, d1)"
    "drv_inv dx d1" "d1 = d\<lparr>cmdBuffer := b1\<rparr>" "same_cfg (cmdBuffer d) b1" "pend_tx b1 = ?cmd"
    "rxObservers b1 = []" "rxNumBytes b1 = 0" "roomy k b1"
    using rf(6,7,9) by (auto simp: c_out_True queued_def)
  have feed: "?c = chip_feed clk (pend_tx (cmdBuffer d1)) (world (fd_io d1))"
    using feed_tck [OF idle(1), of clk "word_of_int n" "word_of_int (n div 256)"] tck_bytes [OF n0]
    by (simp add: 1(3,5))
  have tx: "txNumBytes (cmdBuffer d1) \<le> 4"
    using length_pend_tx [of "bit_extras (fd_io d1)" "mem_size (mem (fd_io d1))" "cmdBuffer d1"] 1
    by (simp add: drv_inv_def)
  have obs1: "rxObservers (cmdBuffer d1) = []" "rxNumBytes (cmdBuffer d1) = 0" using 1 by simp_all
  have rm1: "roomy 1 (cmdBuffer d1)" using 1(3,8) k by (auto elim: roomy_mono)
  have "c_out True (check_device_in_sync dx d1) (\<lambda>(ok, d'). ok \<and> drv_inv dx d' \<and> quiet d'
    \<and> world (fd_io d') = ?c \<and> mem (fd_io d') = (mem (fd_io d1))(resp_ref := None)
    \<and> fd_pool d' = fd_pool d1 \<and> lastTdi d' = lastTdi d1 \<and> chipBufferBytes d' = chipBufferBytes d1
    \<and> same_cfg (cmdBuffer d1) (cmdBuffer d')
    \<and> pool_head (fb_pool (cmdBuffer d')) = pool_start (fb_pool (cmdBuffer d1)))"
    by (rule check_chip [OF 1(2) rf(3) obs1 tx feed _ _ rm1]) (simp_all add: idle)
  then obtain d2 where 2: "check_device_in_sync dx d1 = Ok (True, d2)" "drv_inv dx d2" "quiet d2"
    "world (fd_io d2) = ?c" "mem (fd_io d2) = (mem (fd_io d))(resp_ref := None)"
    "fd_pool d2 = fd_pool d" "lastTdi d2 = lastTdi d" "same_cfg b1 (cmdBuffer d2)"
    "pool_head (fb_pool (cmdBuffer d2)) = pool_start (fb_pool b1)"
    using 1(3) by (auto simp: c_out_True)
  have cap: "drv_cap k d2"
    using rf(5) 1(4) 2(6,8) by (simp add: drv_cap_def same_cfg_def same_arena_def fb_end_def)
  have "roomy k (cmdBuffer d2)"
    using roomy_flushed [OF rm same_cfg_trans [OF 1(4) 2(8)]] 2(3,9) 1(4)
    by (simp add: quiet_def flushed_def same_cfg_def same_arena_def)
  then have "drv_room k d2" using rf(4) 2(6) by (simp add: drv_room_def)
  then have "ready k clk dx sp d2"
    using r 2(2,3,4) cap by (simp add: ready_def)
  moreover have "set_tck_period dx t d = Ok ((1 + n) * 1000 div 30, d2)"
    using hs 1(1) 2(1) by (simp add: set_tck_period_def div per)
  ultimately show ?thesis using 2(4,5,7) by blast
qed

lemma on_buffer_frame:
  "on_buffer f d = Ok (r, d') \<Longrightarrow>
   chipBufferBytes d' = chipBufferBytes d \<and> highSpeedCapable d' = highSpeedCapable d"
  by (auto simp: on_buffer_def)

lemma check_frame:
  "check_device_in_sync dx d = Ok (ok, d') \<Longrightarrow>
   chipBufferBytes d' = chipBufferBytes d \<and> highSpeedCapable d' = highSpeedCapable d"
  by (auto simp: check_device_in_sync_def dest!: on_buffer_frame split: if_splits option.splits)

lemma set_tck_frame:
  assumes "set_tck_period dx t d = Ok (r, d')"
  shows "chipBufferBytes d' = chipBufferBytes d" "highSpeedCapable d' = highSpeedCapable d"
  using assms by (auto simp: set_tck_period_def Let_def dest!: on_buffer_frame check_frame split: if_splits)

text \<open>C23. On the reference chip a period within the range of \<open>int\<close> arithmetic is set to the nearest
  one the 60 MHz divider can generate that is not shorter than asked for, or to the longest there
  is: the chip's divisor is the least \<open>n\<close> with \<open>1000 (n + 1) >= 30 t\<close>, capped at 65535, its clock
  is no longer divided by five, the period returned is \<open>1000 (n + 1) / 30\<close> ns, and the target is
  not clocked.\<close>
theorem set_tck_period_nearest:
  fixes d :: "'d chip ftdi"
  assumes "ready k clk dx sp d" "1 \<le> k" "highSpeedCapable d" "4 \<le> chipBufferBytes d"
    and "0 < t" "30 * t < 2 ^ 31"
  shows "\<exists>n d'. set_tck_period dx t d = Ok ((1 + n) * 1000 div 30, d') \<and> ready k clk dx sp d'
    \<and> world (fd_io d') = (world (fd_io d))\<lparr>ch_divisor := n, ch_fast := True\<rparr>
    \<and> 0 \<le> n \<and> n \<le> 65535 \<and> (n < 65535 \<longrightarrow> 30 * t \<le> 1000 * (n + 1)) \<and> 1000 * n < 30 * t"
proof -
  define q where "q = (30 * t - 1) div 1000"
  have q: "1000 * q \<le> 30 * t - 1" "30 * t - 1 < 1000 * q + 1000" "0 \<le> q"
    using assms(5) by (simp_all add: q_def pos_imp_zdiv_nonneg_iff)
  obtain d' where "set_tck_period dx t d = Ok ((1 + min 0xffff q) * 1000 div 30, d')"
    "ready k clk dx sp d'"
    "world (fd_io d') = (world (fd_io d))\<lparr>ch_divisor := min 0xffff q, ch_fast := True\<rparr>"
    using set_tck_main [OF assms refl] by (auto simp: q_def)
  moreover have "0 \<le> min 0xffff q" "min 0xffff q \<le> 65535" "1000 * min 0xffff q < 30 * t"
    "min 0xffff q < 65535 \<longrightarrow> 30 * t \<le> 1000 * (min 0xffff q + 1)"
    using q by auto
  ultimately show ?thesis by blast
qed

lemma ref_ready:
  assumes "sp_cb sp = Some (jtag_splitter_callback (ref_d2xx clk))" "\<not> is_shift (sp_state sp)"
  shows "ready 1792 clk (ref_d2xx clk) sp (ref_driver m (idle_chip s))"
  using assms
  by (simp add: ready_def ref_d2xx_chip ref_driver_inv ref_d2xx_ok quiet_def ref_driver_fields
      idle_chip_fields)

theorem set_tck_period_nearest_witness:
  "\<exists>n d'. set_tck_period (ref_d2xx bypass) 100 (ref_driver Map.empty (idle_chip True))
      = Ok ((1 + n) * 1000 div 30, d') \<and> n = 2 \<and> ch_divisor (world (fd_io d')) = 2"
proof -
  let ?sp = "\<lparr>sp_state = RUN_TEST_IDLE, sp_cb = Some (jtag_splitter_callback (ref_d2xx bypass))\<rparr>"
  let ?d = "ref_driver Map.empty (idle_chip True)"
  have "ready 1792 bypass (ref_d2xx bypass) ?sp ?d"
    by (rule ref_ready) (simp_all add: is_shift_def)
  moreover have "highSpeedCapable ?d" "4 \<le> chipBufferBytes ?d" by (simp_all add: ref_driver_def)
  ultimately have "\<exists>n d'. set_tck_period (ref_d2xx bypass) 100 ?d = Ok ((1 + n) * 1000 div 30, d')
    \<and> ready 1792 bypass (ref_d2xx bypass) ?sp d'
    \<and> world (fd_io d') = (world (fd_io ?d))\<lparr>ch_divisor := n, ch_fast := True\<rparr>
    \<and> 0 \<le> n \<and> n \<le> 65535 \<and> (n < 65535 \<longrightarrow> 30 * 100 \<le> 1000 * (n + 1)) \<and> 1000 * n < 30 * 100"
    by (intro set_tck_period_nearest) simp_all
  then obtain n d' where "set_tck_period (ref_d2xx bypass) 100 ?d = Ok ((1 + n) * 1000 div 30, d')"
    "ch_divisor (world (fd_io d')) = n" "n \<le> 65535" "n < 65535 \<longrightarrow> 30 * 100 \<le> 1000 * (n + 1)"
    "1000 * n < 30 * 100" by force
  moreover from this have "n = 2" by simp
  ultimately show ?thesis by blast
qed

text \<open>C24. Two periods the client can ask for break the driver: zero makes the divider \<open>- 1\<close>, which
  runs into the trap for what should be unreachable, and on a high speed chip from 71582789 ns on
  the product with the frequency overflows.\<close>
theorem set_tck_period_breaks:
  "set_tck_period dx 0 d = Fault Unreachable
   \<and> set_tck_period dx (71582789 + int k) (d\<lparr>highSpeedCapable := True\<rparr>) = Fault SignedOverflow"
  by (simp add: set_tck_period_def tck_divider_def c_int_def maxFreqMHz_def sdiv_nonneg smod_nonneg)

subsection \<open>A chip that does not answer\<close>

text \<open>C25. If the chip's answer to the synchronisation check cannot be read, the function returns
  while the observer of its local buffer is still queued: the next flush that succeeds in reading
  writes through the dangling pointer.\<close>
theorem failed_check_dangles:
  assumes inv: "drv_inv dx d" "flushed d" "roomy 1 (cmdBuffer d)"
    and w: "FT_Write dx (ftChip (cmdBuffer d)) [0xab] (world (fd_io d)) = (FT_OK, 1, w1)"
    and r: "FT_Read dx (ftChip (cmdBuffer d)) 2 w1 = (st, bytes, n, w2)" "st \<noteq> FT_OK"
    and later: "FT_Read dx (ftChip (cmdBuffer d)) 2 w3 = (FT_OK, [a, b], 2, w4)"
  shows "\<exists>d'. check_device_in_sync dx d = Ok (False, d')
    \<and> jtag_splitter_callback dx Flush_all (set_world w3 d') = Fault DeadObject"
proof -
  let ?d1 = "set_mem resp_ref (Some [0, 0]) d" and ?h = "ftChip (cmdBuffer d)"
  let ?o = "\<lparr>ob_fn = Byte_copier resp_ref 0 2, ob_data = 0\<rparr>"
  have bi: "buf_inv (bit_extras (fd_io d)) (mem_size (mem (fd_io d))) (cmdBuffer d)" "d2xx_ok dx"
    using inv by (simp_all add: drv_inv_def)
  have none: "txBuffer (cmdBuffer d) = None" "rxBuffer (cmdBuffer d) = None"
    using inv(2) by (simp_all add: flushed_def)
  have empt: "rxObservers (cmdBuffer d) = []" "rxNumBytes (cmdBuffer d) = 0"
    "txNumBytes (cmdBuffer d) = 0" "pend_tx (cmdBuffer d) = []"
    using bi none by (simp_all add: buf_inv_def pend_tx_def)
  have "drv_sizes ?d1 resp_ref = 2" by (simp add: drv_sizes_def mem_size_def)
  then have "c_out True (on_buffer (\<lambda>b i.
         ft_buffer_add_write_to_chip_with_readback_simple dx b i [0xab] 1 resp_ref 0 2) ?d1)
     (\<lambda>(ok, d'). ok \<and> queued dx ?d1 (take (nat 1) [0xab])
        [\<lparr>ob_fn = Byte_copier resp_ref 0 2, ob_data = rxNumBytes (cmdBuffer ?d1)\<rparr>] 2 d')"
    using inv bi drv_inv_set_mem [OF inv(1) empt(1)] empt
    by (intro queue_read [where k = 0]) (auto simp: buf_inv_def)
  then obtain b2 where add: "on_buffer (\<lambda>b i.
         ft_buffer_add_write_to_chip_with_readback_simple dx b i [0xab] 1 resp_ref 0 2) ?d1
       = Ok (True, ?d1\<lparr>cmdBuffer := b2\<rparr>)"
    and 2: "drv_inv dx (?d1\<lparr>cmdBuffer := b2\<rparr>)" "same_cfg (cmdBuffer d) b2" "pend_tx b2 = [0xab]"
      "rxObservers b2 = [?o]" "rxNumBytes b2 = 2"
    using empt by (auto simp: c_out_True queued_def)
  have h: "ftChip b2 = ?h" using 2(2) by (simp add: same_cfg_def)
  have bi2: "buf_inv (bit_extras (fd_io d)) (mem_size ((mem (fd_io d))(resp_ref \<mapsto> [0, 0]))) b2"
    using 2(1) by (simp add: drv_inv_def)
  obtain tx where tx: "txBuffer b2 = Some tx" "take (nat (txNumBytes b2)) tx = [0xab]"
    using 2(3) by (auto simp: pend_tx_def split: option.splits)
  obtain rx where rx: "rxBuffer b2 = Some rx" "2 \<le> length rx"
    using bi2 2(4,5) by (auto simp: buf_inv_def split: option.splits)
  have n1: "txNumBytes b2 = 1" using length_pend_tx [OF bi2] 2(3) by simp
  have "c_slice tx 0 (txNumBytes b2) = Ok [0xab]"
    using bi2 tx n1 by (simp add: buf_inv_def c_slice_def)
  then have ftx: "flush_tx dx b2 i = Ok (True, b2\<lparr>txBuffer := None, txNumBytes := 0\<rparr>, i\<lparr>world := w1\<rparr>)"
    if "world i = world (fd_io d)" for i
    using that tx n1 w h by (simp add: flush_tx_def)
  have "length (fst (snd (FT_Read dx ?h 2 w1))) \<le> unat (2 :: u32)"
    using bi(2) unfolding d2xx_ok_def by blast
  then have bytes: "length bytes \<le> 2" using r(1) by simp
  then have "blit rx 0 bytes = Ok (overlay rx 0 bytes)"
    using blit_ok [of 0 bytes rx] rx(2) by simp
  then have frx: "flush_rx dx (b2\<lparr>txBuffer := None, txNumBytes := 0\<rparr>) (i\<lparr>world := w1\<rparr>)
      = Ok (False, b2\<lparr>txBuffer := None, txNumBytes := 0, rxBuffer := Some (overlay rx 0 bytes)\<rparr>,
          i\<lparr>world := w2\<rparr>)" for i
    using rx r 2(5) h by (simp add: flush_rx_def)
  let ?b3 = "b2\<lparr>txBuffer := None, txNumBytes := 0, rxBuffer := Some (overlay rx 0 bytes)\<rparr>"
  let ?d3 = "set_mem resp_ref None (?d1\<lparr>cmdBuffer := ?b3, fd_io := (fd_io ?d1)\<lparr>world := w2\<rparr>\<rparr>)"
  have "check_device_in_sync dx d = Ok (False, ?d3)"
    unfolding check_device_in_sync_def add c_bind.simps
    using ftx [of "fd_io ?d1"] frx [of "fd_io ?d1"]
    by (simp add: on_buffer_def ft_buffer_flush_def)
  moreover have "jtag_splitter_callback dx Flush_all (set_world w3 ?d3) = Fault DeadObject"
  proof -
    let ?rx = "overlay rx 0 bytes"
    have "2 \<le> length ?rx" using rx(2) bytes by (simp add: overlay_def)
    then have "blit ?rx 0 [a, b] = Ok (overlay ?rx 0 [a, b])" using blit_ok [of 0 "[a, b]" ?rx] by simp
    then show ?thesis
      using later 2(4,5) h
      by (simp add: on_buffer_def ft_buffer_flush_def flush_tx_def flush_rx_def set_world_def
          byte_copier_rx_observer_fn_def Let_def)
  qed
  ultimately show ?thesis by blast
qed

text \<open>A library of which the first read fails; \<open>w\<close> counts the reads.\<close>

definition flaky_d2xx :: "nat d2xx" where
  "flaky_d2xx = \<lparr>
     FT_Write = (\<lambda>h bs w. (FT_OK, of_nat (length bs), w)),
     FT_Read = (\<lambda>h n w. if w = 0 then (FT_IO_ERROR, [], 0, 1)
       else (FT_OK, take (unat n) [0xfa, 0xab], of_nat (min (unat n) 2), w)),
     FT_GetLibraryVersion = (\<lambda>w. (FT_OK, 0, w)), FT_SetVIDPID = (\<lambda>vid pid w. (FT_OK, w)),
     FT_CreateDeviceInfoList = (\<lambda>w. (FT_OK, 0, w)), FT_GetDeviceInfoList = (\<lambda>w. (FT_OK, [], 0, w)),
     FT_Open = (\<lambda>i w. (FT_OK, 1, w)), FT_OpenEx = (\<lambda>s w. (FT_OK, 1, w)),
     FT_Purge = (\<lambda>h w. (FT_OK, w)), FT_SetChars = (\<lambda>h w. (FT_OK, w)),
     FT_SetFlowControl = (\<lambda>h w. (FT_OK, w)), FT_SetLatencyTimer = (\<lambda>h n w. (FT_OK, w)),
     FT_SetBitMode = (\<lambda>h mask mode w. (FT_OK, w)), FT_Close = (\<lambda>h w. (FT_OK, w))\<rparr>"

theorem failed_check_dangles_witness:
  "\<exists>d'. check_device_in_sync flaky_d2xx (ref_driver Map.empty 0) = Ok (False, d')
    \<and> jtag_splitter_callback flaky_d2xx Flush_all (set_world 1 d') = Fault DeadObject"
proof (rule failed_check_dangles)
  have "d2xx_ok flaky_d2xx" by (auto simp: d2xx_ok_def flaky_d2xx_def)
  then show "drv_inv flaky_d2xx (ref_driver Map.empty 0)" by (rule ref_driver_inv)
  show "roomy 1 (cmdBuffer (ref_driver Map.empty (0 :: nat)))"
    using ref_driver_fields(5) [of Map.empty "0 :: nat"]
    by (auto simp: drv_room_def elim: roomy_mono)
qed (auto simp: flaky_d2xx_def ref_driver_fields)

end
