(* ===== verification/Ftdi_Activation.thy ===== *)
theory Ftdi_Activation
  imports Ftdi_Tck
begin

text \<open>
  Activation of the FTDI driver on the reference chip.
\<close>

text \<open>Resetting the TAP of the reference chip.\<close>

lemma vbits_reset: "vbits [0x1f] 0 5 = replicate 5 True"
  by code_simp

lemma reset_chip:
  fixes d :: "'d chip ftdi"
  assumes inv: "drv_inv dx d" and q: "quiet d" and chip: "chip_d2xx clk dx" and room: "drv_room k d"
    and cap: "drv_cap k d"
  shows "\<exists>d'. tapReset (jtag_splitter_callback dx) d = Ok (True, d') \<and> drv_inv dx d' \<and> quiet d' \<and> drv_same d d'
    \<and> drv_room k d' \<and> drv_cap k d' \<and> lastTdi d' = lastTdi d \<and> mem (fd_io d') = mem (fd_io d)
    \<and> ch_dev (world (fd_io d')) = snd (clocks clk (replicate 5 (True, lastTdi d)) (ch_dev (world (fd_io d))))
    \<and> ch_pins (world (fd_io d')) = ch_pins (world (fd_io d)) \<and> ch_mode (world (fd_io d')) = ch_mode (world (fd_io d))
    \<and> ch_open (world (fd_io d')) = ch_open (world (fd_io d))"
proof -
  let ?cb = "jtag_splitter_callback dx"
  have fl: "flushed d" and ch: "ch_acc (world (fd_io d)) = []" "ch_out (world (fd_io d)) = []"
    using q by (simp_all add: quiet_def)
  have view: "mpsse.dview clk d = (world (fd_io d), mem (fd_io d))" and l: "mpsse.dlinked clk dx d"
    using quiet_view(1,2) [OF inv fl, of clk] quiet_view(3) [OF inv fl] ch chip
    unfolding mpsse.dview_def mpsse.dlinked_def by simp_all
  have idle: "idle (mpsse.dview clk d)" using ch by (simp add: view idle_def)
  have "c_out True (append_tms_shift_to_transaction dx [0x1f] (int 0) (int 5) d) (\<lambda>(ok, d').
    drv_inv dx d' \<and> drv_same d d' \<and> lastTdi d' = lastTdi d \<and> (ok \<and> True \<longrightarrow> drv_room k d')
    \<and> (idle (mpsse.dview clk d) \<longrightarrow>
        mpsse.moves clk dx d ok d' (tms_view clk (lastTdi d) (vbits [0x1f] 0 5))))"
    by (rule mpsse.append_tms_out [OF inv _ _ room]) simp_all
  then obtain d1 where 1: "?cb (Shift_tms [0x1f] 0 5) d = Ok (True, d1)" "drv_inv dx d1" "drv_same d d1"
    "lastTdi d1 = lastTdi d" "mpsse.dlinked clk dx d1"
    "mpsse.dview clk d1 = tms_view clk (lastTdi d) (replicate 5 True) (mpsse.dview clk d)"
    using idle l unfolding vbits_reset by (auto simp: c_out_True mpsse.moves_def)
  obtain d2 where 2: "?cb Flush_all d1 = Ok (True, d2)" "drv_inv dx d2" "drv_same d1 d2"
    "drv_room k d2" "flushed d2" "mpsse.dlinked clk dx d2" "mpsse.dview clk d2 = mpsse.dview clk d1"
    "lastTdi d2 = lastTdi d1"
    using mpsse.flush_event_out [where strict = True and clk = clk, OF 1(2)] 1(5) drv_cap_same [OF 1(3), of k] cap
    by (auto simp: c_out_True simp del: jtag_splitter_callback.simps)
  have out: "ch_out (world (fd_io d2)) = []"
    using 2(6) quiet_view(2) [OF 2(2,5), of clk] by (simp add: mpsse.dlinked_def)
  then have v2: "(world (fd_io d2), mem (fd_io d2))
      = tms_view clk (lastTdi d) (replicate 5 True) (world (fd_io d), mem (fd_io d))"
    using 2(7) 1(6) quiet_view(1) [OF 2(2,5), of clk] view by (simp add: mpsse.dview_def)
  have w2: "world (fd_io d2) = fst (tms_view clk (lastTdi d) (replicate 5 True)
      (world (fd_io d), mem (fd_io d)))" "mem (fd_io d2) = mem (fd_io d)"
    using arg_cong [OF v2, of fst] arg_cong [OF v2, of snd] by simp_all
  have frame: "ch_pins (world (fd_io d2)) = ch_pins (world (fd_io d))" "ch_mode (world (fd_io d2)) = ch_mode (world (fd_io d))"
    "ch_open (world (fd_io d2)) = ch_open (world (fd_io d))"
    by (simp_all add: w2(1) tms_view_def)
  have "ch_acc (world (fd_io d2)) = []" using ch by (simp add: w2(1))
  moreover have "map (\<lambda>b. (b, lastTdi d)) (replicate 5 True) = replicate 5 (True, lastTdi d)" by simp
  then have "ch_dev (world (fd_io d2))
      = snd (clocks clk (replicate 5 (True, lastTdi d)) (ch_dev (world (fd_io d))))"
    unfolding w2(1) tms_view_def by (simp add: do_clocks_def split: prod.splits)
  moreover have "tapReset ?cb d = Ok (True, d2)"
    using 1(1) 2(1) by (simp add: tapReset_def del: jtag_splitter_callback.simps)
  moreover have "drv_cap k d2" using cap 1(3) 2(3) by (simp add: drv_cap_same)
  moreover have "drv_same d d2" using 1(3) 2(3) by (rule drv_same_trans)
  ultimately show ?thesis
    using 2 out 1(4) w2(2) frame by (simp add: quiet_def)
qed

text \<open>The pin setup adds a level for the pins that are driven high and a direction for all that are
  driven.\<close>

lemma setup_pins_bits:
  assumes "list_all (\<lambda>i. roles ! i \<noteq> PIN_ROLE_INVALID \<and> i < 8) is"
  shows "\<exists>lvl' dir'. setup_pins roles is (lvl, dir) = Ok (lvl', dir')
    \<and> (\<forall>j. bit lvl' j \<longleftrightarrow> bit lvl j \<or> (j \<in> set is \<and> roles ! j = PIN_ROLE_OTHER_DRIVER_HIGH))
    \<and> (\<forall>j. bit dir' j \<longleftrightarrow> bit dir j \<or> (j \<in> set is \<and> roles ! j \<noteq> PIN_ROLE_OTHER_IGNORED))"
  using assms
proof (induction "is" arbitrary: lvl dir)
  case (Cons i "is")
  have i: "bit (w OR push_bit i 1) j \<longleftrightarrow> bit w j \<or> j = i" for w :: u8 and j
    using Cons.prems by (auto simp: bit_simps)
  show ?case
    using Cons.prems Cons.IH [of "lvl OR push_bit i 1" "dir OR push_bit i 1"]
      Cons.IH [of lvl "dir OR push_bit i 1"] Cons.IH [of lvl dir]
    by (cases "roles ! i") (fastforce simp: i simp del: push_bit_of_1)+
qed simp

text \<open>The D bus as configured: TCK and TDI driven low, TMS driven high, TDO an input, and each of D4 to
  D7 driven high or low or an input, as its role says.\<close>

definition pins_as_configured :: "pin_role list \<Rightarrow> u8 \<times> u8 \<Rightarrow> bool" where
  "pins_as_configured roles = (\<lambda>(lvl, dir).
     bit dir 0 \<and> bit dir 1 \<and> \<not> bit dir 2 \<and> bit dir 3 \<and> \<not> bit lvl 0 \<and> \<not> bit lvl 1 \<and> bit lvl 3
     \<and> (\<forall>i \<in> {4, 5, 6, 7}. (bit dir i \<longleftrightarrow> roles ! i \<noteq> PIN_ROLE_OTHER_IGNORED)
         \<and> (bit dir i \<longrightarrow> (bit lvl i \<longleftrightarrow> roles ! i = PIN_ROLE_OTHER_DRIVER_HIGH))))"

lemma setup_pins_ok:
  assumes "list_all (\<lambda>i. roles ! i \<noteq> PIN_ROLE_INVALID) [4, 5, 6, 7]"
  shows "\<exists>lvl dir. setup_pins roles [4, 5, 6, 7] (0x08, 0x0b) = Ok (lvl, dir) \<and> bit lvl 3
    \<and> pins_as_configured roles (lvl, dir)"
proof -
  have bits: "bit (0x08 :: u8) j \<longleftrightarrow> j = 3" "bit (0x0b :: u8) j \<longleftrightarrow> j = 0 \<or> j = 1 \<or> j = 3" if "j < 8" for j
  proof -
    have "j = 0 \<or> j = 1 \<or> j = 2 \<or> j = 3 \<or> j = 4 \<or> j = 5 \<or> j = 6 \<or> j = 7" using that by auto
    then show "bit (0x08 :: u8) j \<longleftrightarrow> j = 3" "bit (0x0b :: u8) j \<longleftrightarrow> j = 0 \<or> j = 1 \<or> j = 3"
      by (elim disjE; simp add: bit_simps)+
  qed
  show ?thesis
    using setup_pins_bits [of roles "[4, 5, 6, 7]" "0x08" "0x0b"] assms
    by (auto simp: pins_as_configured_def bits)
qed

lemma fresh_arena:
  assumes "malloc sz = Some p" "unat p + unat sz < 2 ^ 63"
  shows "txvc_mempool_init malloc sz = Ok (ref_arena p sz)" "pool_ok (ref_arena p sz)"
    "unat (pool_end (ref_arena p sz)) = unat p + unat sz"
proof -
  have "unat (p + sz) = unat p + unat sz"
    using assms(2) by (subst unat_add_lem [THEN iffD1]) simp_all
  then show "unat (pool_end (ref_arena p sz)) = unat p + unat sz" "pool_ok (ref_arena p sz)"
    using assms(2) by (simp_all add: ref_arena_def pool_ok_def pool_wf_def word_le_nat_alt)
  show "txvc_mempool_init malloc sz = Ok (ref_arena p sz)"
    using assms(1) by (simp add: txvc_mempool_init_def ref_arena_def)
qed

lemma feed_lobyte:
  assumes "ch_acc c = []"
  shows "chip_feed clk [OP_SET_DBUS_LOBYTE, a, b] c = c\<lparr>ch_tms := bit a 3, ch_pins := (a, b)\<rparr>"
  unfolding OP_SET_DBUS_LOBYTE_def
  using assms by (subst chip_feed_command3) (simp_all add: chip_exec_def)

lemma setup_chip:
  fixes d :: "'d chip ftdi"
  assumes dx: "d2xx_ok dx" "chip_d2xx clk dx"
    and m: "malloc 65536 = Some p" "unat p + 65536 < 2 ^ 63"
      "malloc 131072 = Some q" "unat q + 131072 < 2 ^ 63"
    and b: "3 \<le> chipBufferBytes d" "chipBufferBytes d \<le> 4096"
    and pins: "list_all (\<lambda>i. d_pins (fd_params d) ! i \<noteq> PIN_ROLE_INVALID) [4, 5, 6, 7]"
    and w: "ch_acc (world (fd_io d)) = []" "ch_out (world (fd_io d)) = []"
  shows "\<exists>sp' d'. setup_device malloc dx sp d = Ok (True, sp', d') \<and> ready 1792 clk dx sp' d'
    \<and> sp_state sp' = TEST_LOGIC_RESET \<and> mem (fd_io d') = (mem (fd_io d))(resp_ref := None)
    \<and> ch_dev (world (fd_io d')) = snd (clocks clk (replicate 5 (True, False)) (ch_dev (world (fd_io d))))
    \<and> lastTdi d' = False \<and> chipBufferBytes d' = chipBufferBytes d \<and> highSpeedCapable d' = highSpeedCapable d
    \<and> same_arena (ref_arena p 65536) (fd_pool d')
    \<and> pins_as_configured (d_pins (fd_params d)) (ch_pins (world (fd_io d')))
    \<and> ch_mode (world (fd_io d')) = ch_mode (world (fd_io d)) \<and> ch_open (world (fd_io d')) = ch_open (world (fd_io d))"
proof -
  let ?p = "ref_arena p 65536" and ?q = "ref_arena q 131072" and ?n = "chipBufferBytes d"
  have arenas: "txvc_mempool_init malloc (64 * 1024) = Ok ?p" "pool_ok ?p"
    "unat (pool_end ?p) = unat p + 65536"
    "txvc_mempool_init malloc (128 * 1024) = Ok ?q" "pool_ok ?q" "unat (pool_end ?q) = unat q + 131072"
    using fresh_arena [of malloc 65536 p] fresh_arena [of malloc 131072 q] m by simp_all
  let ?b = "\<lparr>ftChip = ftHandle d, fb_pool = ?q, txBuffer = None, txNumBytes = 0,
           maxTxBufferBytes = 3 * ?n, rxBuffer = None, rxNumBytes = 0,
           maxRxBufferBytes = ?n, rxObservers = []\<rparr>"
  let ?d1 = "d\<lparr>fd_pool := ?p, cmdBuffer := ?b, lastTdi := False\<rparr>"
  have "c_int (3 * ?n) = Ok (3 * ?n)" using b by (intro c_int_in) auto
  then have init: "ft_buffer_init malloc (ftHandle d) ?n = Ok ?b"
    using arenas(4) by (simp add: ft_buffer_init_def)
  obtain lvl dir where pin: "setup_pins (d_pins (fd_params d)) [4, 5, 6, 7] (0x08, 0x0b) = Ok (lvl, dir)"
    "bit lvl 3" "pins_as_configured (d_pins (fd_params d)) (lvl, dir)"
    using setup_pins_ok [OF pins] by blast
  have inv1: "drv_inv dx ?d1"
    using dx(1) arenas b by (simp add: drv_inv_def buf_inv_def)
  have heads: "pool_head ?p = p" "pool_start ?p = p" "pool_head ?q = q" "pool_start ?q = q"
    by (simp_all add: ref_arena_def)
  have rm1: "roomy 1792 (cmdBuffer ?d1)" "drv_cap 1792 ?d1"
    using arenas b heads by (auto simp: roomy_def drv_cap_def fb_need_def fb_end_def nat_le_iff)
  let ?cmd = "[OP_SET_DBUS_LOBYTE, lvl, dir]"
  have "c_out True (on_buffer (\<lambda>b i. ft_buffer_add_write_to_chip dx b i ?cmd 3) ?d1) (\<lambda>(ok, d').
      ok \<and> queued dx ?d1 (take (nat 3) ?cmd) [] 0 d' \<and> (True \<longrightarrow> roomy 1792 (cmdBuffer d')))"
    using inv1 b rm1 by (intro queue_write) auto
  then obtain d2 b2 where 2: "on_buffer (\<lambda>b i. ft_buffer_add_write_to_chip dx b i ?cmd 3) ?d1 = Ok (True, d2)"
    "drv_inv dx d2" "d2 = ?d1\<lparr>cmdBuffer := b2\<rparr>" "same_cfg ?b b2" "pend_tx b2 = ?cmd"
    "rxObservers b2 = []" "rxNumBytes b2 = 0" "roomy 1792 b2"
    by (auto simp: c_out_True queued_def pend_tx_def)
  let ?c = "(world (fd_io d))\<lparr>ch_tms := bit lvl 3, ch_pins := (lvl, dir)\<rparr>"
  have feed: "?c = chip_feed clk (pend_tx (cmdBuffer d2)) (world (fd_io d2))"
    using feed_lobyte [OF w(1), of clk lvl dir] by (simp add: 2(3,5))
  have tx: "txNumBytes (cmdBuffer d2) \<le> 4"
    using length_pend_tx [of "bit_extras (fd_io d2)" "mem_size (mem (fd_io d2))" "cmdBuffer d2"] 2
    by (simp add: drv_inv_def)
  have obs2: "rxObservers (cmdBuffer d2) = []" "rxNumBytes (cmdBuffer d2) = 0" using 2 by simp_all
  have r2: "roomy 1 (cmdBuffer d2)" using 2(3,8) by (auto elim: roomy_mono)
  have "c_out True (check_device_in_sync dx d2) (\<lambda>(ok, d'). ok \<and> drv_inv dx d' \<and> quiet d'
    \<and> world (fd_io d') = ?c \<and> mem (fd_io d') = (mem (fd_io d2))(resp_ref := None)
    \<and> fd_pool d' = fd_pool d2 \<and> lastTdi d' = lastTdi d2 \<and> chipBufferBytes d' = chipBufferBytes d2
    \<and> same_cfg (cmdBuffer d2) (cmdBuffer d')
    \<and> pool_head (fb_pool (cmdBuffer d')) = pool_start (fb_pool (cmdBuffer d2)))"
    by (rule check_chip [OF 2(2) dx(2) obs2 tx feed _ _ r2]) (simp_all add: w)
  then obtain d3 where 3: "check_device_in_sync dx d2 = Ok (True, d3)" "drv_inv dx d3" "quiet d3"
    "world (fd_io d3) = ?c" "mem (fd_io d3) = (mem (fd_io d))(resp_ref := None)"
    "fd_pool d3 = ?p" "lastTdi d3 = False" "same_cfg b2 (cmdBuffer d3)"
    "pool_head (fb_pool (cmdBuffer d3)) = pool_start (fb_pool b2)"
    using 2(3) by (auto simp: c_out_True)
  have cap: "drv_cap 1792 d3"
    using rm1(2) 2(4) 3(6,8) by (simp add: drv_cap_def same_cfg_def same_arena_def fb_end_def)
  have "roomy 1792 (cmdBuffer d3)"
    using roomy_flushed [OF 2(8) 3(8)] 3(3,9) by (simp add: quiet_def flushed_def)
  then have room: "drv_room 1792 d3"
    using 3(6) arenas(3) heads by (simp add: drv_room_def)
  obtain d4 where 4: "tapReset (jtag_splitter_callback dx) d3 = Ok (True, d4)" "drv_inv dx d4" "quiet d4"
    "drv_room 1792 d4" "drv_cap 1792 d4" "mem (fd_io d4) = mem (fd_io d3)" "lastTdi d4 = lastTdi d3"
    "drv_same d3 d4"
    "ch_dev (world (fd_io d4)) = snd (clocks clk (replicate 5 (True, lastTdi d3)) (ch_dev (world (fd_io d3))))"
    "ch_pins (world (fd_io d4)) = ch_pins (world (fd_io d3))" "ch_mode (world (fd_io d4)) = ch_mode (world (fd_io d3))"
    "ch_open (world (fd_io d4)) = ch_open (world (fd_io d3))"
    using reset_chip [OF 3(2,3) dx(2) room cap] by blast
  let ?sp = "sp\<lparr>sp_state := TEST_LOGIC_RESET, sp_cb := Some (jtag_splitter_callback dx)\<rparr>"
  have "setup_device malloc dx sp d = Ok (True, ?sp, d4)"
    unfolding setup_device_def arenas(1) init pin(1) c_bind.simps prod.case Let_def 2(1)
    by (simp add: 3(1) txvc_jtag_splitter_init_def 4(1))
  moreover have "ready 1792 clk dx ?sp d4"
    using dx 4 by (simp add: ready_def is_shift_def)
  moreover have "chipBufferBytes d4 = chipBufferBytes d" "highSpeedCapable d4 = highSpeedCapable d"
    "same_arena ?p (fd_pool d4)"
    using 4(8) check_frame [OF 3(1)] 2(3) 3(6) by (simp_all add: drv_same_def)
  ultimately show ?thesis
    using 3(4,5,7) 4(6,7,9-) pin(3) by (intro exI [of _ ?sp] exI [of _ d4]) simp
qed

lemma ref_d2xx_calls:
  "FT_GetLibraryVersion (ref_d2xx clk) w = (FT_OK, 0x30115, w)"
  "FT_SetVIDPID (ref_d2xx clk) vid' pid' w = (FT_OK, w)"
  "FT_CreateDeviceInfoList (ref_d2xx clk) w = (FT_OK, 1, w)"
  "FT_GetDeviceInfoList (ref_d2xx clk) w
     = (FT_OK, [\<lparr>SerialNumber = ''FT7A'', Description = ''MPSSE''\<rparr>], 1, w)"
  "FT_Open (ref_d2xx clk) i w = (FT_OK, 1, w\<lparr>ch_open := True\<rparr>)" "FT_Purge (ref_d2xx clk) h w = (FT_OK, w)"
  "FT_SetChars (ref_d2xx clk) h w = (FT_OK, w)" "FT_SetFlowControl (ref_d2xx clk) h w = (FT_OK, w)"
  "FT_SetLatencyTimer (ref_d2xx clk) h l w = (FT_OK, w)"
  "FT_SetBitMode (ref_d2xx clk) h x y w = (FT_OK, w\<lparr>ch_mode := y\<rparr>)"
  "FT_Close (ref_d2xx clk) h w = (FT_OK, w\<lparr>ch_open := False\<rparr>)"
  by (simp_all add: ref_d2xx_def)

lemma set_world_same: "w = world (fd_io d) \<Longrightarrow> set_world w d = d"
  by (simp add: set_world_def)

text \<open>The chip once it has been opened and put into MPSSE mode.\<close>

definition in_mpsse :: "'d chip \<Rightarrow> 'd chip" where
  "in_mpsse w = w\<lparr>ch_open := True, ch_mode := 2\<rparr>"

lemma in_mpsse_fields [simp]:
  "ch_acc (in_mpsse w) = ch_acc w" "ch_out (in_mpsse w) = ch_out w" "ch_dev (in_mpsse w) = ch_dev w"
  "ch_mode (in_mpsse w) = 2" "ch_open (in_mpsse w)"
  by (simp_all add: in_mpsse_def)

lemma activate_main:
  assumes "load_config args (fd_params d) = (True, p)" "select_chip p = Some (n, Some c)"
    and "c = CHR 0x00 \<or> c = CHR ''A''"
    and "malloc 65536 = Some a" "unat a + 65536 < 2 ^ 63"
      "malloc 131072 = Some b" "unat b + 131072 < 2 ^ 63"
    and "ch_acc (world (fd_io d)) = []" "ch_out (world (fd_io d)) = []"
  shows "\<exists>sp' d'. activate malloc (ref_d2xx clk) args sp d = Ok (True, sp', d')
    \<and> ready 1792 clk (ref_d2xx clk) sp' d' \<and> sp_state sp' = TEST_LOGIC_RESET
    \<and> ch_dev (world (fd_io d')) = snd (clocks clk (replicate 5 (True, False)) (ch_dev (world (fd_io d))))
    \<and> lastTdi d' = False \<and> chipBufferBytes d' = n \<and> highSpeedCapable d'
    \<and> same_arena (ref_arena a 65536) (fd_pool d')
    \<and> pins_as_configured (d_pins p) (ch_pins (world (fd_io d')))
    \<and> ch_mode (world (fd_io d')) = 2 \<and> ch_open (world (fd_io d'))"
proof -
  let ?d = "set_world (in_mpsse (world (fd_io d)))
    (d\<lparr>fd_params := p, chipBufferBytes := n, highSpeedCapable := True, ftHandle := 1\<rparr>)"
  have n: "3 \<le> n" "n \<le> 4096" using assms(2) by (auto simp: select_chip_def split: if_splits)
  have pins: "list_all (\<lambda>i. d_pins p ! i \<noteq> PIN_ROLE_INVALID) [4, 5, 6, 7]"
    using assms(1) by (auto simp: load_config_def params_valid_def Let_def)
  obtain sp' d' where s: "setup_device malloc (ref_d2xx clk) sp ?d = Ok (True, sp', d')"
    "ready 1792 clk (ref_d2xx clk) sp' d'" "sp_state sp' = TEST_LOGIC_RESET"
    "ch_dev (world (fd_io d')) = snd (clocks clk (replicate 5 (True, False)) (ch_dev (world (fd_io d))))"
    "lastTdi d' = False" "chipBufferBytes d' = n" "highSpeedCapable d'"
    "same_arena (ref_arena a 65536) (fd_pool d')" "pins_as_configured (d_pins p) (ch_pins (world (fd_io d')))"
    "ch_mode (world (fd_io d')) = 2" "ch_open (world (fd_io d'))"
    using setup_chip [OF ref_d2xx_ok ref_d2xx_chip assms(4-7), where d = ?d and sp = sp and clk = clk] n pins assms(8,9)
    by (simp add: set_world_def) blast
  have "find_device c [\<lparr>SerialNumber = ''FT7A'', Description = ''MPSSE''\<rparr>] 0 1
      = Ok (Some \<lparr>SerialNumber = ''FT7A'', Description = ''MPSSE''\<rparr>)" if "c = CHR ''A''"
    using that by (simp add: rd_at_def)
  then have "activate malloc (ref_d2xx clk) args sp d = setup_device malloc (ref_d2xx clk) sp ?d"
    using assms(1-3)
    by (auto simp: activate_def Let_def require_def find_and_open_def select_device_def rd_at_def
        open_device_def ref_d2xx_calls set_world_def in_mpsse_def)
  with s show ?thesis by auto
qed

text \<open>C22. Activation with a valid configuration, on the reference library with one chip of the
  configured type attached and memory for the two arenas, succeeds and leaves the driver ready for
  vectors: the chip is open and in MPSSE mode, its engine is in sync, the pins have the levels and
  directions that the configuration asks for, the target has been clocked with five TMS ones at a
  low TDI and the splitter starts from Test-Logic-Reset, as does the TAP.\<close>
theorem activate_ready:
  assumes "load_config args (fd_params d) = (True, p)" "select_chip p = Some (n, Some c)"
    and "c = CHR 0x00 \<or> c = CHR ''A''"
    and "malloc 65536 = Some a" "unat a + 65536 < 2 ^ 63"
      "malloc 131072 = Some b" "unat b + 131072 < 2 ^ 63"
    and "ch_acc (world (fd_io d)) = []" "ch_out (world (fd_io d)) = []"
  shows "\<exists>sp' d'. activate malloc (ref_d2xx clk) args sp d = Ok (True, sp', d')
    \<and> ready 1792 clk (ref_d2xx clk) sp' d' \<and> sp_state sp' = TEST_LOGIC_RESET
    \<and> ch_dev (world (fd_io d')) = snd (clocks clk (replicate 5 (True, False)) (ch_dev (world (fd_io d))))
    \<and> pins_as_configured (d_pins p) (ch_pins (world (fd_io d')))
    \<and> ch_open (world (fd_io d')) \<and> ch_mode (world (fd_io d')) = 2"
  using activate_main [OF assms] by blast

theorem activate_ready_witness:
  "\<exists>sp' d'. activate (\<lambda>sz. if sz = 65536 then Some 0x10000 else Some 0x20000) (ref_d2xx bypass)
      [(''device'', ''ft232h''), (''vid'', ''0403''), (''pid'', ''6014''), (''channel'', ''A''),
       (''d4'', ''ignored''), (''d5'', ''driver_low''), (''d6'', ''driver_high''), (''d7'', ''ignored'')]
      \<lparr>sp_state = SHIFT_DR, sp_cb = None\<rparr> (ref_driver Map.empty (idle_chip True))
    = Ok (True, sp', d') \<and> sp_state sp' = TEST_LOGIC_RESET
    \<and> map (bit (snd (ch_pins (world (fd_io d'))))) [4, 5, 6, 7] = [False, True, True, False]
    \<and> map (bit (fst (ch_pins (world (fd_io d'))))) [5, 6] = [False, True]"
proof -
  let ?args = "[(''device'', ''ft232h''), (''vid'', ''0403''), (''pid'', ''6014''), (''channel'', ''A''),
       (''d4'', ''ignored''), (''d5'', ''driver_low''), (''d6'', ''driver_high''), (''d7'', ''ignored'')]"
  let ?d = "ref_driver Map.empty (idle_chip True)"
  let ?r = "\<lparr>device = FT_DEVICE_2232H, vid = 0x403, pid = 0x6010, channel = CHR ''A'',
       read_latency_millis = 16, d_pins = replicate 8 PIN_ROLE_OTHER_IGNORED\<rparr>"
  have p: "fst (load_config ?args ?r)" "select_chip (snd (load_config ?args ?r)) = Some (1024, Some (CHR 0x00))"
    by code_simp+
  moreover have "fd_params ?d = ?r" by (simp add: ref_driver_def)
  ultimately have cfg: "load_config ?args (fd_params ?d) = (True, snd (load_config ?args ?r))"
    by (cases "load_config ?args ?r") simp
  have roles: "map ((!) (d_pins (snd (load_config ?args ?r)))) [4, 5, 6, 7]
      = [PIN_ROLE_OTHER_IGNORED, PIN_ROLE_OTHER_DRIVER_LOW, PIN_ROLE_OTHER_DRIVER_HIGH, PIN_ROLE_OTHER_IGNORED]"
    by code_simp
  obtain sp' d' where act: "activate (\<lambda>sz. if sz = 65536 then Some 0x10000 else Some 0x20000) (ref_d2xx bypass)
      ?args \<lparr>sp_state = SHIFT_DR, sp_cb = None\<rparr> ?d = Ok (True, sp', d')" "sp_state sp' = TEST_LOGIC_RESET"
    "pins_as_configured (d_pins (snd (load_config ?args ?r))) (ch_pins (world (fd_io d')))"
    using activate_ready [OF cfg p(2), where clk = bypass and a = "0x10000"
        and b = "0x20000" and malloc = "\<lambda>sz. if sz = 65536 then Some 0x10000 else Some 0x20000"
        and sp = "\<lparr>sp_state = SHIFT_DR, sp_cb = None\<rparr>"]
    by (simp add: ref_driver_fields idle_chip_fields) blast
  then have "map (bit (snd (ch_pins (world (fd_io d'))))) [4, 5, 6, 7] = [False, True, True, False]
      \<and> map (bit (fst (ch_pins (world (fd_io d'))))) [5, 6] = [False, True]"
    using roles by (cases "ch_pins (world (fd_io d'))") (simp add: pins_as_configured_def)
  then show ?thesis by (intro exI [of _ sp'] exI [of _ d'] conjI act(1,2)) simp_all
qed

end
