(* ===== verification/Ftdi_Safety.thy ===== *)
theory Ftdi_Safety
  imports Ftdi_Activation
begin

text \<open>
  The operations of \<open>libdrivers/ftdi_generic.c\<close> with a D2XX library that may fail at any call.
  \<open>drv_inv\<close> is the type of an active driver: which arenas, buffers and observers it has.
  Activation establishes it and the other operations may rely on it.
\<close>

subsection \<open>What the sources rely on\<close>

text \<open>The addresses of the C library's \<open>malloc\<close> are in the lower half of the address space.\<close>

definition malloc_ok :: "(u64 \<Rightarrow> u64 option) \<Rightarrow> bool" where
  "malloc_ok malloc \<longleftrightarrow> (\<forall>sz p. malloc sz = Some p \<longrightarrow> unat p + unat sz < 2 ^ 63)"

text \<open>\<open>FT_GetDeviceInfoList\<close>, if it succeeds, stores an entry for each device it reports. The sources
  have room for four of them and look at the last character of a serial number; whether a list is
  one they can handle is up to what is connected.\<close>

definition device_list_documented :: "'w d2xx \<Rightarrow> bool" where
  "device_list_documented dx \<longleftrightarrow> (\<forall>w. case FT_GetDeviceInfoList dx w of (st, devices, n, w') \<Rightarrow>
     st = FT_OK \<longrightarrow> length devices = unat n)"

definition device_list_fits :: "'w d2xx \<Rightarrow> 'w \<Rightarrow> bool" where
  "device_list_fits dx w \<longleftrightarrow> (case FT_GetDeviceInfoList dx w of (st, devices, n, w') \<Rightarrow>
     length devices \<le> 4 \<and> list_all (\<lambda>dev. SerialNumber dev \<noteq> []) devices)"

subsection \<open>The synchronisation check\<close>

lemma check_safe:
  assumes inv: "drv_inv dx d" and obs: "rxObservers (cmdBuffer d) = []"
  shows "c_safe (check_device_in_sync dx d) (\<lambda>(ok, d'). ok \<longrightarrow> drv_inv dx d' \<and> flushed d')"
  unfolding check_device_in_sync_def on_buffer_def
proof (rule c_safe_bindI)
  let ?d1 = "set_mem resp_ref (Some [0, 0]) d"
  let ?b = "cmdBuffer ?d1" and ?i = "fd_io ?d1"
  have inv1: "drv_inv dx ?d1" using inv obs by (rule drv_inv_set_mem)
  then have bi: "buf_inv (bit_extras ?i) (mem_size (mem ?i)) ?b" "d2xx_ok dx"
    by (simp_all add: drv_inv_def)
  have two: "mem_size (mem ?i) resp_ref = 2" by (simp add: mem_size_def)
  note two' = two [unfolded set_mem_fields]
  have "c_out False (ft_buffer_add_write_to_chip_with_readback_simple dx ?b ?i [0xab] 1 resp_ref 0 2)
      (\<lambda>(ok, b', i'). buf_inv (bit_extras ?i) (mem_size (mem ?i)) b' \<and> same_cfg ?b b' \<and> io_same ?i i')"
    by (rule c_out_mono [OF add_write_simple_out [OF bi]]) (auto simp: two')
  then show "c_safe (c_bind (ft_buffer_add_write_to_chip_with_readback_simple dx ?b ?i [0xab] 1 resp_ref 0 2)
        (\<lambda>(ok, b', i'). Ok (ok, ?d1\<lparr>cmdBuffer := b', fd_io := i'\<rparr>)))
      (\<lambda>(ok, d2). drv_inv dx d2 \<and> drv_sizes d2 resp_ref = 2)"
    unfolding c_out_False
    by (rule c_safe_bindI) (use inv1 two in \<open>auto simp: drv_inv_def io_same_def same_cfg_def drv_sizes_def\<close>)
  fix x :: "bool \<times> 'a ftdi"
  obtain ok d2 where x: "x = (ok, d2)" by (cases x)
  assume "case x of (ok, d2) \<Rightarrow> drv_inv dx d2 \<and> drv_sizes d2 resp_ref = 2"
  then have 2: "drv_inv dx d2" "mem_size (mem (fd_io d2)) resp_ref = 2" by (simp_all add: x drv_sizes_def)
  let ?b2 = "cmdBuffer d2" and ?i2 = "fd_io d2"
  have bi2: "buf_inv (bit_extras ?i2) (mem_size (mem ?i2)) ?b2" "d2xx_ok dx"
    using 2(1) by (simp_all add: drv_inv_def)
  have fl: "c_safe (c_bind (ft_buffer_flush dx ?b2 ?i2)
        (\<lambda>(ok, b', i'). Ok (ok, d2\<lparr>cmdBuffer := b', fd_io := i'\<rparr>)))
      (\<lambda>(ok, d3). drv_inv dx d3 \<and> drv_sizes d3 resp_ref = 2 \<and> (ok \<longrightarrow> flushed d3))"
    using flush_out [OF bi2, of False] unfolding c_out_False
    by (rule c_safe_bindI)
       (use 2 in \<open>auto simp: drv_inv_def io_same_def same_cfg_def flushed_def drv_sizes_def\<close>)
  show "c_safe (case x of (ok, d') \<Rightarrow>
       if \<not> ok then Ok (False, set_mem resp_ref None d')
       else c_bind (c_bind (ft_buffer_flush dx (cmdBuffer d') (fd_io d'))
           (\<lambda>(ok, b', i'). Ok (ok, d'\<lparr>cmdBuffer := b', fd_io := i'\<rparr>))) (\<lambda>(ok, d'').
         if \<not> ok then Ok (False, set_mem resp_ref None d'')
         else case mem (fd_io d'') resp_ref of
                None \<Rightarrow> Fault DeadObject
              | Some resp \<Rightarrow>
                  c_bind (rd_at resp 0) (\<lambda>r0. c_bind (rd_at resp 1) (\<lambda>r1.
                    Ok (r0 = OP_BAD_COMMANDS \<and> r1 = 0xab, set_mem resp_ref None d'')))))
     (\<lambda>(ok, d'). ok \<longrightarrow> drv_inv dx d' \<and> flushed d')"
    unfolding x prod.case
  proof (cases ok, simp_all only: if_True if_False not_True_eq_False not_False_eq_True, rule c_safe_bindI [OF fl], clarify)
    fix ok3 d3
    assume 3: "drv_inv dx d3" "drv_sizes d3 resp_ref = 2" "ok3 \<longrightarrow> flushed d3"
    have "drv_inv dx (set_mem resp_ref None d3) \<and> flushed (set_mem resp_ref None d3)" if "flushed d3"
      using 3(1) that by (intro conjI drv_inv_set_mem) (auto simp: flushed_def drv_inv_def buf_inv_def)
    moreover obtain r where "mem (fd_io d3) resp_ref = Some r" "length r = 2"
      using 3(2) by (auto simp: drv_sizes_def mem_size_def split: option.splits)
    ultimately show "c_safe (if \<not> ok3 then Ok (False, set_mem resp_ref None d3)
         else case mem (fd_io d3) resp_ref of
                None \<Rightarrow> Fault DeadObject
              | Some resp \<Rightarrow>
                  c_bind (rd_at resp 0) (\<lambda>r0. c_bind (rd_at resp 1) (\<lambda>r1.
                    Ok (r0 = OP_BAD_COMMANDS \<and> r1 = 0xab, set_mem resp_ref None d3))))
      (\<lambda>(ok, d'). ok \<longrightarrow> drv_inv dx d' \<and> flushed d')"
      using 3(3) by (simp add: rd_at_def)
  qed simp
qed

subsection \<open>Activation\<close>

lemma pool_init_safe:
  assumes "malloc_ok malloc"
  shows "c_safe (txvc_mempool_init malloc sz) pool_ok"
proof (cases "malloc sz")
  case (Some p)
  then have "unat p + unat sz < 2 ^ 63" using assms by (simp add: malloc_ok_def)
  then show ?thesis using fresh_arena(1,2) [of malloc sz p] Some by simp
qed (simp add: txvc_mempool_init_def)

lemma buffer_init_safe:
  assumes "malloc_ok malloc" "3 \<le> n" "n \<le> 65536"
  shows "c_safe (ft_buffer_init malloc h n) (\<lambda>b. buf_inv ex sz b
    \<and> txBuffer b = None \<and> rxBuffer b = None \<and> maxRxBufferBytes b = n)"
  unfolding ft_buffer_init_def
proof (rule c_safe_bindI [OF pool_init_safe [OF assms(1)]])
  fix pool
  assume "pool_ok pool"
  moreover have "c_int (3 * n) = Ok (3 * n)" using assms by (intro c_int_in) auto
  ultimately show "c_safe (c_bind (c_int (3 * n)) (\<lambda>maxTx.
      Ok \<lparr>ftChip = h, fb_pool = pool, txBuffer = None, txNumBytes = 0,
           maxTxBufferBytes = maxTx, rxBuffer = None, rxNumBytes = 0,
           maxRxBufferBytes = n, rxObservers = []\<rparr>)) (\<lambda>b. buf_inv ex sz b
    \<and> txBuffer b = None \<and> rxBuffer b = None \<and> maxRxBufferBytes b = n)"
    using assms by (simp add: buf_inv_def)
qed

lemma write_safe:
  assumes inv: "drv_inv dx d" and obs: "rxObservers (cmdBuffer d) = []" "rxNumBytes (cmdBuffer d) = 0"
    and n: "0 \<le> n" "nat n \<le> length data" "n \<le> maxRxBufferBytes (cmdBuffer d)"
      "txNumBytes (cmdBuffer d) + n \<le> maxTxBufferBytes (cmdBuffer d)"
  shows "c_safe (on_buffer (\<lambda>b i. ft_buffer_add_write_to_chip dx b i data n) d) (\<lambda>(ok, d').
    drv_inv dx d' \<and> rxObservers (cmdBuffer d') = [])"
  using obs
  by (intro c_safe_mono [OF queue_write [OF inv n, of False, unfolded c_out_False]]) (auto simp: queued_def)

lemma splitter_init_safe:
  assumes "drv_inv dx d"
  shows "c_safe (txvc_jtag_splitter_init sp (jtag_splitter_callback dx) d) (\<lambda>(ok, sp', d').
    drv_inv dx d' \<and> (ok \<longrightarrow> sp_cb sp' = Some (jtag_splitter_callback dx) \<and> sp_state sp' = TEST_LOGIC_RESET))"
  unfolding txvc_jtag_splitter_init_def
  by (rule c_safe_bindI [OF ftdi_sink.reset_safe [OF assms]]) auto

definition activated :: "'w d2xx \<Rightarrow> bool \<times> 'w ftdi jtag_splitter \<times> 'w ftdi \<Rightarrow> bool" where
  "activated dx = (\<lambda>(ok, sp, d). ok \<longrightarrow> drv_inv dx d
     \<and> sp_cb sp = Some (jtag_splitter_callback dx) \<and> sp_state sp = TEST_LOGIC_RESET)"

lemma activated_simps [simp]:
  "activated dx (False, sp, d)"
  "activated dx (True, sp, d) \<longleftrightarrow> drv_inv dx d
     \<and> sp_cb sp = Some (jtag_splitter_callback dx) \<and> sp_state sp = TEST_LOGIC_RESET"
  by (simp_all add: activated_def)

definition configured :: "'w ftdi \<Rightarrow> bool" where
  "configured d \<longleftrightarrow> params_valid (fd_params d) \<and> 3 \<le> chipBufferBytes d \<and> chipBufferBytes d \<le> 65536"

lemma configured_simps [simp]:
  "configured (set_world w d) = configured d" "configured (d\<lparr>ftHandle := h\<rparr>) = configured d"
  by (simp_all add: configured_def set_world_def)

lemma setup_tail_safe:
  assumes "drv_inv dx d" "rxObservers (cmdBuffer d) = []"
  shows "c_safe (c_bind (if \<not> ok then Ok (False, d) else check_device_in_sync dx d) (\<lambda>(ok, d3).
         if \<not> ok then Ok (False, sp, ft_close dx (ft_reset_mode dx d3))
         else c_bind (txvc_jtag_splitter_init sp (jtag_splitter_callback dx) d3) (\<lambda>(ok, sp', d4).
           if \<not> ok then Ok (False, sp', ft_close dx (ft_reset_mode dx d4))
           else Ok (True, sp', d4)))) (activated dx)"
proof (rule c_safe_bindI [where P = "\<lambda>(ok, d'). ok \<longrightarrow> drv_inv dx d'"])
  show "c_safe (if \<not> ok then Ok (False, d) else check_device_in_sync dx d)
      (\<lambda>(ok, d'). ok \<longrightarrow> drv_inv dx d')"
    by (cases ok) (auto intro: c_safe_mono [OF check_safe [OF assms]])
qed (auto intro!: c_safe_bindI [OF splitter_init_safe])

lemma setup_device_safe:
  assumes dx: "d2xx_ok dx" and m: "malloc_ok malloc" and d: "configured d"
  shows "c_safe (setup_device malloc dx sp d) (activated dx)"
proof -
  let ?n = "chipBufferBytes d"
  have n: "3 \<le> ?n" "?n \<le> 65536" using d by (simp_all add: configured_def)
  have "list_all (\<lambda>i. d_pins (fd_params d) ! i \<noteq> PIN_ROLE_INVALID) [4, 5, 6, 7]"
    using d by (simp add: configured_def params_valid_def)
  then obtain lvl dir where pins: "setup_pins (d_pins (fd_params d)) [4, 5, 6, 7] (0x08, 0x0b) = Ok (lvl, dir)"
    using setup_pins_ok by blast
  have wr: "c_safe (on_buffer (\<lambda>b i. ft_buffer_add_write_to_chip dx b i [OP_SET_DBUS_LOBYTE, lvl, dir] 3)
        (d\<lparr>fd_pool := pool, cmdBuffer := b, lastTdi := False\<rparr>))
      (\<lambda>(ok, d'). drv_inv dx d' \<and> rxObservers (cmdBuffer d') = [])"
    if pool: "pool_ok pool" and b: "buf_inv (bit_extras (fd_io d)) (mem_size (mem (fd_io d))) b
      \<and> txBuffer b = None \<and> rxBuffer b = None \<and> maxRxBufferBytes b = ?n" for pool b
  proof -
    have "drv_inv dx (d\<lparr>fd_pool := pool, cmdBuffer := b, lastTdi := False\<rparr>)"
      using dx pool b by (simp add: drv_inv_def)
    then show ?thesis using b n by (intro write_safe) (auto simp: buf_inv_def)
  qed
  show ?thesis
    unfolding setup_device_def
    by (rule c_safe_bindI [OF pool_init_safe [OF m]], rule c_safe_bindI [OF buffer_init_safe [OF m n]],
        unfold pins c_bind.simps prod.case Let_def, rule c_safe_bindI [OF wr], assumption, assumption)
       (clarify, rule setup_tail_safe)
qed

lemma require_c_safe:
  assumes "\<And>w. c_safe (bail (set_world w d)) P" "\<And>w. c_safe (go (set_world w d)) P"
  shows "c_safe (require call bail go d) P"
  using assms by (simp add: require_def split: prod.split)

lemma open_device_safe:
  assumes "d2xx_ok dx" "malloc_ok malloc" "configured d"
  shows "c_safe (open_device malloc dx dev n sp d) (activated dx)"
  unfolding open_device_def Let_def
  using assms by (auto split: prod.split intro!: require_c_safe setup_device_safe)

lemma find_device_safe:
  "list_all (\<lambda>dev. SerialNumber dev \<noteq> []) devices \<Longrightarrow> i + n \<le> length devices \<Longrightarrow>
   c_safe (find_device chan devices i n) (\<lambda>_. True)"
proof (induction n arbitrary: i)
  case (Suc n)
  have "rd_at devices (int i) = Ok (devices ! i)" using Suc.prems by (simp add: rd_at_def)
  moreover have "SerialNumber (devices ! i) \<noteq> []" using Suc.prems by (simp add: list_all_length)
  then have "\<exists>c. rd_at (SerialNumber (devices ! i)) (int (length (SerialNumber (devices ! i))) - 1) = Ok c"
    by (auto simp: rd_at_def Suc_le_eq)
  ultimately show ?case using Suc by auto
qed simp

text \<open>Safe but for a list of devices that does not fit.\<close>

definition safe_if_fits :: "'w d2xx \<Rightarrow> 'a c_res \<Rightarrow> ('a \<Rightarrow> bool) \<Rightarrow> bool" where
  "safe_if_fits dx m P \<longleftrightarrow> (case m of Ok x \<Rightarrow> P x
     | Fault e \<Rightarrow> e = FatalAbort \<or> e = OutOfBounds \<and> (\<exists>w. \<not> device_list_fits dx w))"

lemma safe_if_fits_simps [simp]:
  "safe_if_fits dx (Ok x) P \<longleftrightarrow> P x"
  "safe_if_fits dx (Fault e) P \<longleftrightarrow> e = FatalAbort \<or> e = OutOfBounds \<and> (\<exists>w. \<not> device_list_fits dx w)"
  by (simp_all add: safe_if_fits_def)

lemma c_safe_fits: "c_safe m P \<Longrightarrow> safe_if_fits dx m P"
  by (cases m) auto

lemma safe_if_fits_mono: "safe_if_fits dx m P \<Longrightarrow> (\<And>x. P x \<Longrightarrow> Q x) \<Longrightarrow> safe_if_fits dx m Q"
  by (cases m) auto

text \<open>A step that a failed D2XX call skips.\<close>

lemma require_safe:
  assumes "\<And>w. safe_if_fits dx (bail (set_world w d)) P" "\<And>w. safe_if_fits dx (go (set_world w d)) P"
  shows "safe_if_fits dx (require call bail go d) P"
  using assms by (simp add: require_def split: prod.split)

lemma select_device_fault:
  "select_device chan devices n = Fault e \<Longrightarrow> e = OutOfBounds"
proof -
  have "find_device chan devices i k = Fault e \<Longrightarrow> e = OutOfBounds" for i k
    by (induction k arbitrary: i) (auto simp: c_bind_eq_Fault rd_at_def split: if_splits)
  then show "select_device chan devices n = Fault e \<Longrightarrow> e = OutOfBounds"
    by (auto simp: select_device_def rd_at_def split: if_splits)
qed

lemma find_and_open_safe:
  assumes "d2xx_ok dx" "malloc_ok malloc" "device_list_documented dx" "configured d"
  shows "safe_if_fits dx (find_and_open malloc dx chan sp d) (activated dx)"
proof -
  obtain st devices n w where l: "FT_GetDeviceInfoList dx (world (fd_io d)) = (st, devices, n, w)"
    by (metis prod_cases4)
  then have doc: "st = FT_OK \<longrightarrow> length devices = unat n"
    using assms(3) by (auto simp: device_list_documented_def dest!: spec [of _ "world (fd_io d)"])
  have fits: "device_list_fits dx (world (fd_io d))
      \<longleftrightarrow> length devices \<le> 4 \<and> list_all (\<lambda>dev. SerialNumber dev \<noteq> []) devices"
    by (simp add: device_list_fits_def l)
  have open_it: "safe_if_fits dx (open_device malloc dx dev n sp (set_world w d)) (activated dx)" for dev
    using assms by (intro c_safe_fits open_device_safe) simp_all
  show ?thesis
  proof (cases "select_device chan devices n")
    case (Ok sel)
    then show ?thesis
      using fits open_it by (auto simp: find_and_open_def l split: option.split)
  next
    case (Fault e)
    have "\<not> device_list_fits dx (world (fd_io d))" if "st = FT_OK"
    proof
      assume "device_list_fits dx (world (fd_io d))"
      then have dev: "list_all (\<lambda>dev. SerialNumber dev \<noteq> []) devices" by (simp add: fits)
      have "c_safe (select_device chan devices n) (\<lambda>_. True)"
      proof (cases "n = 0 \<or> chan = NUL")
        case True
        then show ?thesis
          using doc that unat_eq_0 [of n] rd_at_nat [of 0 devices]
          by (cases "n = 0"; cases devices) (simp_all add: select_device_def)
      next
        case False
        then show ?thesis
          using find_device_safe [OF dev, of 0 "unat n" chan] doc that by (simp add: select_device_def)
      qed
      then show False using Fault select_device_fault [OF Fault] by simp
    qed
    then show ?thesis
      using fits select_device_fault [OF Fault] Fault by (auto simp: find_and_open_def l)
  qed
qed

subsection \<open>Deactivation\<close>

lemma deactivate_safe:
  assumes inv: "drv_inv dx d" and cb: "sp_cb sp = Some (jtag_splitter_callback dx)"
  shows "c_safe (deactivate dx sp d) (\<lambda>(ok, _). ok)"
proof -
  have deinit: "c_safe (txvc_jtag_splitter_deinit sp d) (\<lambda>(ok, sp', d'). drv_inv dx d')"
    unfolding txvc_jtag_splitter_deinit_def cb option.case
    by (rule c_safe_bindI [OF ftdi_sink.reset_safe [OF inv]]) auto
  have buffer: "c_safe (ft_buffer_deinit dx (cmdBuffer d') (fd_io d')) (\<lambda>_. True)" if "drv_inv dx d'" for d'
  proof -
    have "c_safe (ft_buffer_flush dx (cmdBuffer d') (fd_io d')) (\<lambda>_. True)"
      using that unfolding c_out_False [symmetric]
      by (intro c_out_mono [OF flush_out]) (auto simp: drv_inv_def)
    then show ?thesis
      unfolding ft_buffer_deinit_def by (rule c_safe_bindI) (auto split: prod.split)
  qed
  show ?thesis
    unfolding deactivate_def
    by (rule c_safe_bindI [OF deinit], clarify, rule c_safe_bindI [OF buffer])
       (auto split: prod.split)
qed

text \<open>C27. Activation with a D2XX library that may fail at any call: whatever profile it is given, it
  returns, or the logger aborts for want of memory, or it runs out of the bounds of its list of
  devices, and the latter only if more than four devices or one with an empty serial number are
  connected. If it reports success then the driver is of the type \<open>drv_inv\<close> that \<open>shift_bits\<close> and
  \<open>deactivate\<close> rely on, with arenas, an empty or well-formed command buffer, and the splitter at
  Test-Logic-Reset with the driver's callback; and a driver of this type can be deactivated
  safely.\<close>
theorem activate_typed:
  assumes "d2xx_ok dx" "malloc_ok malloc" "device_list_documented dx"
  shows "case activate malloc dx args sp d of
      Ok (ok, sp', d') \<Rightarrow> ok \<longrightarrow> drv_inv dx d' \<and> sp_cb sp' = Some (jtag_splitter_callback dx)
        \<and> sp_state sp' = TEST_LOGIC_RESET \<and> c_safe (deactivate dx sp' d') (\<lambda>(r, _). r)
    | Fault e \<Rightarrow> e = FatalAbort \<or> e = OutOfBounds \<and> (\<exists>w. \<not> device_list_fits dx w)"
proof -
  obtain ok p where p: "load_config args (fd_params d) = (ok, p)" by fastforce
  have valid: "params_valid p" if ok using p that by (auto simp: load_config_def Let_def)
  have size: "3 \<le> n \<and> n \<le> 65536" if "select_chip p = Some (n, c)" for n c
    using that by (auto simp: select_chip_def split: if_splits)
  have "safe_if_fits dx (activate malloc dx args sp d) (activated dx)"
    unfolding activate_def p Let_def
    using assms valid size
    by (auto split: option.split prod.split intro!: require_safe find_and_open_safe)
      (auto simp: configured_def)
  then have "safe_if_fits dx (activate malloc dx args sp d) (\<lambda>(ok, sp', d'). ok \<longrightarrow> drv_inv dx d'
      \<and> sp_cb sp' = Some (jtag_splitter_callback dx) \<and> sp_state sp' = TEST_LOGIC_RESET
      \<and> c_safe (deactivate dx sp' d') (\<lambda>(r, _). r))"
    by (rule safe_if_fits_mono) (auto intro: deactivate_safe)
  then show ?thesis by (simp add: safe_if_fits_def)
qed

theorem activate_typed_witness:
  "\<exists>sp' d'. activate (\<lambda>sz. if sz = 65536 then Some 0x10000 else if sz = 131072 then Some 0x20000 else None)
      (ref_d2xx bypass)
      [(''device'', ''ft232h''), (''vid'', ''0403''), (''pid'', ''6014''), (''channel'', ''A''),
       (''d4'', ''ignored''), (''d5'', ''driver_low''), (''d6'', ''driver_high''), (''d7'', ''ignored'')]
      \<lparr>sp_state = SHIFT_DR, sp_cb = None\<rparr> (ref_driver Map.empty (idle_chip True)) = Ok (True, sp', d')
    \<and> drv_inv (ref_d2xx bypass) d' \<and> c_safe (deactivate (ref_d2xx bypass) sp' d') (\<lambda>(r, _). r)"
proof -
  let ?m = "\<lambda>sz :: u64. if sz = 65536 then Some 0x10000 else if sz = 131072 then Some (0x20000 :: u64) else None"
  let ?args = "[(''device'', ''ft232h''), (''vid'', ''0403''), (''pid'', ''6014''), (''channel'', ''A''),
       (''d4'', ''ignored''), (''d5'', ''driver_low''), (''d6'', ''driver_high''), (''d7'', ''ignored'')]"
  let ?d = "ref_driver Map.empty (idle_chip True)"
  let ?r = "\<lparr>device = FT_DEVICE_2232H, vid = 0x403, pid = 0x6010, channel = CHR ''A'',
       read_latency_millis = 16, d_pins = replicate 8 PIN_ROLE_OTHER_IGNORED\<rparr>"
  let ?sp = "\<lparr>sp_state = SHIFT_DR, sp_cb = None\<rparr>"
  have m: "malloc_ok ?m" by (auto simp: malloc_ok_def word_le_nat_alt)
  have doc: "device_list_documented (ref_d2xx bypass)" by (simp add: device_list_documented_def ref_d2xx_def)
  have p: "fst (load_config ?args ?r)" "select_chip (snd (load_config ?args ?r)) = Some (1024, Some (CHR 0x00))"
    by code_simp+
  moreover have "fd_params ?d = ?r" by (simp add: ref_driver_def)
  ultimately have cfg: "load_config ?args (fd_params ?d) = (True, snd (load_config ?args ?r))"
    by (cases "load_config ?args ?r") simp
  obtain sp' d' where act: "activate ?m (ref_d2xx bypass) ?args ?sp ?d = Ok (True, sp', d')"
    using activate_main [OF cfg p(2), where clk = bypass and a = "0x10000" and b = "0x20000" and malloc = ?m and sp = ?sp]
    by (simp add: ref_driver_fields idle_chip_fields) blast
  show ?thesis
    using activate_typed [OF ref_d2xx_ok m doc, where args = ?args and sp = ?sp and d = ?d, unfolded act c_res.case]
    by (intro exI [of _ sp'] exI [of _ d'] conjI act) simp_all
qed

subsection \<open>Too many devices\<close>

text \<open>C28. The list of devices is out of bounds in two ways, whatever else is connected: with more than
  four devices the library stores beyond the four entries there is room for, and if a channel letter
  has to be matched and the first device has an empty serial number, the character before it is
  read. Neither needs more than a valid configuration and calls that succeed.\<close>
theorem activate_list_overflows:
  assumes "load_config args (fd_params d) = (True, p)" "select_chip p = Some (bytes, Some chan)"
    and "\<forall>w. fst (FT_GetLibraryVersion dx w) = FT_OK" "\<forall>v q w. fst (FT_SetVIDPID dx v q w) = FT_OK"
      "\<forall>w. fst (FT_CreateDeviceInfoList dx w) = FT_OK"
    and "\<forall>w. \<exists>devices n w'. FT_GetDeviceInfoList dx w = (FT_OK, devices, n, w')
      \<and> (4 < length devices \<or> chan \<noteq> NUL \<and> 0 < n \<and> devices \<noteq> [] \<and> SerialNumber (hd devices) = [])"
  shows "activate malloc dx args sp d = Fault OutOfBounds"
proof -
  have list: "find_and_open malloc dx chan sp d' = Fault OutOfBounds" for d'
  proof -
    obtain devices n w' where l: "FT_GetDeviceInfoList dx (world (fd_io d')) = (FT_OK, devices, n, w')"
      "4 < length devices \<or> chan \<noteq> NUL \<and> 0 < n \<and> devices \<noteq> [] \<and> SerialNumber (hd devices) = []"
      using assms(6) by blast
    show ?thesis
    proof (cases "4 < length devices")
      case False
      then have e: "chan \<noteq> NUL" "0 < n" "devices \<noteq> []" "SerialNumber (hd devices) = []" using l(2) by auto
      then obtain k where k: "unat n = Suc k" by (cases "unat n") (auto simp: unat_eq_0)
      have "select_device chan devices n = Fault OutOfBounds"
        using e by (simp add: select_device_def k rd_at_def hd_conv_nth)
      then show ?thesis using False by (simp add: find_and_open_def l(1))
    qed (simp add: find_and_open_def l(1))
  qed
  have go: "require call bail go d' = go (set_world (snd (call (world (fd_io d')))) d')"
    if "\<forall>w. fst (call w) = FT_OK" for call bail go and d' :: "'a ftdi"
    using that by (simp add: require_def case_prod_unfold)
  show ?thesis
    using assms(1-5) by (simp add: activate_def Let_def go case_prod_unfold list)
qed

theorem activate_list_overflows_witness:
  "activate (\<lambda>_. None) ((ref_d2xx bypass)\<lparr>FT_GetDeviceInfoList :=
       (\<lambda>w. (FT_OK, replicate 5 \<lparr>SerialNumber = ''FT7A'', Description = ''MPSSE''\<rparr>, 5, w))\<rparr>)
      [(''device'', ''ft232h''), (''vid'', ''0403''), (''pid'', ''6014''), (''channel'', ''A''),
       (''d4'', ''ignored''), (''d5'', ''driver_low''), (''d6'', ''driver_high''), (''d7'', ''ignored'')]
      \<lparr>sp_state = SHIFT_DR, sp_cb = None\<rparr> (ref_driver Map.empty (idle_chip True)) = Fault OutOfBounds"
proof -
  let ?args = "[(''device'', ''ft232h''), (''vid'', ''0403''), (''pid'', ''6014''), (''channel'', ''A''),
       (''d4'', ''ignored''), (''d5'', ''driver_low''), (''d6'', ''driver_high''), (''d7'', ''ignored'')]"
  let ?d = "ref_driver Map.empty (idle_chip True)"
  let ?r = "\<lparr>device = FT_DEVICE_2232H, vid = 0x403, pid = 0x6010, channel = CHR ''A'',
       read_latency_millis = 16, d_pins = replicate 8 PIN_ROLE_OTHER_IGNORED\<rparr>"
  have p: "fst (load_config ?args ?r)" "select_chip (snd (load_config ?args ?r)) = Some (1024, Some (CHR 0x00))"
    by code_simp+
  moreover have "fd_params ?d = ?r" by (simp add: ref_driver_def)
  ultimately have cfg: "load_config ?args (fd_params ?d) = (True, snd (load_config ?args ?r))"
    by (cases "load_config ?args ?r") simp
  show ?thesis
    by (rule activate_list_overflows [OF cfg p(2)]) (simp_all add: ref_d2xx_calls)
qed

end
