(* ===== verification/Ftdi_Limits.thy ===== *)
theory Ftdi_Limits
  imports Ftdi_Activation
begin

text \<open>
  What the arena of the observers' arguments in \<open>libdrivers/ftdi_generic.c\<close> limits.

  Each command with read back of bits takes 24 octets of it, and it is reclaimed only at the end of
  a vector. So a vector with many short data shifts exhausts it although \<open>max_vector_bits\<close> allows
  far longer ones.
\<close>

subsection \<open>Use of the arena\<close>

text \<open>From \<open>d\<close> to \<open>d'\<close> at least \<open>k\<close> objects have been allocated.\<close>

definition arena_used :: "nat \<Rightarrow> 'w ftdi \<Rightarrow> 'w ftdi \<Rightarrow> bool" where
  "arena_used k d d' \<longleftrightarrow> pool_ok (fd_pool d) \<longrightarrow> pool_ok (fd_pool d') \<and> same_arena (fd_pool d) (fd_pool d')
     \<and> unat (pool_head (fd_pool d)) + 24 * k \<le> unat (pool_head (fd_pool d'))"

lemma arena_used_trans: "arena_used k d d' \<Longrightarrow> arena_used l d' d'' \<Longrightarrow> arena_used (k + l) d d''"
  by (auto simp: arena_used_def same_arena_def)

lemma arena_used_0 [simp]: "fd_pool d' = fd_pool d \<Longrightarrow> arena_used 0 d d'"
  by (simp add: arena_used_def)

lemma arena_used_lastTdi [simp]: "arena_used k d (d'\<lparr>lastTdi := b\<rparr>) = arena_used k d d'"
  by (simp add: arena_used_def)

lemma on_buffer_pool: "on_buffer f d = Ok (ok, d') \<Longrightarrow> fd_pool d' = fd_pool d"
  by (auto simp: on_buffer_def)

lemma new_extra_used: "new_extra e d = Ok (a, d') \<Longrightarrow> arena_used 1 d d'"
proof -
  assume n: "new_extra e d = Ok (a, d')"
  then obtain p where p: "txvc_mempool_alloc_aligned (fd_pool d) 24 8 = Ok (Some a, p)" "fd_pool d' = p"
    by (auto simp: new_extra_def split: option.splits)
  show ?thesis
    using small_object_out [of "fd_pool d" 24 False] p by (auto simp: arena_used_def)
qed

lemma read_back_used: "read_back_bits dx cmd e d = Ok (ok, d') \<Longrightarrow> arena_used 1 d d'"
  unfolding read_back_bits_def
  using new_extra_used by (fastforce simp: arena_used_def dest: on_buffer_pool)

lemma tdi_leading_used:
  assumes "tdi_leading dx tdi tdo f t cur d = Ok (ok, cur', d')"
  shows "arena_used (if cur = f \<and> numLeadingBits f t > 0 then 1 else 0) d d'"
  using assms by (auto simp: tdi_leading_def Let_def dest: read_back_used split: if_splits)

lemma tdi_trailing_used:
  assumes "tdi_trailing dx tdi tdo f t cur d = Ok (ok, cur', d')"
  shows "arena_used (if cur = innerEndIdx f t \<and> numTrailingBits f t > 0 then 1 else 0) d d'"
  using assms by (auto simp: tdi_trailing_def Let_def dest: read_back_used split: if_splits)

lemma tdi_last_used:
  assumes "tdi_last dx tdi tdo t hi cur d = Ok (ok, cur', d')"
  shows "arena_used (if cur = lastBitIdx t then 1 else 0) d d'"
  using assms by (auto simp: tdi_last_def Let_def dest: read_back_used split: if_splits)

lemma tdi_inner_used:
  assumes "tdi_inner dx tdi tdo f t cur d = Ok (ok, cur', d')"
  shows "arena_used 0 d d'"
  using assms by (auto simp: tdi_inner_def Let_def dest!: on_buffer_pool split: if_splits)

lemma append_tms_used:
  "append_tms_loop dx tms f t d = Ok (ok, d') \<Longrightarrow> fd_pool d' = fd_pool d"
proof (induction dx tms f t d arbitrary: ok d' rule: append_tms_loop.induct)
  case (1 dx tms f t d)
  show ?case
  proof (cases "f < t")
    case True
    let ?k = "c_min (t - f) 6"
    obtain cmd ok1 d1 where c: "tms_cmd (lastTdi d) tms f ?k = Ok cmd"
      "on_buffer (\<lambda>b i. ft_buffer_add_write_to_chip dx b i cmd 3) d = Ok (ok1, d1)"
      "(if \<not> ok1 then Ok (False, d1) else append_tms_loop dx tms (f + ?k) t d1) = Ok (ok, d')"
      using 1(2) True unfolding append_tms_loop.simps [of dx tms f t d] by (auto simp: Let_def)
    then show ?thesis
      using 1(1) [OF True refl c(1,2) refl] on_buffer_pool [OF c(2)] by (auto split: if_splits)
  qed (use 1(2) in \<open>simp add: append_tms_loop.simps [of dx tms f t d]\<close>)
qed

lemma and_then_Ok:
  "and_then m f = Ok (True, cur', d') \<longleftrightarrow> (\<exists>cur d. m = Ok (True, cur, d) \<and> f cur d = Ok (True, cur', d'))"
  by (auto simp: and_then_def split: if_splits)

lemma arena_used_weaken: "arena_used k d d' \<Longrightarrow> arena_used 0 d d'"
  by (auto simp: arena_used_def)

lemma tdi_iteration_used:
  assumes "tdi_iteration dx tdi tdo f t hi cur d = Ok (True, cur', d')"
  shows "arena_used 0 d d'"
proof -
  obtain c1 d1 c2 d2 where 1: "tdi_leading dx tdi tdo f t cur d = Ok (True, c1, d1)"
    and 2: "(if c1 < lastBitIdx t
               then and_then (tdi_inner dx tdi tdo f t c1 d1) (tdi_trailing dx tdi tdo f t)
               else Ok (True, c1, d1)) = Ok (True, c2, d2)"
    and 3: "tdi_last dx tdi tdo t hi c2 d2 = Ok (True, cur', d')"
    using assms by (auto simp: tdi_iteration_def and_then_Ok)
  have "arena_used 0 d1 d2"
    using 2 by (auto simp: and_then_Ok split: if_splits
        dest!: tdi_inner_used tdi_trailing_used [THEN arena_used_weaken] dest: arena_used_trans [where k = 0 and l = 0])
  then show ?thesis
    using tdi_leading_used [OF 1, THEN arena_used_weaken] tdi_last_used [OF 3, THEN arena_used_weaken]
      arena_used_trans [where k = 0 and l = 0] by (metis add_0)
qed

lemma append_tdi_loop_used:
  "append_tdi_loop n dx tdi tdo f t hi cur d = Ok (True, d') \<Longrightarrow> arena_used 0 d d'"
proof (induction n arbitrary: cur d)
  case (Suc n)
  show ?case
  proof (cases "cur < t")
    case True
    then obtain c d1 where "tdi_iteration dx tdi tdo f t hi cur d = Ok (True, c, d1)"
      "append_tdi_loop n dx tdi tdo f t hi c d1 = Ok (True, d')"
      using Suc.prems by (auto split: if_splits)
    then show ?thesis
      using arena_used_trans [OF tdi_iteration_used Suc.IH] by fastforce
  qed (use Suc.prems in simp)
qed (simp split: if_splits)

text \<open>A shift of three bits across an octet boundary takes three commands.\<close>

lemma three_bits:
  assumes "f mod 8 = 7" "0 \<le> f"
  shows "numLeadingBits f (f + 3) = 1" "innerEndIdx f (f + 3) = f + 1" "numTrailingBits f (f + 3) = 1"
    "lastBitIdx (f + 3) = f + 2"
proof -
  have m: "f smod 8 = 7" "(f + 2) mod 8 = 1" using assms by (simp_all add: smod_nonneg) presburger
  then have m2: "(2 + f) smod 8 = 1" using assms by (simp add: smod_nonneg add.commute)
  show l: "numLeadingBits f (f + 3) = 1"
    using m(1) by (simp add: numLeadingBits_def numRegularBits_def lastBitIdx_def c_min_def)
  show "lastBitIdx (f + 3) = f + 2" by (simp add: lastBitIdx_def)
  have "\<not> leadingOnly f (f + 3)" using l by (simp add: leadingOnly_def numRegularBits_def lastBitIdx_def)
  then show "innerEndIdx f (f + 3) = f + 1" "numTrailingBits f (f + 3) = 1"
    using m2 by (simp_all add: innerEndIdx_def numTrailingBits_def lastBitIdx_def add.commute)
qed

lemma three_bits_iteration:
  assumes f: "f mod 8 = 7" "0 \<le> f" and run: "tdi_iteration dx tdi tdo f (f + 3) hi f d = Ok (True, cur', d')"
  shows "arena_used 3 d d'"
proof -
  note b = three_bits [OF f]
  obtain c1 d1 c2 d2 where 1: "tdi_leading dx tdi tdo f (f + 3) f d = Ok (True, c1, d1)"
    and 2: "(if c1 < lastBitIdx (f + 3)
               then and_then (tdi_inner dx tdi tdo f (f + 3) c1 d1) (tdi_trailing dx tdi tdo f (f + 3))
               else Ok (True, c1, d1)) = Ok (True, c2, d2)"
    and 3: "tdi_last dx tdi tdo (f + 3) hi c2 d2 = Ok (True, cur', d')"
    using run by (auto simp: tdi_iteration_def and_then_Ok)
  have c1: "c1 = f + 1" using 1 by (auto simp: tdi_leading_def b Let_def split: if_splits)
  have "tdi_inner dx tdi tdo f (f + 3) c1 d1 = Ok (True, c1, d1)" by (simp add: tdi_inner_def b c1)
  then have t: "tdi_trailing dx tdi tdo f (f + 3) c1 d1 = Ok (True, c2, d2)"
    using 2 by (simp add: b(4) c1 and_then_Ok)
  then have "c2 = f + 2" by (auto simp: tdi_trailing_def b Let_def c1 split: if_splits)
  then have "arena_used 1 d d1" "arena_used 1 d1 d2" "arena_used 1 d2 d'"
    using tdi_leading_used [OF 1] tdi_trailing_used [OF t] tdi_last_used [OF 3] by (simp_all add: b c1)
  then have "arena_used (1 + (1 + 1)) d d'" by (intro arena_used_trans)
  then show ?thesis by (simp add: numeral_3_eq_3)
qed

definition event_need :: "split_event \<Rightarrow> nat" where
  "event_need e = (case e of
     Shift_tdi tdi tdo f t incomplete \<Rightarrow> if 0 \<le> f \<and> f mod 8 = 7 \<and> t = f + 3 then 3 else 0
   | _ \<Rightarrow> 0)"

lemma event_need_simps [simp]:
  "event_need (Shift_tdi tdi tdo f t inc) = (if 0 \<le> f \<and> f mod 8 = 7 \<and> t = f + 3 then 3 else 0)"
  "event_need (Shift_tms tms f t) = 0" "event_need Flush_all = 0"
  by (simp_all add: event_need_def)

lemma append_tdi_used:
  assumes "append_tdi_shift_to_transaction dx tdi tdo f t hi d = Ok (True, d')"
  shows "arena_used (event_need (Shift_tdi tdi tdo f t inc)) d d'"
proof (cases "0 \<le> f \<and> f mod 8 = 7 \<and> t = f + 3")
  case True
  then have "append_tdi_loop 3 dx tdi tdo f (f + 3) hi f d = Ok (True, d')"
    using assms by (auto simp: append_tdi_shift_to_transaction_def)
  then obtain c d1 where "tdi_iteration dx tdi tdo f (f + 3) hi f d = Ok (True, c, d1)"
    "append_tdi_loop 2 dx tdi tdo f (f + 3) hi c d1 = Ok (True, d')"
    by (auto simp: numeral_3_eq_3 numeral_2_eq_2 split: if_splits)
  then have "arena_used 3 d d1" "arena_used 0 d1 d'"
    using True three_bits_iteration append_tdi_loop_used by blast+
  then have "arena_used (3 + 0) d d'" by (rule arena_used_trans)
  then show ?thesis using True by simp
next
  case False
  then show ?thesis
    using assms append_tdi_loop_used
    by (auto simp: append_tdi_shift_to_transaction_def)
qed

lemma callback_used:
  assumes "jtag_splitter_callback dx e d = Ok (True, d')" "e \<noteq> Flush_all"
  shows "arena_used (event_need e) d d'"
proof (cases e)
  case (Shift_tms tms f t)
  then show ?thesis
    using assms(1) append_tms_used [of dx tms f t d True d']
    by (auto simp: append_tms_shift_to_transaction_def)
next
  case (Shift_tdi tdi tdo f t inc)
  then have "append_tdi_shift_to_transaction dx tdi tdo f t (\<not> inc) d = Ok (True, d')"
    using assms(1) by simp
  from append_tdi_used [OF this] show ?thesis unfolding Shift_tdi .
qed (use assms in simp)

lemma feed_used:
  "feed (jtag_splitter_callback dx) es d = Ok (True, d') \<Longrightarrow> Flush_all \<notin> set es \<Longrightarrow>
   arena_used (sum_list (map event_need es)) d d'"
proof (induction es arbitrary: d)
  case (Cons e es)
  then obtain d1 where "jtag_splitter_callback dx e d = Ok (True, d1)"
    "feed (jtag_splitter_callback dx) es d1 = Ok (True, d')"
    by (auto simp del: jtag_splitter_callback.simps split: if_splits)
  then show ?case
    using Cons.IH [of d1] Cons.prems(2) callback_used arena_used_trans by fastforce
qed simp

subsection \<open>A vector with many short shifts\<close>

text \<open>After the first octet the TAP is in Shift-DR and one bit has been shifted; each further octet
  shifts two more bits, visits Pause-DR and returns to shift a bit.\<close>

definition short_shifts :: "nat \<Rightarrow> u8 list" where
  "short_shifts m = 0x10 # replicate m 0x22"

definition block :: "bool list" where
  "block = [False, False, True, False, False, False, True, False]"

lemma vbits_short_shifts:
  "vbits (short_shifts m) 0 (8 * Suc m)
     = [False, False, False, False, True, False, False] @ concat (replicate m block) @ [False]"
proof (induction m)
  case 0
  show ?case by (simp add: short_shifts_def) code_simp
next
  case (Suc m)
  have s: "short_shifts (Suc m) = short_shifts m @ [0x22]"
    by (simp add: short_shifts_def replicate_append_same)
  have l: "8 * Suc m = 8 * length (short_shifts m)" by (simp add: short_shifts_def)
  have "vbits (short_shifts (Suc m)) 0 (8 * Suc (Suc m))
      = vbits (short_shifts (Suc m)) 0 (8 * Suc m)
        @ vbits (short_shifts (Suc m)) (8 * Suc m) (8 * Suc m + 8)"
    unfolding vbits_def map_append [symmetric] by (subst upt_add_eq_append [symmetric]) simp_all
  also have "vbits (short_shifts (Suc m)) (8 * Suc m) (8 * Suc m + 8) = vbits [0x22] 0 8"
    unfolding s l using vbits_append2 [of "short_shifts m" "[0x22]" 0 8] by simp
  also have "vbits (short_shifts (Suc m)) 0 (8 * Suc m) = vbits (short_shifts m) 0 (8 * Suc m)"
    unfolding s l by (rule vbits_append1) simp
  also have "vbits [0x22 :: u8] 0 8 = tl block @ [False]" by code_simp
  finally have e: "vbits (short_shifts (Suc m)) 0 (8 * Suc (Suc m))
      = vbits (short_shifts m) 0 (8 * Suc m) @ tl block @ [False]" .
  have "concat (replicate (Suc m) block) = concat (replicate m block) @ [False] @ tl block"
    unfolding replicate_Suc replicate_append_same [symmetric] by (simp add: block_def)
  then show ?case unfolding e Suc by simp
qed

text \<open>The events of the splitter for the blocks: each has a shift of three bits that begins with the
  last bit of an octet.\<close>

lemma block_events:
  assumes "i mod 8 = 7" "i + 8 < n"
  shows "split_bits n tms tdi tdo i i SHIFT_DR (block @ bs)
    = Shift_tdi tdi tdo (int i) (int i + 3) False # Shift_tms tms (int i + 3) (int i + 8)
      # split_bits n tms tdi tdo (i + 8) (i + 8) SHIFT_DR bs"
  using assms(2) by (simp add: block_def is_shift_def) (simp add: eval_nat_numeral)

lemma no_flush_event: "Flush_all \<notin> set (split_bits n tms tdi tdo fp i st bs)"
  by (induction n tms tdi tdo fp i st bs rule: split_bits.induct) auto

lemma blocks_need:
  assumes "i mod 8 = 7" "i + 8 * m < n"
  shows "3 * m \<le> sum_list (map event_need
    (split_bits n tms tdi tdo i i SHIFT_DR (concat (replicate m block) @ bs)))"
  using assms
proof (induction m arbitrary: i)
  case (Suc m)
  have "int i mod 8 = 7" using Suc.prems(1) by presburger
  moreover have "3 * m \<le> sum_list (map event_need
    (split_bits n tms tdi tdo (i + 8) (i + 8) SHIFT_DR (concat (replicate m block) @ bs)))"
    using Suc.prems by (intro Suc.IH) auto
  ultimately show ?case
    using Suc.prems by (simp add: block_events)
qed simp

lemma short_shifts_need:
  "3 * m \<le> sum_list (map event_need (split_bits (8 * Suc m) tms tdi tdo 0 0 TEST_LOGIC_RESET
     (vbits (short_shifts m) 0 (8 * Suc m))))"
proof -
  have "split_bits (8 * Suc m) tms tdi tdo 0 0 TEST_LOGIC_RESET
      ([False, False, False, False, True, False, False] @ bs)
    = Shift_tms tms 0 7 # split_bits (8 * Suc m) tms tdi tdo 7 7 SHIFT_DR bs" for bs
    by (simp add: is_shift_def) (simp add: eval_nat_numeral)
  then show ?thesis
    using blocks_need [of 7 m "8 * Suc m" tms tdi tdo "[False]"]
    unfolding vbits_short_shifts by simp
qed

text \<open>Shifting such a vector cannot succeed when its commands do not fit in the arena.\<close>

lemma short_shifts_abort:
  fixes d :: "'d chip ftdi"
  assumes r: "ready k clk dx sp d" and st: "sp_state sp = TEST_LOGIC_RESET"
    and m: "unat (pool_end (fd_pool d)) < unat (pool_start (fd_pool d)) + 72 * m" "8 * Suc m \<le> 2 ^ 31 - 8"
    and bufs: "Suc m \<le> length tdi" "mem (fd_io d) tdo = Some buf" "Suc m \<le> length buf"
  shows "shift_bits sp (int (8 * Suc m)) (short_shifts m) tdi tdo d = Fault FatalAbort"
proof -
  let ?n = "8 * Suc m" and ?cb = "jtag_splitter_callback dx" and ?tms = "short_shifts m"
  let ?es = "split_bits ?n ?tms tdi tdo 0 0 TEST_LOGIC_RESET (vbits ?tms 0 ?n)"
  have rf: "chip_d2xx clk dx" "drv_inv dx d" "quiet d" "sp_cb sp = Some ?cb"
    "is_shift (sp_state sp) \<longrightarrow> \<not> ch_tms (world (fd_io d))"
    using r by (simp_all add: ready_def)
  have len: "?n \<le> 8 * length ?tms" "?n \<le> 8 * length tdi" "?n \<le> 8 * length buf"
    using bufs by (simp_all add: short_shifts_def)
  obtain lv' buf' s' where cab: "cable clk (sp_state sp) (lastTdi d) (zip (vbits ?tms 0 ?n) (vbits tdi 0 ?n)) 0 buf
      (ch_dev (world (fd_io d))) = (lv', buf', s')" by (metis prod_cases3)
  have "c_out False (shift_bits sp (int ?n) ?tms tdi tdo d) (\<lambda>(ok, _). ok)"
    by (rule c_out_mono [OF shift_bits_chip [OF rf(1-3) FalseE rf(4,5) m(2) len bufs(2) cab]]) auto
  moreover have False if ok: "shift_bits sp (int ?n) ?tms tdi tdo d = Ok (True, sp', d')" for sp' d'
  proof -
    obtain d1 where d1: "feed ?cb ?es d = Ok (True, d1)"
      using ok splitter_refines_main [OF len(1) m(2) rf(4)]
      by (auto simp: shift_bits_def st feed_append simp del: feed.simps split: if_splits)
    have pool: "pool_ok (fd_pool d)" using rf(2) by (simp add: drv_inv_def)
    then have "unat (pool_start (fd_pool d)) \<le> unat (pool_head (fd_pool d))"
      by (simp add: pool_ok_def pool_wf_def word_le_nat_alt)
    moreover have "unat (pool_head (fd_pool d1)) \<le> unat (pool_end (fd_pool d1))"
      "same_arena (fd_pool d) (fd_pool d1)"
      "unat (pool_head (fd_pool d)) + 24 * (3 * m) \<le> unat (pool_head (fd_pool d1))"
      using feed_used [OF d1 no_flush_event] short_shifts_need [of m ?tms tdi tdo] pool
      by (auto simp: arena_used_def pool_ok_def pool_wf_def word_le_nat_alt)
    ultimately show False using m(1) by (simp add: same_arena_def)
  qed
  ultimately show ?thesis
    by (cases "shift_bits sp (int ?n) ?tms tdi tdo d") (auto simp: c_out_def)
qed

text \<open>C26. The limit is within reach of a client: \<open>max_vector_bits\<close>, which the server announces,
  allows vectors of 7296 bits and more on each of the chips, but right after a successful activation
  the vector of that length that visits Pause-DR in each octet makes the driver run out
  of the 64 KiB arena for its observers, and the whole program aborts. Hence a bound like the 1792
  bits of the properties that say that vectors are served cannot be dispensed with.\<close>
theorem announced_vector_aborts:
  assumes "load_config args (fd_params d) = (True, p)" "select_chip p = Some (n, Some c)"
    and "c = CHR 0x00 \<or> c = CHR ''A''"
    and "malloc 65536 = Some a" "unat a + 65536 < 2 ^ 63"
      "malloc 131072 = Some b" "unat b + 131072 < 2 ^ 63"
    and "ch_acc (world (fd_io d)) = []" "ch_out (world (fd_io d)) = []"
    and "length tdi = 912" "length buf = 912"
  shows "\<exists>sp' d'. activate malloc (ref_d2xx clk) args sp d = Ok (True, sp', d')
    \<and> 7296 \<le> max_vector_bits d'
    \<and> shift_bits sp' 7296 (0x10 # replicate 911 0x22) tdi tdo (set_mem tdo (Some buf) d') = Fault FatalAbort"
proof -
  obtain sp' d' where act: "activate malloc (ref_d2xx clk) args sp d = Ok (True, sp', d')"
    "ready 1792 clk (ref_d2xx clk) sp' d'" "sp_state sp' = TEST_LOGIC_RESET"
    "chipBufferBytes d' = n" "same_arena (ref_arena a 65536) (fd_pool d')"
    using activate_main [OF assms(1-9)] by blast
  let ?d = "set_mem tdo (Some buf) d'"
  have n: "7296 \<le> n * 8" using assms(2) by (auto simp: select_chip_def split: if_splits)
  have pool: "unat (pool_end (fd_pool d')) = unat a + 65536" "pool_start (fd_pool d') = a"
    using act(5) fresh_arena(3) [of malloc 65536 a] assms(4,5) by (simp_all add: same_arena_def ref_arena_def)
  have "shift_bits sp' (int (8 * Suc 911)) (short_shifts 911) tdi tdo ?d = Fault FatalAbort"
    by (rule short_shifts_abort [OF ready_set_mem [OF act(2)] act(3), where buf = buf])
       (simp_all add: pool assms(10,11))
  then show ?thesis
    using act n by (intro exI [of _ sp'] exI [of _ d']) (simp add: max_vector_bits_def short_shifts_def)
qed

theorem announced_vector_aborts_witness:
  "\<exists>sp' d'. activate (\<lambda>sz. if sz = 65536 then Some 0x10000 else Some 0x20000) (ref_d2xx bypass)
      [(''device'', ''ft232h''), (''vid'', ''0403''), (''pid'', ''6014''), (''channel'', ''A''),
       (''d4'', ''ignored''), (''d5'', ''driver_low''), (''d6'', ''driver_high''), (''d7'', ''ignored'')]
      \<lparr>sp_state = SHIFT_DR, sp_cb = None\<rparr> (ref_driver Map.empty (idle_chip True)) = Ok (True, sp', d')
    \<and> shift_bits sp' 7296 (0x10 # replicate 911 0x22) (replicate 912 0xff) 7
        (set_mem 7 (Some (replicate 912 0)) d') = Fault FatalAbort"
proof -
  let ?args = "[(''device'', ''ft232h''), (''vid'', ''0403''), (''pid'', ''6014''), (''channel'', ''A''),
       (''d4'', ''ignored''), (''d5'', ''driver_low''), (''d6'', ''driver_high''), (''d7'', ''ignored'')]"
  let ?d = "ref_driver Map.empty (idle_chip True)"
  let ?malloc = "\<lambda>sz. if sz = 65536 then Some 0x10000 else Some 0x20000"
  let ?r = "\<lparr>device = FT_DEVICE_2232H, vid = 0x403, pid = 0x6010, channel = CHR ''A'',
       read_latency_millis = 16, d_pins = replicate 8 PIN_ROLE_OTHER_IGNORED\<rparr>"
  have p: "fst (load_config ?args ?r)" "select_chip (snd (load_config ?args ?r)) = Some (1024, Some (CHR 0x00))"
    by code_simp+
  have "fd_params ?d = ?r" by (simp add: ref_driver_def)
  then have l: "load_config ?args (fd_params ?d) = (True, snd (load_config ?args ?r))"
    using p(1) by (cases "load_config ?args ?r") simp
  have c: "CHR 0x00 = CHR 0x00 \<or> CHR 0x00 = CHR ''A''" by simp
  have m: "?malloc 65536 = Some (0x10000 :: u64)" "unat (0x10000 :: u64) + 65536 < 2 ^ 63"
    "?malloc (131072 :: u64) = Some (0x20000 :: u64)" "unat (0x20000 :: u64) + 131072 < 2 ^ 63" by simp_all
  have w: "ch_acc (world (fd_io ?d)) = []" "ch_out (world (fd_io ?d)) = []"
    by (simp_all add: ref_driver_fields idle_chip_fields)
  have b: "length (replicate 912 0xff :: u8 list) = 912" "length (replicate 912 0 :: u8 list) = 912" by simp_all
  show ?thesis
    using announced_vector_aborts [OF l p(2) c m w b, of bypass "\<lparr>sp_state = SHIFT_DR, sp_cb = None\<rparr>" 7] by blast
qed

end
