(* ===== verification/Ftdi_Help.thy ===== *)
theory Ftdi_Help
  imports Ftdi_Config
begin

text \<open>
  The help text of \<open>libdrivers/ftdi_generic.c\<close>, which the list macros of the configuration loader
  expand to a second time, and its lines as a user reads them.
\<close>

definition newline :: string where "newline = [CHR 0x0A]"
definition quote :: "string \<Rightarrow> string" where "quote s = CHR 0x22 # s @ [CHR 0x22]"

subsection \<open>The lists\<close>

definition FTDI_SUPPORTED_DEVICES_LIST_ITEMS :: "(string \<times> ft_device \<times> string) list" where
  "FTDI_SUPPORTED_DEVICES_LIST_ITEMS =
     [(''ft2232h'', FT_DEVICE_2232H, ''FT2232H chip''),
      (''ft232h'', FT_DEVICE_232H, ''FT232H chip'')]"

definition FTDI_CHANNEL_LIST_ITEMS :: "(string \<times> char \<times> string) list" where
  "FTDI_CHANNEL_LIST_ITEMS =
     [(''A'', CHR ''A'', ''FTDI'' @ CHR 0x27 # '' ADBUS channel''),
      (''B'', CHR ''B'', ''FTDI'' @ CHR 0x27 # '' BDBUS channel'')]"

definition PIN_ROLE_LIST_ITEMS :: "(string \<times> pin_role \<times> string) list" where
  "PIN_ROLE_LIST_ITEMS =
     [(''driver_low'', PIN_ROLE_OTHER_DRIVER_LOW, ''permanent low level driver''),
      (''driver_high'', PIN_ROLE_OTHER_DRIVER_HIGH, ''permanent high level driver''),
      (''ignored'', PIN_ROLE_OTHER_IGNORED, ''ignored pin, configured as input'')]"

text \<open>Of the parameters the names and the descriptions.\<close>

definition PARAM_LIST_ITEMS :: "(string \<times> string) list" where
  "PARAM_LIST_ITEMS =
     [(''device'', ''FTDI chip type''),
      (''vid'', ''USB device vendor ID''),
      (''pid'', ''USB device product ID''),
      (''channel'', ''FTDI channel to use''),
      (''read_latency_millis'', ''FTDI latency timer duration''),
      (''d4'', ''D4 pin role''), (''d5'', ''D5 pin role''),
      (''d6'', ''D6 pin role''), (''d7'', ''D7 pin role'')]"

lemmas list_items = FTDI_SUPPORTED_DEVICES_LIST_ITEMS_def FTDI_CHANNEL_LIST_ITEMS_def
  PIN_ROLE_LIST_ITEMS_def PARAM_LIST_ITEMS_def

text \<open>The converters are the lookups the first expansion of the lists makes them.\<close>

lemma converters_look_up:
  "str_to_ft_device s = (case map_of FTDI_SUPPORTED_DEVICES_LIST_ITEMS s of
     None \<Rightarrow> - 1 | Some (v, descr) \<Rightarrow> v)"
  "str_to_ftdi_interface s = (case map_of FTDI_CHANNEL_LIST_ITEMS s of
     None \<Rightarrow> CHR ''?'' | Some (v, descr) \<Rightarrow> v)"
  "str_to_pin_role s = (case map_of PIN_ROLE_LIST_ITEMS s of
     None \<Rightarrow> PIN_ROLE_INVALID | Some (v, descr) \<Rightarrow> v)"
  by (simp_all add: list_items str_to_ft_device_def str_to_ftdi_interface_def str_to_pin_role_def)

subsection \<open>The help text\<close>

definition as_help_string :: "string \<times> string \<Rightarrow> string" where
  "as_help_string = (\<lambda>(name, descr). ''  '' @ quote name @ '' - '' @ descr @ newline)"

definition as_help_strings :: "(string \<times> 'v \<times> string) list \<Rightarrow> string" where
  "as_help_strings items = concat (map (\<lambda>(name, v, descr). as_help_string (name, descr)) items)"

definition ftdi_help :: string where
  "ftdi_help =
     ''Sends vectors to a device that is connected to JTAG pins of a MPSSE-capable FTDI chip,'' @
     '' which is connected to this machine USB'' @ newline @
     ''JTAG pins:'' @ newline @
     ''  '' @ quote ''d0'' @ '' - TCK'' @ newline @
     ''  '' @ quote ''d1'' @ '' - TDI'' @ newline @
     ''  '' @ quote ''d2'' @ '' - TDO'' @ newline @
     ''  '' @ quote ''d3'' @ '' - TMS'' @ newline @
     ''Parameters:'' @ newline @
     concat (map as_help_string PARAM_LIST_ITEMS) @
     ''Allowed pin roles:'' @ newline @
     as_help_strings PIN_ROLE_LIST_ITEMS @
     ''Allowed FTDI channels:'' @ newline @
     as_help_strings FTDI_CHANNEL_LIST_ITEMS @
     ''Allowed chip types'' @ newline @
     as_help_strings FTDI_SUPPORTED_DEVICES_LIST_ITEMS"

subsection \<open>Reading the text\<close>

text \<open>How a user reads it: sections with a heading of their own, and below it entries, indented
  lines that start with a name in quotes.\<close>

fun text_lines :: "string \<Rightarrow> string list" where
  "text_lines [] = []"
| "text_lines (c # cs) =
     (if c = CHR 0x0A then [] # text_lines cs
      else case text_lines cs of [] \<Rightarrow> [[c]] | l # ls \<Rightarrow> (c # l) # ls)"

fun entry_name :: "string \<Rightarrow> string option" where
  "entry_name (a # b # q # s) =
     (if a = CHR '' '' \<and> b = CHR '' '' \<and> q = CHR 0x22 then Some (takeWhile (\<lambda>c. c \<noteq> CHR 0x22) s)
      else None)"
| "entry_name s = None"

fun leading_entries :: "string list \<Rightarrow> string list" where
  "leading_entries [] = []"
| "leading_entries (l # ls) = (case entry_name l of None \<Rightarrow> [] | Some n \<Rightarrow> n # leading_entries ls)"

definition section_entries :: "string \<Rightarrow> string \<Rightarrow> string list" where
  "section_entries heading text = leading_entries (drop 1 (dropWhile (\<lambda>l. l \<noteq> heading) (text_lines text)))"

lemma text_lines_line:
  "CHR 0x0A \<notin> set l \<Longrightarrow> text_lines (l @ newline @ rest) = l # text_lines rest"
  by (induction l) (auto simp: newline_def)

lemma text_lines_concat:
  "list_all (\<lambda>l. CHR 0x0A \<notin> set l) ls \<Longrightarrow> text_lines (concat (map (\<lambda>l. l @ newline) ls)) = ls"
  by (induction ls) (simp_all add: text_lines_line)

definition entry :: "string \<times> string \<Rightarrow> string" where
  "entry = (\<lambda>(name, descr). ''  '' @ quote name @ '' - '' @ descr)"

definition entries :: "(string \<times> 'v \<times> string) list \<Rightarrow> string list" where
  "entries items = map (\<lambda>(name, v, descr). entry (name, descr)) items"

definition ftdi_help_lines :: "string list" where
  "ftdi_help_lines =
     [''Sends vectors to a device that is connected to JTAG pins of a MPSSE-capable FTDI chip,'' @
        '' which is connected to this machine USB'',
      ''JTAG pins:'', entry (''d0'', ''TCK''), entry (''d1'', ''TDI''), entry (''d2'', ''TDO''),
      entry (''d3'', ''TMS''),
      ''Parameters:''] @ map entry PARAM_LIST_ITEMS @
     ''Allowed pin roles:'' # entries PIN_ROLE_LIST_ITEMS @
     ''Allowed FTDI channels:'' # entries FTDI_CHANNEL_LIST_ITEMS @
     ''Allowed chip types'' # entries FTDI_SUPPORTED_DEVICES_LIST_ITEMS"

lemma ftdi_help_text: "ftdi_help = concat (map (\<lambda>l. l @ newline) ftdi_help_lines)"
  unfolding ftdi_help_def ftdi_help_lines_def list_items as_help_strings_def entries_def
  by (simp add: as_help_string_def entry_def newline_def)

lemma ftdi_help_text_lines: "text_lines ftdi_help = ftdi_help_lines"
  unfolding ftdi_help_text
  by (rule text_lines_concat)
     (simp add: ftdi_help_lines_def list_items entries_def entry_def quote_def)

lemma ftdi_help_sections:
  "section_entries ''Parameters:'' ftdi_help = map fst PARAM_LIST_ITEMS"
  "section_entries ''Allowed pin roles:'' ftdi_help = map fst PIN_ROLE_LIST_ITEMS"
  "section_entries ''Allowed FTDI channels:'' ftdi_help = map fst FTDI_CHANNEL_LIST_ITEMS"
  "section_entries ''Allowed chip types'' ftdi_help = map fst FTDI_SUPPORTED_DEVICES_LIST_ITEMS"
  by (simp_all add: section_entries_def ftdi_help_text_lines ftdi_help_lines_def list_items entries_def
      entry_def quote_def)

end
