(* ===== verification/Ftdi_Help_Truth.thy ===== *)
theory Ftdi_Help_Truth
  imports Ftdi_Help Ftdi_Device
begin

text \<open>
  What the help text of \<open>libdrivers/ftdi_generic.c\<close> says against what the configuration loader and
  the activation do with a profile.
\<close>

text \<open>One more argument at the end of a profile, where it overrides the others of its name.\<close>

lemma load_config_snoc:
  assumes "load_config args p0 = (ok, p)"
  shows "load_config (args @ [a]) p0 = (params_valid (apply_arg a p), apply_arg a p)"
  using assms by (auto simp: load_config_def Let_def)

lemma load_config_pins:
  assumes "length (d_pins p0) = 8" "load_config args p0 = (ok, p)"
  shows "length (d_pins p) = 8"
proof -
  have "length (d_pins (fold apply_arg args q)) = length (d_pins q)" for q
    by (induction args arbitrary: q) (auto simp: apply_arg_def)
  then show ?thesis using assms by (auto simp: load_config_def Let_def apply_defaults_def)
qed

lemma pin_listed:
  assumes "params_valid p" "length (d_pins p) = 8" "k \<in> {''d4'', ''d5'', ''d6'', ''d7''}"
  shows "params_valid (apply_arg (k, v) p) \<longleftrightarrow> str_to_pin_role v \<noteq> PIN_ROLE_INVALID"
  using assms by (auto simp: params_valid_def apply_arg_def)

lemma channel_listed:
  "params_valid p \<Longrightarrow> params_valid (apply_arg (''channel'', v) p) \<longleftrightarrow> str_to_ftdi_interface v \<noteq> CHR ''?''"
  by (simp add: params_valid_def apply_arg_def)

lemma device_passes: "params_valid p \<Longrightarrow> params_valid (apply_arg (''device'', v) p)"
  by (simp add: params_valid_def apply_arg_def str_to_ft_device_def FT_DEVICE_UNKNOWN_def
      FT_DEVICE_2232H_def FT_DEVICE_232H_def)

lemma device_selects:
  "select_chip (apply_arg (''device'', v) p) \<noteq> None \<longleftrightarrow> v = ''ft2232h'' \<or> v = ''ft232h''"
  by (simp add: select_chip_def apply_arg_def str_to_ft_device_def FT_DEVICE_2232H_def FT_DEVICE_232H_def)

text \<open>A parameter the loader knows is one that can change what it makes of a profile.\<close>

lemma invalid_changes:
  assumes "params_valid p" "\<not> params_valid (apply_arg (name, x) p)"
  shows "\<exists>v. apply_arg (name, v) p \<noteq> p"
  using assms by (intro exI [of _ x]) auto

lemma parameter_known:
  assumes "params_valid p" "length (d_pins p) = 8"
  shows "(\<exists>v. apply_arg (name, v) p \<noteq> p) \<longleftrightarrow> name \<in> set (map fst PARAM_LIST_ITEMS)"
proof
  assume "name \<in> set (map fst PARAM_LIST_ITEMS)"
  then have "name = ''device'' \<or> name \<in> {''vid'', ''pid'', ''channel'', ''read_latency_millis''}
      \<or> name \<in> {''d4'', ''d5'', ''d6'', ''d7''}"
    unfolding PARAM_LIST_ITEMS_def by (simp only: list.map fst_conv list.set insert_iff empty_iff simp_thms disj_assoc)
  then consider (1) "name = ''device''" | (2) "name \<in> {''vid'', ''pid'', ''channel'', ''read_latency_millis''}"
    | (3) "name \<in> {''d4'', ''d5'', ''d6'', ''d7''}" by (elim disjE)
  then show "\<exists>v. apply_arg (name, v) p \<noteq> p"
  proof cases
    case 1
    let ?v = "if device p = FT_DEVICE_232H then ''ft2232h'' else ''ft232h''"
    have "device (apply_arg (name, ?v) p) \<noteq> device p"
      using 1 by (simp add: apply_arg_def str_to_ft_device_def FT_DEVICE_2232H_def FT_DEVICE_232H_def)
    then show ?thesis by (intro exI [of _ ?v]) auto
  next
    case 2
    have "str_to_usb_id ''x'' = - 1" "str_to_ftdi_latency ''x'' = - 1" by code_simp+
    then have "\<not> params_valid (apply_arg (name, ''x'') p)"
      using 2 by (auto simp: params_valid_def apply_arg_def str_to_ftdi_interface_def)
    then show ?thesis by (rule invalid_changes [OF assms(1)])
  next
    case 3
    then have "\<not> params_valid (apply_arg (name, ''x'') p)"
      using pin_listed [OF assms, of name "''x''"] by (simp add: str_to_pin_role_def)
    then show ?thesis by (rule invalid_changes [OF assms(1)])
  qed
qed (rule ccontr, auto simp: apply_arg_def PARAM_LIST_ITEMS_def split: if_splits)

text \<open>C21. The help text of the FTDI driver tells the truth about what the driver does with any
  profile it accepts, if an argument is appended to it: the parameters listed are exactly those
  that can change the configuration, the pin roles and channels listed are exactly the values with
  which the profile is still accepted, and the chip types listed are exactly those the activation
  knows. (The loader itself lets any chip type pass.)\<close>
theorem ftdi_help_truthful:
  assumes "length (d_pins p0) = 8" "load_config args p0 = (True, p)"
  shows "(name \<in> set (section_entries ''Parameters:'' ftdi_help)
      \<longleftrightarrow> (\<exists>v. load_config (args @ [(name, v)]) p0 \<noteq> load_config args p0))
   \<and> (pin \<in> {''d4'', ''d5'', ''d6'', ''d7''} \<longrightarrow> (v \<in> set (section_entries ''Allowed pin roles:'' ftdi_help)
      \<longleftrightarrow> fst (load_config (args @ [(pin, v)]) p0)))
   \<and> (v \<in> set (section_entries ''Allowed FTDI channels:'' ftdi_help)
      \<longleftrightarrow> fst (load_config (args @ [(''channel'', v)]) p0))
   \<and> fst (load_config (args @ [(''device'', v)]) p0)
   \<and> (v \<in> set (section_entries ''Allowed chip types'' ftdi_help)
      \<longleftrightarrow> select_chip (snd (load_config (args @ [(''device'', v)]) p0)) \<noteq> None)"
proof -
  note snoc = load_config_snoc [OF assms(2)]
  have valid: "params_valid p" using assms(2) by (auto simp: load_config_def Let_def)
  have pins: "length (d_pins p) = 8" by (rule load_config_pins [OF assms])
  have "(\<exists>v. load_config (args @ [(name, v)]) p0 \<noteq> load_config args p0) \<longleftrightarrow> (\<exists>v. apply_arg (name, v) p \<noteq> p)"
    unfolding snoc assms(2) prod.inject using valid by (intro iff_exI) metis
  then show ?thesis
    unfolding ftdi_help_sections parameter_known [OF valid pins] snoc fst_conv snd_conv device_selects
      channel_listed [OF valid]
    using pin_listed [OF valid pins, of pin v] device_passes [OF valid, of v]
    by (auto simp: list_items converters_look_up)
qed

theorem ftdi_help_truthful_witness:
  "\<exists>p. load_config [(''device'', ''ft232h''), (''vid'', ''0403''), (''pid'', ''6014''),
       (''channel'', ''A''), (''d4'', ''ignored''), (''d5'', ''driver_low''),
       (''d6'', ''driver_high''), (''d7'', ''ignored'')]
     \<lparr>device = 0, vid = 0, pid = 0, channel = CHR 0x00, read_latency_millis = 0,
      d_pins = replicate 8 PIN_ROLE_INVALID\<rparr> = (True, p)
   \<and> (''driver_low'' \<in> set (section_entries ''Allowed pin roles:'' ftdi_help)
      \<longleftrightarrow> fst (load_config ([(''device'', ''ft232h''), (''vid'', ''0403''), (''pid'', ''6014''),
       (''channel'', ''A''), (''d4'', ''ignored''), (''d5'', ''driver_low''),
       (''d6'', ''driver_high''), (''d7'', ''ignored'')] @ [(''d4'', ''driver_low'')])
     \<lparr>device = 0, vid = 0, pid = 0, channel = CHR 0x00, read_latency_millis = 0,
      d_pins = replicate 8 PIN_ROLE_INVALID\<rparr>))"
proof -
  let ?args = "[(''device'', ''ft232h''), (''vid'', ''0403''), (''pid'', ''6014''),
       (''channel'', ''A''), (''d4'', ''ignored''), (''d5'', ''driver_low''),
       (''d6'', ''driver_high''), (''d7'', ''ignored'')]"
  let ?p = "\<lparr>device = 0, vid = 0, pid = 0, channel = CHR 0x00, read_latency_millis = 0,
      d_pins = replicate 8 PIN_ROLE_INVALID\<rparr>"
  have ok: "fst (load_config ?args ?p)" by code_simp
  then have load: "load_config ?args ?p = (True, snd (load_config ?args ?p))" by (simp add: prod_eq_iff)
  show ?thesis
    using ftdi_help_truthful [OF _ load, where pin = "''d4''" and v = "''driver_low''"] load
    by (intro exI [of _ "snd (load_config ?args ?p)"]) simp
qed

end
