(* ===== verification/Logger.thy ===== *)
theory Logger
  imports Txvc_Prelude
begin

text \<open>
  \<open>libtxvc/log.c\<close> and \<open>log.h\<close>: levels, tags that cache their resolution against the current
  configuration, and the logging call. A tag's \<open>isEnabled\<close> function pointer is one of three
  functions. The formatted message and the elapsed time are arguments, the printed line is a
  result. \<open>getTimeUs\<close> and the terminal test of \<open>initLogger\<close> are I/O: their results are arguments.

  \<open>txvc_log_tag_enabled\<close> and \<open>txvc_log\<close> call each other (a bad tag specification is itself
  logged), so they are partial: \<open>None\<close> means that the recursion never ends.
\<close>

datatype log_level =
  LOG_LEVEL_VERBOSE | LOG_LEVEL_INFO | LOG_LEVEL_WARN | LOG_LEVEL_ERROR | LOG_LEVEL_FATAL

primrec level_value :: "log_level \<Rightarrow> nat" where
  "level_value LOG_LEVEL_VERBOSE = 0"
| "level_value LOG_LEVEL_INFO = 1"
| "level_value LOG_LEVEL_WARN = 2"
| "level_value LOG_LEVEL_ERROR = 3"
| "level_value LOG_LEVEL_FATAL = 4"

lemma level_value_inj: "level_value a = level_value b \<Longrightarrow> a = b"
  by (cases a; cases b) simp_all

instantiation log_level :: linorder
begin

definition less_eq_log_level :: "log_level \<Rightarrow> log_level \<Rightarrow> bool" where
  "a \<le> b \<longleftrightarrow> level_value a \<le> level_value b"

definition less_log_level :: "log_level \<Rightarrow> log_level \<Rightarrow> bool" where
  "a < b \<longleftrightarrow> level_value a < level_value b"

instance
  by standard (auto simp: less_eq_log_level_def less_log_level_def dest: level_value_inj)

end

datatype tag_fn = Fn_txvc_log_tag_enabled | Fn_tag_enabled | Fn_tag_disabled

record log_tag =
  tag_str :: string
  isEnabled :: tag_fn
  curConfigId :: u32

record logger =
  gMinLevel :: log_level
  gColor :: bool
  gTagSpec :: "string option"
  gCurConfigId :: u32
  gWithTimestamps :: bool

definition TXVC_LOG_TAG_INITIALIZER :: "string \<Rightarrow> log_tag" where
  "TXVC_LOG_TAG_INITIALIZER tag =
     \<lparr>tag_str = tag, isEnabled = Fn_txvc_log_tag_enabled, curConfigId = 0\<rparr>"

text \<open>The static initial values.\<close>

definition logger_statics :: logger where
  "logger_statics = \<lparr>gMinLevel = LOG_LEVEL_ERROR, gColor = False, gTagSpec = None,
     gCurConfigId = 0, gWithTimestamps = False\<rparr>"

definition initLogger :: "bool \<Rightarrow> logger \<Rightarrow> logger" where
  "initLogger stdoutIsTerminal g = (if stdoutIsTerminal then g\<lparr>gColor := True\<rparr> else g)"

definition txvc_log_configure :: "string \<Rightarrow> log_level \<Rightarrow> bool \<Rightarrow> logger \<Rightarrow> logger" where
  "txvc_log_configure tagSpec minLevel withTimestamps g =
     g\<lparr>gTagSpec := Some tagSpec, gMinLevel := minLevel, gCurConfigId := gCurConfigId g + 1,
       gWithTimestamps := withTimestamps\<rparr>"

definition txvc_log_level_enabled :: "logger \<Rightarrow> log_level \<Rightarrow> bool" where
  "txvc_log_level_enabled g level \<longleftrightarrow> gMinLevel g \<le> level"

fun tag_enabled :: "log_tag \<Rightarrow> bool" where
  "tag_enabled tag = True"

fun tag_disabled :: "log_tag \<Rightarrow> bool" where
  "tag_disabled tag = False"

subsection \<open>Scanning the tag specification\<close>

text \<open>\<open>strpbrk(s, "+-")\<close> as the offset of what it finds, and \<open>strncmp(a, b, n) == 0\<close> on the
  characters before the NUL of each string.\<close>

fun strpbrk_sign :: "string \<Rightarrow> nat option" where
  "strpbrk_sign [] = None"
| "strpbrk_sign (c # cs) =
     (if c = CHR ''+'' \<or> c = CHR ''-'' then Some 0 else map_option Suc (strpbrk_sign cs))"

fun strncmp_eq :: "string \<Rightarrow> string \<Rightarrow> nat \<Rightarrow> bool" where
  "strncmp_eq a b 0 = True"
| "strncmp_eq [] [] (Suc n) = True"
| "strncmp_eq [] (y # ys) (Suc n) = False"
| "strncmp_eq (x # xs) [] (Suc n) = False"
| "strncmp_eq (x # xs) (y # ys) (Suc n) = (x = y \<and> strncmp_eq xs ys n)"

lemma strpbrk_sign_less: "strpbrk_sign s = Some n \<Longrightarrow> n < length s"
  by (induction s arbitrary: n) (auto split: if_splits)

text \<open>The \<open>for (;;)\<close> loop: what is left of the specification and the last resolution found.\<close>

function scan_tag_spec :: "string \<Rightarrow> string \<Rightarrow> bool option \<Rightarrow> string \<times> bool option" where
  "scan_tag_spec tagStr name enabled =
     (case strpbrk_sign name of
        None \<Rightarrow> (name, enabled)
      | Some nameLen \<Rightarrow>
          scan_tag_spec tagStr (drop (nameLen + 1) name)
            (if nameLen > 0 \<and> (strncmp_eq tagStr name nameLen \<or> strncmp_eq ''all'' name nameLen)
             then Some (name ! nameLen = CHR ''+'') else enabled))"
  by pat_completeness auto
termination
  by (relation "measure (\<lambda>(tagStr, name, enabled). length name)") (auto dest: strpbrk_sign_less)

declare scan_tag_spec.simps [simp del]

subsection \<open>Tag resolution and logging\<close>

text \<open>The temporary tag of the two \<open>FATAL\<close> messages about the specification.\<close>

definition logger_tag :: log_tag where
  "logger_tag = \<lparr>tag_str = ''logger'', isEnabled = Fn_tag_enabled, curConfigId = 0\<rparr>"

text \<open>The two \<open>txvc_log(&logger_tag, LOG_LEVEL_FATAL, ...)\<close> calls are written out: at this level
  \<open>txvc_log\<close> evaluates \<open>txvc_log_tag_enabled\<close> for its tag, prints and aborts (lemma
  \<open>tag_enabled_calls_log\<close> below states the recursion with \<open>txvc_log\<close> itself).\<close>

partial_function (option) txvc_log_tag_enabled ::
  "logger \<Rightarrow> log_tag \<Rightarrow> (bool \<times> log_tag) c_res option" where
  "txvc_log_tag_enabled g tag =
     (if curConfigId tag = gCurConfigId g \<and> isEnabled tag \<noteq> Fn_txvc_log_tag_enabled
      then Some (Ok (case isEnabled tag of
                       Fn_tag_enabled \<Rightarrow> tag_enabled tag | _ \<Rightarrow> tag_disabled tag, tag))
      else
        (case gTagSpec g of
           None \<Rightarrow> Some (Fault NullDeref)
         | Some spec \<Rightarrow>
             (if fst (scan_tag_spec (tag_str tag) spec None) \<noteq> []
              then Option.bind (txvc_log_tag_enabled g logger_tag)
                     (\<lambda>r. Some (c_bind r (\<lambda>_. Fault FatalAbort)))
              else
                (case snd (scan_tag_spec (tag_str tag) spec None) of
                   None \<Rightarrow> Option.bind (txvc_log_tag_enabled g logger_tag)
                             (\<lambda>r. Some (c_bind r (\<lambda>_. Fault FatalAbort)))
                 | Some enabled \<Rightarrow>
                     Some (Ok (enabled,
                       tag\<lparr>curConfigId := gCurConfigId g,
                           isEnabled := (if enabled then Fn_tag_enabled else Fn_tag_disabled)\<rparr>))))))"

fun level_name :: "log_level \<Rightarrow> char" where
  "level_name LOG_LEVEL_VERBOSE = CHR ''V''"
| "level_name LOG_LEVEL_INFO = CHR ''I''"
| "level_name LOG_LEVEL_WARN = CHR ''W''"
| "level_name LOG_LEVEL_ERROR = CHR ''E''"
| "level_name LOG_LEVEL_FATAL = CHR ''F''"

fun level_escape :: "logger \<Rightarrow> log_level \<Rightarrow> string" where
  "level_escape g level =
     (if \<not> gColor g then []
      else CHR 0x1B # (case level of
          LOG_LEVEL_VERBOSE \<Rightarrow> ''[0m'' | LOG_LEVEL_INFO \<Rightarrow> ''[32m'' | LOG_LEVEL_WARN \<Rightarrow> ''[33m''
        | LOG_LEVEL_ERROR \<Rightarrow> ''[31m'' | LOG_LEVEL_FATAL \<Rightarrow> ''[31m''))"

definition default_escape :: "logger \<Rightarrow> string" where
  "default_escape g = (if gColor g then CHR 0x1B # ''[0m'' else [])"

text \<open>\<open>printf\<close> conversions: decimal digits and padding on the left to a minimal width.\<close>

function decimal :: "nat \<Rightarrow> string" where
  "decimal n = (if n < 10 then [char_of (48 + n)] else decimal (n div 10) @ [char_of (48 + n mod 10)])"
  by pat_completeness auto
termination
  by (relation "measure id") auto

declare decimal.simps [simp del]

definition decimal_int :: "int \<Rightarrow> string" where
  "decimal_int i = (if i < 0 then CHR ''-'' # decimal (nat (- i)) else decimal (nat i))"

definition pad_left :: "nat \<Rightarrow> string \<Rightarrow> string" where
  "pad_left w s = replicate (w - length s) CHR '' '' @ s"

definition log_prefix :: "logger \<Rightarrow> log_tag \<Rightarrow> log_level \<Rightarrow> int \<Rightarrow> string" where
  "log_prefix g tag level elapsed =
     (if gWithTimestamps g then pad_left 10 (decimal_int elapsed) @ '':'' else [])
     @ pad_left 15 (tag_str tag) @ '': '' @ [level_name level] @ '': ''"

text \<open>\<open>txvc_log\<close>: the tag with its cached resolution and the line printed, if any; the prefix and
  the message share a buffer of 1024 characters. A \<open>FATAL\<close> message is printed and aborts.\<close>

definition txvc_log ::
  "logger \<Rightarrow> log_tag \<Rightarrow> log_level \<Rightarrow> int \<Rightarrow> string \<Rightarrow> (log_tag \<times> string option) c_res option" where
  "txvc_log g tag level elapsed msg =
     (if \<not> txvc_log_level_enabled g level then Some (Ok (tag, None))
      else Option.bind (txvc_log_tag_enabled g tag) (\<lambda>r. Some (c_bind r (\<lambda>(enabled, tag').
        if \<not> enabled \<and> level \<noteq> LOG_LEVEL_FATAL then Ok (tag', None)
        else if level = LOG_LEVEL_FATAL then Fault FatalAbort
        else Ok (tag', Some (level_escape g level
               @ take 1023 (log_prefix g tag' level elapsed @ msg) @ default_escape g))))))"

subsection \<open>Levels\<close>

lemma level_le_fatal [simp]: "level \<le> LOG_LEVEL_FATAL"
  by (cases level) (simp_all add: less_eq_log_level_def)

lemma fatal_enabled [simp]: "txvc_log_level_enabled g LOG_LEVEL_FATAL"
  by (simp add: txvc_log_level_enabled_def)

lemma txvc_log_fatal:
  "txvc_log g tag LOG_LEVEL_FATAL elapsed msg
   = Option.bind (txvc_log_tag_enabled g tag) (\<lambda>r. Some (c_bind r (\<lambda>_. Fault FatalAbort)))"
  by (simp add: txvc_log_def case_prod_unfold)

text \<open>The recursion as the source has it.\<close>

lemma tag_enabled_calls_log:
  assumes "curConfigId tag \<noteq> gCurConfigId g \<or> isEnabled tag = Fn_txvc_log_tag_enabled"
    and "gTagSpec g = Some spec"
    and "fst (scan_tag_spec (tag_str tag) spec None) \<noteq> []
       \<or> snd (scan_tag_spec (tag_str tag) spec None) = None"
  shows "txvc_log_tag_enabled g tag =
     map_option (\<lambda>r. c_bind r (\<lambda>_. Fault FatalAbort)) (txvc_log g logger_tag LOG_LEVEL_FATAL elapsed msg)"
proof -
  have "txvc_log_tag_enabled g tag = Option.bind (txvc_log_tag_enabled g logger_tag)
      (\<lambda>r. Some (c_bind r (\<lambda>_. Fault FatalAbort)))"
    using assms by (subst txvc_log_tag_enabled.simps) auto
  then show ?thesis
    by (cases "txvc_log_tag_enabled g logger_tag") (simp_all add: txvc_log_fatal c_bind_assoc)
qed
subsection \<open>Tag specifications\<close>

text \<open>A specification as the documentation has it: names, each followed by its sign.\<close>

type_synonym tag_entry = "string \<times> bool"

definition entry_str :: "tag_entry \<Rightarrow> string" where
  "entry_str e = fst e @ [if snd e then CHR ''+'' else CHR ''-'']"

definition spec_str :: "tag_entry list \<Rightarrow> string" where
  "spec_str es = concat (map entry_str es)"

definition plain_name :: "string \<Rightarrow> bool" where
  "plain_name n \<longleftrightarrow> CHR ''+'' \<notin> set n \<and> CHR ''-'' \<notin> set n"

text \<open>An entry applies to a tag if its name is a nonempty prefix of the tag's name or of
  \<open>all\<close>; the last entry that applies decides.\<close>

definition entry_applies :: "string \<Rightarrow> string \<Rightarrow> bool" where
  "entry_applies t n \<longleftrightarrow> n \<noteq> [] \<and> (take (length n) t = n \<or> take (length n) ''all'' = n)"

fun resolve :: "string \<Rightarrow> tag_entry list \<Rightarrow> bool option \<Rightarrow> bool option" where
  "resolve t [] d = d"
| "resolve t ((n, on) # es) d = resolve t es (if entry_applies t n then Some on else d)"

lemma strpbrk_sign_plain:
  "plain_name n \<Longrightarrow> strpbrk_sign (n @ (if on then CHR ''+'' else CHR ''-'') # rest) = Some (length n)"
  by (induction n) (auto simp: plain_name_def)

lemma strpbrk_sign_none [simp]: "plain_name n \<Longrightarrow> strpbrk_sign n = None"
  by (induction n) (auto simp: plain_name_def)

lemma strncmp_eq_prefix: "strncmp_eq a (n @ rest) (length n) \<longleftrightarrow> take (length n) a = n"
proof (induction n arbitrary: a)
  case (Cons c n)
  then show ?case by (cases a) auto
qed simp

text \<open>The scanning loop on a specification with something unsigned left at its end.\<close>

lemma scan_tag_spec_entries:
  assumes "list_all (plain_name \<circ> fst) es" "plain_name leftover"
  shows "scan_tag_spec t (spec_str es @ leftover) d = (leftover, resolve t es d)"
  using assms(1)
proof (induction es arbitrary: d)
  case Nil
  then show ?case using assms(2) by (simp add: spec_str_def scan_tag_spec.simps [of t leftover])
next
  case (Cons e es)
  obtain n on where e: "e = (n, on)" by (cases e)
  let ?c = "if on then CHR ''+'' else CHR ''-''"
  have spec: "spec_str (e # es) @ leftover = n @ ?c # (spec_str es @ leftover)"
    by (simp add: spec_str_def entry_str_def e)
  have n: "plain_name n" using Cons.prems e by simp
  have pl: "(?c = CHR ''+'') = on" by simp
  have cmp: "length n > 0 \<and> (strncmp_eq t (n @ ?c # (spec_str es @ leftover)) (length n)
      \<or> strncmp_eq ''all'' (n @ ?c # (spec_str es @ leftover)) (length n)) \<longleftrightarrow> entry_applies t n"
    by (simp only: strncmp_eq_prefix entry_applies_def length_greater_0_conv)
  have step: "scan_tag_spec t (n @ ?c # (spec_str es @ leftover)) d
      = scan_tag_spec t (spec_str es @ leftover) (if entry_applies t n then Some on else d)"
    by (subst scan_tag_spec.simps) (simp only: strpbrk_sign_plain [OF n] option.case cmp, simp add: pl nth_append)
  show ?case using Cons.IH Cons.prems unfolding spec step by (simp add: e)
qed

lemma tag_enabled_scans:
  assumes "curConfigId tag \<noteq> gCurConfigId g \<or> isEnabled tag = Fn_txvc_log_tag_enabled"
    and "gTagSpec g = Some (spec_str es)" "list_all (plain_name \<circ> fst) es"
    and "resolve (tag_str tag) es None = Some on"
  shows "txvc_log_tag_enabled g tag = Some (Ok (on, tag\<lparr>curConfigId := gCurConfigId g,
    isEnabled := (if on then Fn_tag_enabled else Fn_tag_disabled)\<rparr>))"
proof -
  have "scan_tag_spec (tag_str tag) (spec_str es) None = ([], Some on)"
    using scan_tag_spec_entries [OF assms(3), of "[]"] assms(4) by (simp add: plain_name_def)
  with assms(1,2) show ?thesis by (subst txvc_log_tag_enabled.simps) auto
qed

text \<open>A specification that ends in an unsigned name, or does not resolve the logger's own tag.\<close>

lemma tag_enabled_malformed:
  assumes bad: "leftover \<noteq> [] \<or> resolve ''logger'' es None = None"
    and spec: "gTagSpec g = Some (spec_str es @ leftover)"
    and plain: "list_all (plain_name \<circ> fst) es" "plain_name leftover"
    and id: "gCurConfigId g \<noteq> 0"
  shows "txvc_log_tag_enabled g logger_tag = None"
proof -
  note scan = scan_tag_spec_entries [OF plain]
  have "txvc_log_tag_enabled g' tag = Some r \<Longrightarrow> g' = g \<and> tag = logger_tag \<Longrightarrow> False" for g' tag r
  proof (rule txvc_log_tag_enabled.raw_induct [of "\<lambda>g' tag r. g' = g \<and> tag = logger_tag \<longrightarrow> False",
        rule_format])
    fix rec :: "logger \<Rightarrow> log_tag \<Rightarrow> (bool \<times> log_tag) c_res option"
    fix g' :: logger and tag r
    assume IH: "\<And>g' tag r. rec g' tag = Some r \<Longrightarrow> g' = g \<and> tag = logger_tag \<Longrightarrow> False"
    have norec: "rec g logger_tag = None"
      using IH [of g logger_tag] by (cases "rec g logger_tag") auto
    assume "g' = g \<and> tag = logger_tag"
    moreover assume "(if curConfigId tag = gCurConfigId g' \<and> isEnabled tag \<noteq> Fn_txvc_log_tag_enabled
      then Some (Ok (case isEnabled tag of
                       Fn_tag_enabled \<Rightarrow> tag_enabled tag | _ \<Rightarrow> tag_disabled tag, tag))
      else
        (case gTagSpec g' of
           None \<Rightarrow> Some (Fault NullDeref)
         | Some spec \<Rightarrow>
             (if fst (scan_tag_spec (tag_str tag) spec None) \<noteq> []
              then Option.bind (rec g' logger_tag) (\<lambda>r. Some (c_bind r (\<lambda>_. Fault FatalAbort)))
              else
                (case snd (scan_tag_spec (tag_str tag) spec None) of
                   None \<Rightarrow> Option.bind (rec g' logger_tag)
                             (\<lambda>r. Some (c_bind r (\<lambda>_. Fault FatalAbort)))
                 | Some enabled \<Rightarrow>
                     Some (Ok (enabled, tag\<lparr>curConfigId := gCurConfigId g',
                           isEnabled := (if enabled then Fn_tag_enabled else Fn_tag_disabled)\<rparr>)))))) = Some r"
    ultimately show False
      using bad spec scan id norec by (auto simp: logger_tag_def split: if_splits)
  qed
  then show ?thesis by (cases "txvc_log_tag_enabled g logger_tag") auto
qed

subsection \<open>Properties\<close>

text \<open>A tag that is not resolved under the current configuration is resolved by the last entry
  of the specification whose name is a nonempty prefix of the tag's name or of \<open>all\<close>, and the
  resolution is cached: asking again gives the same answer without touching the tag.\<close>
theorem tag_resolution:
  assumes "curConfigId tag \<noteq> gCurConfigId g \<or> isEnabled tag = Fn_txvc_log_tag_enabled"
    and "gTagSpec g = Some (spec_str es)" "list_all (plain_name \<circ> fst) es"
    and "resolve (tag_str tag) es None = Some on"
  shows "\<exists>tag'. txvc_log_tag_enabled g tag = Some (Ok (on, tag'))
    \<and> tag_str tag' = tag_str tag \<and> curConfigId tag' = gCurConfigId g
    \<and> txvc_log_tag_enabled g tag' = Some (Ok (on, tag'))"
  by (intro exI conjI, rule tag_enabled_scans [OF assms])
     (simp_all add: txvc_log_tag_enabled.simps)

theorem tag_resolution_witness:
  "\<exists>tag'. txvc_log_tag_enabled
      (txvc_log_configure ''ftdi+all-server+'' LOG_LEVEL_INFO False logger_statics)
      (TXVC_LOG_TAG_INITIALIZER ''ftdiGeneric'') = Some (Ok (False, tag'))"
proof -
  let ?es = "[(''ftdi'', True), (''all'', False), (''server'', True)]"
  have "spec_str ?es = ''ftdi+all-server+''" "list_all (plain_name \<circ> fst) ?es"
    "resolve ''ftdiGeneric'' ?es None = Some False"
    by (simp_all add: spec_str_def entry_str_def plain_name_def entry_applies_def)
  then show ?thesis
    using tag_resolution [of "TXVC_LOG_TAG_INITIALIZER ''ftdiGeneric''"
        "txvc_log_configure ''ftdi+all-server+'' LOG_LEVEL_INFO False logger_statics" ?es False]
    by (auto simp: TXVC_LOG_TAG_INITIALIZER_def txvc_log_configure_def logger_statics_def)
qed

text \<open>Reconfiguring invalidates the cached resolution: a tag resolved under the previous
  configuration answers by the new specification at its next use.\<close>
theorem reconfigure_resolves_again:
  assumes "curConfigId tag = gCurConfigId g" "list_all (plain_name \<circ> fst) es"
    and "resolve (tag_str tag) es None = Some on"
  shows "map_option (\<lambda>r. c_bind r (\<lambda>(enabled, tag'). Ok enabled))
      (txvc_log_tag_enabled (txvc_log_configure (spec_str es) minLevel ts g) tag) = Some (Ok on)"
proof -
  have "gCurConfigId (txvc_log_configure (spec_str es) minLevel ts g) \<noteq> gCurConfigId g"
    by (simp add: txvc_log_configure_def)
  with assms(1) have "curConfigId tag \<noteq> gCurConfigId (txvc_log_configure (spec_str es) minLevel ts g)"
    by simp
  moreover have "gTagSpec (txvc_log_configure (spec_str es) minLevel ts g) = Some (spec_str es)"
    by (simp add: txvc_log_configure_def)
  ultimately show ?thesis
    by (simp add: tag_enabled_scans [OF _ _ assms(2,3)])
qed

theorem reconfigure_resolves_again_witness:
  "map_option (\<lambda>r. c_bind r (\<lambda>(enabled, tag'). Ok enabled))
     (txvc_log_tag_enabled (txvc_log_configure (spec_str [(''all'', False)]) LOG_LEVEL_INFO False
        logger_statics) \<lparr>tag_str = ''server'', isEnabled = Fn_tag_enabled, curConfigId = 0\<rparr>)
   = Some (Ok False)"
  using reconfigure_resolves_again
    [of "\<lparr>tag_str = ''server'', isEnabled = Fn_tag_enabled, curConfigId = 0\<rparr>" logger_statics
      "[(''all'', False)]" False LOG_LEVEL_INFO False]
  by (simp add: logger_statics_def plain_name_def entry_applies_def)

lemma malformed_spec_no_return:
  assumes "leftover \<noteq> [] \<or> (resolve ''logger'' es None = None \<and> resolve (tag_str tag) es None = None)"
    and "gTagSpec g = Some (spec_str es @ leftover)"
    and "list_all (plain_name \<circ> fst) es" "plain_name leftover" "gCurConfigId g \<noteq> 0"
    and "isEnabled tag = Fn_txvc_log_tag_enabled" "gMinLevel g \<le> level"
  shows "txvc_log g tag level elapsed msg = None"
proof -
  have rec: "txvc_log_tag_enabled g logger_tag = None"
    using assms(1-5) by (intro tag_enabled_malformed) auto
  have "txvc_log_tag_enabled g tag = None"
    using assms rec scan_tag_spec_entries [OF assms(3,4), of "tag_str tag" None]
    by (subst txvc_log_tag_enabled.simps) auto
  with assms(7) show ?thesis by (simp add: txvc_log_def txvc_log_level_enabled_def)
qed

text \<open>A specification with something unsigned left at its end, or one without a resolution
  for the tag \<open>logger\<close>, is reported through \<open>txvc_log\<close> with a fresh \<open>logger\<close> tag, which runs into
  the same report again: an enabled logging call of an unresolved tag that meets the defect never
  returns and never prints the report it is meant to abort with.\<close>
theorem malformed_spec_diverges:
  assumes "leftover \<noteq> [] \<or> (resolve ''logger'' es None = None \<and> resolve (tag_str tag) es None = None)"
    and "gTagSpec g = Some (spec_str es @ leftover)"
    and "list_all (plain_name \<circ> fst) es" "plain_name leftover" "gCurConfigId g \<noteq> 0"
    and "isEnabled tag = Fn_txvc_log_tag_enabled" "gMinLevel g \<le> level"
  shows "txvc_log g tag level elapsed msg = None"
  using assms by (rule malformed_spec_no_return)

theorem malformed_spec_diverges_witness:
  "txvc_log (txvc_log_configure ''all+foo'' LOG_LEVEL_INFO False logger_statics)
     (TXVC_LOG_TAG_INITIALIZER ''txvc'') LOG_LEVEL_INFO 0 ''Found alias'' = None"
proof -
  have "spec_str [(''all'', True)] @ ''foo'' = ''all+foo''"
    by (simp add: spec_str_def entry_str_def)
  then show ?thesis
    by (intro malformed_spec_diverges [of "''foo''" "[(''all'', True)]"])
       (simp_all add: txvc_log_configure_def logger_statics_def plain_name_def
          TXVC_LOG_TAG_INITIALIZER_def)
qed

text \<open>A well-formed specification that resolves \<open>logger\<close> but not the tag in use aborts with a
  \<open>FATAL\<close> message, as intended.\<close>
theorem unresolved_tag_aborts:
  assumes "resolve ''logger'' es None = Some on" "resolve (tag_str tag) es None = None"
    and "gTagSpec g = Some (spec_str es)" "list_all (plain_name \<circ> fst) es"
    and "gCurConfigId g \<noteq> 0"
    and "isEnabled tag = Fn_txvc_log_tag_enabled" "gMinLevel g \<le> level"
  shows "txvc_log g tag level elapsed msg = Some (Fault FatalAbort)"
proof -
  have "\<exists>t. txvc_log_tag_enabled g logger_tag = Some (Ok (on, t))"
    using tag_enabled_scans [of logger_tag g es on] assms(1,3,4,5)
    by (simp add: logger_tag_def)
  moreover have "scan_tag_spec (tag_str tag) (spec_str es) None = ([], None)"
    using scan_tag_spec_entries [OF assms(4), of "[]"] assms(2) by (simp add: plain_name_def)
  ultimately have "txvc_log_tag_enabled g tag = Some (Fault FatalAbort)"
    using assms(3,6) by (subst txvc_log_tag_enabled.simps) auto
  with assms(7) show ?thesis by (simp add: txvc_log_def txvc_log_level_enabled_def)
qed

theorem unresolved_tag_aborts_witness:
  "txvc_log (txvc_log_configure ''logger+foo-'' LOG_LEVEL_INFO False logger_statics)
     (TXVC_LOG_TAG_INITIALIZER ''txvc'') LOG_LEVEL_INFO 0 ''Found alias'' = Some (Fault FatalAbort)"
proof -
  have "spec_str [(''logger'', True), (''foo'', False)] = ''logger+foo-''"
    by (simp add: spec_str_def entry_str_def)
  then show ?thesis
    by (intro unresolved_tag_aborts [of "[(''logger'', True), (''foo'', False)]" True])
       (simp_all add: txvc_log_configure_def logger_statics_def plain_name_def entry_applies_def
          TXVC_LOG_TAG_INITIALIZER_def)
qed

text \<open>A \<open>FATAL\<close> message never returns to its caller, whatever the levels and tags are set to:
  the assertions of the program stop it even when their tag is disabled.\<close>
theorem fatal_never_returns:
  "txvc_log g tag LOG_LEVEL_FATAL elapsed msg \<noteq> Some (Ok r)"
  by (auto simp: txvc_log_fatal split: bind_splits)

text \<open>What a call prints is decided by the level and the tag alone: nothing for a level below
  the configured one (the tag is not even resolved) or a disabled tag, else the escape sequence
  of the level and at most 1023 characters of prefix and message.\<close>
theorem log_filter:
  assumes "level \<noteq> LOG_LEVEL_FATAL" "txvc_log_tag_enabled g tag = Some (Ok (on, tag'))"
  shows "txvc_log g tag level elapsed msg = Some (Ok (
    if level < gMinLevel g then (tag, None)
    else if \<not> on then (tag', None)
    else (tag', Some (level_escape g level @ take 1023 (log_prefix g tag' level elapsed @ msg)
           @ default_escape g))))"
  using assms by (auto simp: txvc_log_def txvc_log_level_enabled_def not_less)

theorem log_filter_witness:
  "\<exists>tag'. txvc_log (txvc_log_configure ''all+'' LOG_LEVEL_INFO False logger_statics)
     (TXVC_LOG_TAG_INITIALIZER ''txvc'') LOG_LEVEL_WARN 0 ''hi''
   = Some (Ok (tag', Some ''           txvc: W: hi''))"
proof -
  let ?g = "txvc_log_configure ''all+'' LOG_LEVEL_INFO False logger_statics"
  have "spec_str [(''all'', True)] = ''all+''" by (simp add: spec_str_def entry_str_def)
  then have "\<exists>tag'. txvc_log_tag_enabled ?g (TXVC_LOG_TAG_INITIALIZER ''txvc'')
       = Some (Ok (True, tag')) \<and> tag_str tag' = ''txvc''"
    using tag_enabled_scans [of "TXVC_LOG_TAG_INITIALIZER ''txvc''" ?g "[(''all'', True)]" True]
    by (simp add: TXVC_LOG_TAG_INITIALIZER_def txvc_log_configure_def plain_name_def
        entry_applies_def)
  then obtain tag' where "txvc_log_tag_enabled ?g (TXVC_LOG_TAG_INITIALIZER ''txvc'')
       = Some (Ok (True, tag'))" "tag_str tag' = ''txvc''" by blast
  moreover from log_filter [OF _ this(1), of LOG_LEVEL_WARN 0 "''hi''"]
  have "txvc_log ?g (TXVC_LOG_TAG_INITIALIZER ''txvc'') LOG_LEVEL_WARN 0 ''hi'' = Some (Ok (
    if LOG_LEVEL_WARN < gMinLevel ?g then (TXVC_LOG_TAG_INITIALIZER ''txvc'', None)
    else (tag', Some (level_escape ?g LOG_LEVEL_WARN
           @ take 1023 (log_prefix ?g tag' LOG_LEVEL_WARN 0 @ ''hi'')
           @ default_escape ?g))))" by simp
  ultimately show ?thesis
    by (simp add: txvc_log_configure_def logger_statics_def log_prefix_def pad_left_def
        default_escape_def less_log_level_def numeral_eq_Suc)
qed

end
