(* ===== verification/Tiny_Test.thy ===== *)
theory Tiny_Test
  imports Logger
begin

text \<open>
  \<open>libtinytest\<close>: the unit test runner of \<open>runner.c\<close> and the assertions of \<open>assertion.c\<close>, with the
  registration that the macros of \<open>test.h\<close> expand to.

  A test function is code of the program under test. What the library sees of it is the sequence
  of failures it reports, so it is modelled as a function on the state of that program that gives
  the state it leaves and those failures. \<open>setjmp\<close> and \<open>longjmp\<close> are the outcome of a call:
  \<open>Jumped\<close> is a second return of the \<open>setjmp\<close> executed last. Suites are objects named by
  references, because they are registered before their cases are. The text of a failure is what
  \<open>vsnprintf\<close> makes of its format, \<open>None\<close> if it reports an error.
\<close>

abbreviation NL :: char where
  "NL \<equiv> CHR 0x0A"

subsection \<open>The message buffer\<close>

record strbuf =
  sb_str :: string
  sb_sz :: nat

definition wr_string :: "string \<Rightarrow> nat \<Rightarrow> string \<Rightarrow> string c_res" where
  "wr_string dst i src =
     (if i + length src \<le> length dst
      then Ok (take i dst @ src @ drop (i + length src) dst) else Fault OutOfBounds)"

definition strbuf_reset :: "strbuf \<Rightarrow> strbuf c_res" where
  "strbuf_reset sb = c_bind (wr_string (sb_str sb) 0 [NUL]) (\<lambda>str.
     Ok (sb\<lparr>sb_str := str, sb_sz := 0\<rparr>))"

definition strbuf_vappend :: "strbuf \<Rightarrow> string option \<Rightarrow> strbuf c_res" where
  "strbuf_vappend sb formatted =
     (if 4096 \<le> sb_sz sb + 1 then Ok sb
      else let avail = 4096 - sb_sz sb in
        case formatted of
          None \<Rightarrow> Ok sb
        | Some s \<Rightarrow>
            c_bind (wr_string (sb_str sb) (sb_sz sb) (take (avail - 1) s @ [NUL])) (\<lambda>str.
              let len = length s in
              Ok (sb\<lparr>sb_str := str, sb_sz := sb_sz sb + (if len > avail then avail else len)\<rparr>)))"

definition strbuf_append :: "strbuf \<Rightarrow> string \<Rightarrow> strbuf c_res" where
  "strbuf_append sb s = strbuf_vappend sb (Some s)"

text \<open>\<open>fputs(messages.str)\<close>: reading past the array would be undefined.\<close>

definition c_string :: "string \<Rightarrow> string c_res" where
  "c_string str = (if NUL \<in> set str then Ok (takeWhile (\<lambda>c. c \<noteq> NUL) str) else Fault OutOfBounds)"

subsection \<open>Failures\<close>

record failure =
  fl_file :: string
  fl_line :: int
  fl_fatal :: bool
  fl_text :: "string option"

record test_context =
  failed :: bool
  messages :: strbuf

datatype flow = Returned | Jumped

definition ttest_mark_current_case_as_failed ::
  "failure \<Rightarrow> test_context \<Rightarrow> (flow \<times> test_context) c_res" where
  "ttest_mark_current_case_as_failed f ctx =
     c_bind (strbuf_append (messages ctx) (fl_file f @ '':'' @ decimal_int (fl_line f) @ '': '')) (\<lambda>sb.
     c_bind (strbuf_vappend sb (fl_text f)) (\<lambda>sb.
     c_bind (strbuf_append sb [NL]) (\<lambda>sb.
       Ok (if fl_fatal f then Jumped else Returned, ctx\<lparr>failed := True, messages := sb\<rparr>))))"

type_synonym 's test_fn = "'s \<Rightarrow> 's \<times> failure list"

fun report_all :: "failure list \<Rightarrow> test_context \<Rightarrow> (flow \<times> test_context) c_res" where
  "report_all [] ctx = Ok (Returned, ctx)"
| "report_all (f # fs) ctx =
     c_bind (ttest_mark_current_case_as_failed f ctx) (\<lambda>(fl, ctx).
       if fl = Jumped then Ok (Jumped, ctx) else report_all fs ctx)"

definition call_test_fn ::
  "'s test_fn \<Rightarrow> 's \<Rightarrow> test_context \<Rightarrow> (flow \<times> 's \<times> test_context) c_res" where
  "call_test_fn fn s ctx = (case fn s of (s', fs) \<Rightarrow>
     c_bind (report_all fs ctx) (\<lambda>(fl, ctx). Ok (fl, s', ctx)))"

definition ttest_noop :: "'s test_fn" where
  "ttest_noop s = (s, [])"

subsection \<open>Suites and their registration\<close>

record 's test_case =
  tc_name :: string
  testFn :: "'s test_fn"

record 's test_suite =
  ts_name :: string
  cases :: "'s test_case list"
  beforeCaseFn :: "'s test_fn"
  afterCaseFn :: "'s test_fn"

type_synonym suite_ref = nat

record 's tiny_test =
  suites :: "suite_ref list"
  numFailedCases :: int
  numCasesTotal :: int
  suite_at :: "suite_ref \<Rightarrow> 's test_suite"

definition MAX_SUITES :: nat where "MAX_SUITES = 100"
definition MAX_CASES_PER_SUITE :: nat where "MAX_CASES_PER_SUITE = 100"

definition ttest_private_register_suite :: "suite_ref \<Rightarrow> 's tiny_test \<Rightarrow> 's tiny_test c_res" where
  "ttest_private_register_suite suite t =
     (if length (suites t) < MAX_SUITES then Ok (t\<lparr>suites := suites t @ [suite]\<rparr>)
      else Fault FatalAbort)"

definition ttest_private_register_case ::
  "suite_ref \<Rightarrow> 's test_case \<Rightarrow> 's tiny_test \<Rightarrow> 's tiny_test c_res" where
  "ttest_private_register_case suite caseObj t =
     (let su = suite_at t suite in
      if length (cases su) < MAX_CASES_PER_SUITE
      then Ok (t\<lparr>suite_at := (suite_at t)(suite := su\<lparr>cases := cases su @ [caseObj]\<rparr>)\<rparr>)
      else Fault FatalAbort)"

text \<open>The constructors that \<open>TEST_SUITE\<close>, \<open>DO_BEFORE_EACH_CASE\<close>, \<open>DO_AFTER_EACH_CASE\<close> and
  \<open>TEST_CASE\<close> define run before \<open>main\<close>.\<close>

datatype 's ctor =
    RegisterSuite suite_ref
  | RegisterBeforeFn suite_ref "'s test_fn"
  | RegisterAfterFn suite_ref "'s test_fn"
  | RegisterCase suite_ref "'s test_case"

fun run_ctor :: "'s ctor \<Rightarrow> 's tiny_test \<Rightarrow> 's tiny_test c_res" where
  "run_ctor (RegisterSuite r) t = ttest_private_register_suite r t"
| "run_ctor (RegisterBeforeFn r fn) t =
     Ok (t\<lparr>suite_at := (suite_at t)(r := (suite_at t r)\<lparr>beforeCaseFn := fn\<rparr>)\<rparr>)"
| "run_ctor (RegisterAfterFn r fn) t =
     Ok (t\<lparr>suite_at := (suite_at t)(r := (suite_at t r)\<lparr>afterCaseFn := fn\<rparr>)\<rparr>)"
| "run_ctor (RegisterCase r c) t = ttest_private_register_case r c t"

fun run_ctors :: "'s ctor list \<Rightarrow> 's tiny_test \<Rightarrow> 's tiny_test c_res" where
  "run_ctors [] t = Ok t"
| "run_ctors (c # cs) t = c_bind (run_ctor c t) (run_ctors cs)"

text \<open>The static objects before that.\<close>

definition new_suite :: "string \<Rightarrow> 's test_suite" where
  "new_suite name =
     \<lparr>ts_name = name, cases = [], beforeCaseFn = ttest_noop, afterCaseFn = ttest_noop\<rparr>"

definition gTinyTest :: "(suite_ref \<Rightarrow> string) \<Rightarrow> 's tiny_test" where
  "gTinyTest names = \<lparr>suites = [], numFailedCases = 0, numCasesTotal = 0,
     suite_at = (\<lambda>r. new_suite (names r))\<rparr>"

subsection \<open>Running\<close>

text \<open>A case: the three \<open>setjmp\<close> blocks, and what is printed.\<close>

definition case_output :: "string \<Rightarrow> string \<Rightarrow> bool \<Rightarrow> string \<Rightarrow> string" where
  "case_output suite case_name hasFailed text =
     ''['' @ suite @ ''] ['' @ case_name @ ''] - '' @ (if hasFailed then ''FAILED'' else ''OK'') @ [NL]
       @ text @ [NL]"

definition run_case ::
  "'s test_suite \<Rightarrow> 's test_case \<Rightarrow> 's tiny_test \<Rightarrow> test_context \<Rightarrow> 's \<Rightarrow> string \<Rightarrow>
   ('s tiny_test \<times> test_context \<times> 's \<times> string) c_res" where
  "run_case vSuite vCase t ctx s out =
     c_bind (c_int (numCasesTotal t + 1)) (\<lambda>total.
     c_bind (strbuf_reset (messages ctx)) (\<lambda>sb.
     c_bind (call_test_fn (beforeCaseFn vSuite) s \<lparr>failed = False, messages = sb\<rparr>) (\<lambda>(fl, s, ctx).
     c_bind (if fl = Jumped then Ok (s, ctx)
             else c_bind (call_test_fn (testFn vCase) s ctx) (\<lambda>(_, s, ctx).
                  c_bind (call_test_fn (afterCaseFn vSuite) s ctx) (\<lambda>(_, s, ctx). Ok (s, ctx))))
       (\<lambda>(s, ctx).
       let t = t\<lparr>numCasesTotal := total\<rparr> in
       if failed ctx then
         c_bind (c_string (sb_str (messages ctx))) (\<lambda>text.
         c_bind (c_int (numFailedCases t + 1)) (\<lambda>n.
           Ok (t\<lparr>numFailedCases := n\<rparr>, ctx, s,
               out @ case_output (ts_name vSuite) (tc_name vCase) True text)))
       else Ok (t, ctx, s, out @ case_output (ts_name vSuite) (tc_name vCase) False [])))))"

fun run_cases ::
  "'s test_suite \<Rightarrow> 's test_case list \<Rightarrow> 's tiny_test \<Rightarrow> test_context \<Rightarrow> 's \<Rightarrow> string \<Rightarrow>
   ('s tiny_test \<times> test_context \<times> 's \<times> string) c_res" where
  "run_cases su [] t ctx s out = Ok (t, ctx, s, out)"
| "run_cases su (c # cs) t ctx s out =
     c_bind (run_case su c t ctx s out) (\<lambda>(t, ctx, s, out). run_cases su cs t ctx s out)"

fun run_suites ::
  "suite_ref list \<Rightarrow> 's tiny_test \<Rightarrow> test_context \<Rightarrow> 's \<Rightarrow> string \<Rightarrow>
   ('s tiny_test \<times> test_context \<times> 's \<times> string) c_res" where
  "run_suites [] t ctx s out = Ok (t, ctx, s, out)"
| "run_suites (r # rs) t ctx s out =
     c_bind (run_cases (suite_at t r) (cases (suite_at t r)) t ctx s out) (\<lambda>(t, ctx, s, out).
       run_suites rs t ctx s out)"

definition ttest_run_all ::
  "'s tiny_test \<Rightarrow> test_context \<Rightarrow> 's \<Rightarrow> string \<Rightarrow> (bool \<times> 's tiny_test \<times> 's \<times> string) c_res" where
  "ttest_run_all t ctx s out =
     c_bind (run_suites (suites t) t ctx s out) (\<lambda>(t, ctx, s, out).
       Ok (numFailedCases t = 0, t, s,
           out @ ''Total: '' @ decimal_int (numCasesTotal t) @ '', failed: ''
             @ decimal_int (numFailedCases t) @ [NL]))"

subsection \<open>Assertions\<close>

text \<open>The failure an assertion reports, if it reports one.\<close>

definition fail_at :: "string \<Rightarrow> int \<Rightarrow> bool \<Rightarrow> string \<Rightarrow> failure option" where
  "fail_at file line isFatal text =
     Some \<lparr>fl_file = file, fl_line = line, fl_fatal = isFatal, fl_text = Some text\<rparr>"

definition check_boolean ::
  "string \<Rightarrow> int \<Rightarrow> bool \<Rightarrow> bool \<Rightarrow> bool \<Rightarrow> string \<Rightarrow> failure option" where
  "check_boolean file line isFatal expected actual expression =
     (if expected = actual then None
      else fail_at file line isFatal
             (''<'' @ expression @ ''> is not <'' @ (if expected then ''true'' else ''false'') @ ''>''))"

definition check_equal_for ::
  "('a \<Rightarrow> string) \<Rightarrow> string \<Rightarrow> int \<Rightarrow> bool \<Rightarrow> bool \<Rightarrow> 'a \<Rightarrow> 'a \<Rightarrow> failure option" where
  "check_equal_for formatSpec file line isFatal invert expected actual =
     (let eq = (expected = actual) in
      if \<not> invert \<and> eq \<or> invert \<and> \<not> eq then None
      else fail_at file line isFatal
             ((if invert then ''not '' else []) @ ''expected <'' @ formatSpec expected
               @ ''> but got <'' @ formatSpec actual @ ''>''))"

definition check_equal_char ::
  "string \<Rightarrow> int \<Rightarrow> bool \<Rightarrow> bool \<Rightarrow> char \<Rightarrow> char \<Rightarrow> failure option" where
  "check_equal_char = check_equal_for (\<lambda>c. [c])"

definition check_equal_sint ::
  "string \<Rightarrow> int \<Rightarrow> bool \<Rightarrow> bool \<Rightarrow> 32 word \<Rightarrow> 32 word \<Rightarrow> failure option" where
  "check_equal_sint = check_equal_for (\<lambda>i. decimal_int (sint i))"

definition check_equal_uint ::
  "string \<Rightarrow> int \<Rightarrow> bool \<Rightarrow> bool \<Rightarrow> 32 word \<Rightarrow> 32 word \<Rightarrow> failure option" where
  "check_equal_uint = check_equal_for (\<lambda>i. decimal (unat i))"

definition check_equal_slong ::
  "string \<Rightarrow> int \<Rightarrow> bool \<Rightarrow> bool \<Rightarrow> 64 word \<Rightarrow> 64 word \<Rightarrow> failure option" where
  "check_equal_slong = check_equal_for (\<lambda>i. decimal_int (sint i))"

definition check_equal_ulong ::
  "string \<Rightarrow> int \<Rightarrow> bool \<Rightarrow> bool \<Rightarrow> 64 word \<Rightarrow> 64 word \<Rightarrow> failure option" where
  "check_equal_ulong = check_equal_for (\<lambda>i. decimal (unat i))"


text \<open>\<open>strcmp\<close> on strings without their NUL.\<close>

definition check_equal_cstr ::
  "string \<Rightarrow> int \<Rightarrow> bool \<Rightarrow> bool \<Rightarrow> string \<Rightarrow> string \<Rightarrow> failure option" where
  "check_equal_cstr = check_equal_for (\<lambda>s. s)"


definition hex_digit :: "nat \<Rightarrow> char" where
  "hex_digit n = (if n < 10 then char_of (48 + n) else char_of (87 + n))"

definition hex2 :: "u8 \<Rightarrow> string" where
  "hex2 b = [hex_digit (unat b div 16), hex_digit (unat b mod 16)]"

text \<open>The index of the first difference is stored in an \<open>int\<close>.\<close>

fun first_different :: "u8 list \<Rightarrow> u8 list \<Rightarrow> nat \<Rightarrow> nat \<Rightarrow> int c_res" where
  "first_different p q i 0 = Ok (- 1)"
| "first_different p q i (Suc n) =
     c_bind (rd_at p (int i)) (\<lambda>a. c_bind (rd_at q (int i)) (\<lambda>b.
       if a \<noteq> b then Ok (sint (of_nat i :: 32 word)) else first_different p q (Suc i) n))"

definition check_equal_span ::
  "string \<Rightarrow> int \<Rightarrow> bool \<Rightarrow> bool \<Rightarrow> u8 list \<times> u32 \<Rightarrow> u8 list \<times> u32 \<Rightarrow> failure option c_res" where
  "check_equal_span file line isFatal invert expected actual =
     (case (expected, actual) of ((p, n), (q, m)) \<Rightarrow>
        let sameLen = (n = m) in
        c_bind (if sameLen then first_different p q 0 (unat n) else Ok (- 1)) (\<lambda>firstDifferent.
        let eq = (sameLen \<and> firstDifferent = - 1) in
        if invert then
          (if \<not> eq then Ok None
           else Ok (fail_at file line isFatal (''got identical '' @ decimal (unat n) @ ''-byte length spans'')))
        else if eq then Ok None
        else if sameLen then
          c_bind (rd_at p firstDifferent) (\<lambda>a. c_bind (rd_at q firstDifferent) (\<lambda>b.
            Ok (fail_at file line isFatal
              (''spans differ starting at byte ['' @ decimal_int firstDifferent @ '']: expected <''
                @ hex2 a @ ''> but got <'' @ hex2 b @ ''>''))))
        else Ok (fail_at file line isFatal
               (''expected '' @ decimal (unat n) @ ''-byte length span but got ''
                 @ decimal (unat m) @ ''-byte length''))))"

subsection \<open>The message buffer holds a prefix of what is appended\<close>

definition holds :: "strbuf \<Rightarrow> string \<Rightarrow> bool" where
  "holds sb t \<longleftrightarrow> (let k = min 4095 (length t) in
     length (sb_str sb) = 4096 \<and> take k (sb_str sb) = take k t \<and> sb_str sb ! k = NUL
     \<and> (if length t < 4095 then sb_sz sb = length t else 4095 \<le> sb_sz sb))"

lemma wr_string_ok:
  "i + length src \<le> length dst \<Longrightarrow> wr_string dst i src = Ok (take i dst @ src @ drop (i + length src) dst)"
  by (simp add: wr_string_def)

lemma reset_holds:
  assumes "length (sb_str sb) = 4096"
  shows "\<exists>sb'. strbuf_reset sb = Ok sb' \<and> holds sb' []"
  using assms by (simp add: strbuf_reset_def wr_string_ok holds_def Let_def)

lemma vappend_holds:
  assumes "holds sb t"
  shows "\<exists>sb'. strbuf_vappend sb s = Ok sb' \<and> holds sb' (t @ (case s of None \<Rightarrow> [] | Some s \<Rightarrow> s))"
proof (cases "length t < 4095")
  case False
  then show ?thesis using assms by (simp add: strbuf_vappend_def holds_def Let_def)
next
  case True
  then have h: "length (sb_str sb) = 4096" "take (length t) (sb_str sb) = t" "sb_sz sb = length t"
    using assms by (simp_all add: holds_def Let_def min_def split: if_splits)
  show ?thesis
  proof (cases s)
    case None
    then show ?thesis using assms True h by (simp add: strbuf_vappend_def)
  next
    case (Some x)
    let ?w = "take (4095 - length t) x @ [NUL]"
    have w: "wr_string (sb_str sb) (length t) ?w
        = Ok (t @ ?w @ drop (length t + length ?w) (sb_str sb))"
      using True h by (subst wr_string_ok) auto
    show ?thesis
      using True h w
      by (auto simp: strbuf_vappend_def Some holds_def Let_def min_def nth_append)
  qed
qed

lemma append_holds:
  "holds sb t \<Longrightarrow> \<exists>sb'. strbuf_append sb s = Ok sb' \<and> holds sb' (t @ s)"
  unfolding strbuf_append_def using vappend_holds [of sb t "Some s"] by simp

lemma takeWhile_stop: "takeWhile (\<lambda>c. c \<noteq> x) (ys @ x # zs) = takeWhile (\<lambda>c. c \<noteq> x) ys"
  by (induction ys) simp_all

lemma holds_c_string:
  assumes "holds sb t"
  shows "c_string (sb_str sb) = Ok (takeWhile (\<lambda>c. c \<noteq> NUL) (take 4095 t))"
proof -
  let ?k = "min 4095 (length t)"
  have k: "length (sb_str sb) = 4096" "take ?k (sb_str sb) = take ?k t" "sb_str sb ! ?k = NUL"
    using assms by (simp_all add: holds_def Let_def)
  have "sb_str sb = take ?k (sb_str sb) @ sb_str sb ! ?k # drop (Suc ?k) (sb_str sb)"
    using k(1) by (intro id_take_nth_drop) auto
  then have s: "sb_str sb = take 4095 t @ NUL # drop (Suc ?k) (sb_str sb)"
    using k by (simp add: min_def split: if_splits)
  then have "NUL \<in> set (sb_str sb)" by (metis in_set_conv_decomp)
  moreover have "takeWhile (\<lambda>c. c \<noteq> NUL) (sb_str sb) = takeWhile (\<lambda>c. c \<noteq> NUL) (take 4095 t)"
    by (subst s) (rule takeWhile_stop)
  ultimately show ?thesis by (simp add: c_string_def)
qed

subsection \<open>Failures of a case\<close>

text \<open>The failures up to a fatal one.\<close>

fun upto_fatal :: "failure list \<Rightarrow> failure list" where
  "upto_fatal [] = []"
| "upto_fatal (f # fs) = f # (if fl_fatal f then [] else upto_fatal fs)"

definition message :: "failure \<Rightarrow> string" where
  "message f = fl_file f @ '':'' @ decimal_int (fl_line f) @ '': ''
     @ (case fl_text f of None \<Rightarrow> [] | Some s \<Rightarrow> s) @ [NL]"

text \<open>The context of a running case that has reported \<open>fs\<close>.\<close>

definition has_reported :: "failure list \<Rightarrow> test_context \<Rightarrow> bool" where
  "has_reported fs ctx \<longleftrightarrow> failed ctx = (fs \<noteq> []) \<and> holds (messages ctx) (concat (map message fs))"

lemma mark_reported:
  assumes "has_reported fs ctx"
  shows "\<exists>ctx'. ttest_mark_current_case_as_failed f ctx
      = Ok (if fl_fatal f then Jumped else Returned, ctx') \<and> has_reported (fs @ [f]) ctx'"
proof -
  let ?t = "concat (map message fs)" and ?p = "fl_file f @ '':'' @ decimal_int (fl_line f) @ '': ''"
  obtain a where a: "strbuf_append (messages ctx) ?p = Ok a" "holds a (?t @ ?p)"
    using append_holds [of "messages ctx" ?t ?p] assms unfolding has_reported_def by blast
  obtain b where b: "strbuf_vappend a (fl_text f) = Ok b"
    "holds b ((?t @ ?p) @ (case fl_text f of None \<Rightarrow> [] | Some s \<Rightarrow> s))"
    using vappend_holds [OF a(2)] by blast
  obtain c where "strbuf_append b [NL] = Ok c"
    "holds c (((?t @ ?p) @ (case fl_text f of None \<Rightarrow> [] | Some s \<Rightarrow> s)) @ [NL])"
    using append_holds [OF b(2)] by blast
  then show ?thesis
    using a(1) b(1) by (simp add: ttest_mark_current_case_as_failed_def has_reported_def message_def)
qed

lemma report_all_reported:
  "has_reported gs ctx \<Longrightarrow> \<exists>ctx'. report_all fs ctx
      = Ok (if list_ex fl_fatal fs then Jumped else Returned, ctx') \<and> has_reported (gs @ upto_fatal fs) ctx'"
proof (induction fs arbitrary: gs ctx)
  case (Cons f fs)
  obtain c where c: "ttest_mark_current_case_as_failed f ctx
      = Ok (if fl_fatal f then Jumped else Returned, c)" "has_reported (gs @ [f]) c"
    using mark_reported [OF Cons.prems] by blast
  show ?case using c Cons.IH [OF c(2)] by (cases "fl_fatal f") auto
qed simp

lemma call_reported:
  assumes "has_reported gs ctx" "fn s = (s', fs)"
  shows "\<exists>ctx'. call_test_fn fn s ctx = Ok (if list_ex fl_fatal fs then Jumped else Returned, s', ctx')
    \<and> has_reported (gs @ upto_fatal fs) ctx'"
  using report_all_reported [OF assms(1), of fs] assms(2) by (auto simp: call_test_fn_def)

lemma no_fatal_upto: "\<not> list_ex fl_fatal fs \<Longrightarrow> upto_fatal fs = fs"
  by (induction fs) auto

text \<open>What a case does: a fatal failure before it cancels all the rest, one in the test itself does
  not cancel what is to be done after it.\<close>

definition case_spec :: "'s test_suite \<Rightarrow> 's test_case \<Rightarrow> 's \<Rightarrow> 's \<times> failure list" where
  "case_spec su c s = (case beforeCaseFn su s of (s1, fs1) \<Rightarrow>
     if list_ex fl_fatal fs1 then (s1, upto_fatal fs1)
     else case testFn c s1 of (s2, fs2) \<Rightarrow> case afterCaseFn su s2 of (s3, fs3) \<Rightarrow>
       (s3, fs1 @ upto_fatal fs2 @ upto_fatal fs3))"

definition case_report :: "'s test_suite \<Rightarrow> 's test_case \<Rightarrow> failure list \<Rightarrow> string" where
  "case_report su c fs = case_output (ts_name su) (tc_name c) (fs \<noteq> [])
     (takeWhile (\<lambda>x. x \<noteq> NUL) (take 4095 (concat (map message fs))))"

lemma run_case_spec:
  assumes buf: "length (sb_str (messages ctx)) = 4096" and spec: "case_spec su c s = (s', fs)"
    and room: "0 \<le> numFailedCases t" "numFailedCases t < 2 ^ 31 - 1" "0 \<le> numCasesTotal t" "numCasesTotal t < 2 ^ 31 - 1"
  shows "\<exists>ctx'. run_case su c t ctx s out
    = Ok (t\<lparr>numCasesTotal := numCasesTotal t + 1,
            numFailedCases := numFailedCases t + (if fs \<noteq> [] then 1 else 0)\<rparr>, ctx', s',
          out @ case_report su c fs) \<and> length (sb_str (messages ctx')) = 4096"
proof -
  obtain sb where sb: "strbuf_reset (messages ctx) = Ok sb" "holds sb []"
    using reset_holds [OF buf] by blast
  let ?ctx = "\<lparr>failed = False, messages = sb\<rparr>"
  have 0: "has_reported [] ?ctx" using sb by (simp add: has_reported_def)
  obtain s1 fs1 where 1: "beforeCaseFn su s = (s1, fs1)" by fastforce
  obtain c1 where c1: "call_test_fn (beforeCaseFn su) s ?ctx
      = Ok (if list_ex fl_fatal fs1 then Jumped else Returned, s1, c1)" "has_reported (upto_fatal fs1) c1"
    using call_reported [of "[]" ?ctx "beforeCaseFn su", OF 0 1] by auto
  have "\<exists>c'. (if list_ex fl_fatal fs1 then Ok (s1, c1)
             else c_bind (call_test_fn (testFn c) s1 c1) (\<lambda>(_, s, ctx).
                  c_bind (call_test_fn (afterCaseFn su) s ctx) (\<lambda>(_, s, ctx). Ok (s, ctx))))
      = Ok (s', c') \<and> has_reported fs c'"
  proof (cases "list_ex fl_fatal fs1")
    case False
    obtain s2 fs2 where 2: "testFn c s1 = (s2, fs2)" by fastforce
    obtain s3 fs3 where 3: "afterCaseFn su s2 = (s3, fs3)" by fastforce
    obtain fl2 c2 where c2: "call_test_fn (testFn c) s1 c1 = Ok (fl2, s2, c2)"
      "has_reported (upto_fatal fs1 @ upto_fatal fs2) c2"
      using call_reported [of _ _ "testFn c", OF c1(2) 2] by blast
    obtain fl3 c3 where c3: "call_test_fn (afterCaseFn su) s2 c2 = Ok (fl3, s3, c3)"
      "has_reported ((upto_fatal fs1 @ upto_fatal fs2) @ upto_fatal fs3) c3"
      using call_reported [of _ _ "afterCaseFn su", OF c2(2) 3] by blast
    have "s' = s3" "fs = fs1 @ upto_fatal fs2 @ upto_fatal fs3"
      using spec False by (simp_all add: case_spec_def 1 2 3)
    then show ?thesis using False c2(1) c3 by (simp add: no_fatal_upto)
  qed (use spec c1 in \<open>simp add: case_spec_def 1\<close>)
  then obtain c' where c': "(if list_ex fl_fatal fs1 then Ok (s1, c1)
             else c_bind (call_test_fn (testFn c) s1 c1) (\<lambda>(_, s, ctx).
                  c_bind (call_test_fn (afterCaseFn su) s ctx) (\<lambda>(_, s, ctx). Ok (s, ctx))))
      = Ok (s', c')" "has_reported fs c'" by blast
  have fl: "((if list_ex fl_fatal fs1 then Jumped else Returned) = Jumped) = list_ex fl_fatal fs1" by simp
  have h: "holds (messages c') (concat (map message fs))" "failed c' = (fs \<noteq> [])"
    using c'(2) by (simp_all add: has_reported_def)
  have "length (sb_str (messages c')) = 4096" using h(1) by (simp add: holds_def Let_def)
  moreover have "c_int (numCasesTotal t + 1) = Ok (numCasesTotal t + 1)"
    "c_int (numFailedCases t + 1) = Ok (numFailedCases t + 1)" using room by (auto intro!: c_int_in)
  ultimately show ?thesis
    unfolding run_case_def
    by (simp add: sb(1) c1(1) fl c'(1) h(2) holds_c_string [OF h(1)] Let_def case_report_def)
qed

subsection \<open>The whole run\<close>

text \<open>What the constructors register, as they stand in the program: the suites, and the cases and the
  actions of each of them, the last one given if there are several.\<close>

fun registered_suites :: "'s ctor list \<Rightarrow> suite_ref list" where
  "registered_suites [] = []"
| "registered_suites (RegisterSuite r # cs) = r # registered_suites cs"
| "registered_suites (_ # cs) = registered_suites cs"

fun registered_cases :: "suite_ref \<Rightarrow> 's ctor list \<Rightarrow> 's test_case list" where
  "registered_cases r [] = []"
| "registered_cases r (RegisterCase r' c # cs) = (if r' = r then [c] else []) @ registered_cases r cs"
| "registered_cases r (_ # cs) = registered_cases r cs"

fun before_action :: "suite_ref \<Rightarrow> 's test_fn \<Rightarrow> 's ctor list \<Rightarrow> 's test_fn" where
  "before_action r f [] = f"
| "before_action r f (RegisterBeforeFn r' g # cs) = before_action r (if r' = r then g else f) cs"
| "before_action r f (_ # cs) = before_action r f cs"

fun after_action :: "suite_ref \<Rightarrow> 's test_fn \<Rightarrow> 's ctor list \<Rightarrow> 's test_fn" where
  "after_action r f [] = f"
| "after_action r f (RegisterAfterFn r' g # cs) = after_action r (if r' = r then g else f) cs"
| "after_action r f (_ # cs) = after_action r f cs"

definition registered_suite :: "(suite_ref \<Rightarrow> string) \<Rightarrow> 's ctor list \<Rightarrow> suite_ref \<Rightarrow> 's test_suite" where
  "registered_suite names ctors r = \<lparr>ts_name = names r, cases = registered_cases r ctors,
     beforeCaseFn = before_action r ttest_noop ctors, afterCaseFn = after_action r ttest_noop ctors\<rparr>"

definition all_cases :: "(suite_ref \<Rightarrow> string) \<Rightarrow> 's ctor list \<Rightarrow> ('s test_suite \<times> 's test_case) list" where
  "all_cases names ctors = concat (map (\<lambda>r. map (Pair (registered_suite names ctors r))
     (registered_cases r ctors)) (registered_suites ctors))"

definition within_limits :: "'s ctor list \<Rightarrow> bool" where
  "within_limits ctors \<longleftrightarrow> length (registered_suites ctors) \<le> 100
     \<and> (\<forall>r. length (registered_cases r ctors) \<le> 100)"

lemma registered_suites_append: "registered_suites (xs @ ys) = registered_suites xs @ registered_suites ys"
  by (induction xs rule: registered_suites.induct) simp_all

lemma registered_cases_append: "registered_cases r (xs @ ys) = registered_cases r xs @ registered_cases r ys"
  by (induction r xs rule: registered_cases.induct) simp_all

lemma before_action_append: "before_action r f (xs @ ys) = before_action r (before_action r f xs) ys"
  by (induction r f xs rule: before_action.induct) simp_all

lemma after_action_append: "after_action r f (xs @ ys) = after_action r (after_action r f xs) ys"
  by (induction r f xs rule: after_action.induct) simp_all

lemmas registered_append =
  registered_suites_append registered_cases_append before_action_append after_action_append

lemma within_limits_prefix: "within_limits (xs @ ys) \<Longrightarrow> within_limits xs"
  by (auto simp: within_limits_def registered_append) (metis add_leD1)

text \<open>The final state, the output and the number of failed cases.\<close>

fun run_spec :: "('s test_suite \<times> 's test_case) list \<Rightarrow> 's \<Rightarrow> 's \<times> string \<times> nat" where
  "run_spec [] s = (s, [], 0)"
| "run_spec ((su, c) # xs) s =
     (case case_spec su c s of (s1, fs) \<Rightarrow> case run_spec xs s1 of (s2, out, n) \<Rightarrow>
        (s2, case_report su c fs @ out, (if fs \<noteq> [] then 1 else 0) + n))"

lemma run_spec_append:
  "run_spec (xs @ ys) s = (case run_spec xs s of (s1, out1, n1) \<Rightarrow> case run_spec ys s1 of
     (s2, out2, n2) \<Rightarrow> (s2, out1 @ out2, n1 + n2))"
  by (induction xs s rule: run_spec.induct) (auto split: prod.splits)

text \<open>The table that the constructors leave.\<close>

definition table :: "(suite_ref \<Rightarrow> string) \<Rightarrow> 's ctor list \<Rightarrow> 's tiny_test" where
  "table names ctors = \<lparr>suites = registered_suites ctors, numFailedCases = 0, numCasesTotal = 0,
     suite_at = registered_suite names ctors\<rparr>"

lemma within_limits_Cons [simp]:
  "within_limits (cs @ [RegisterSuite r]) \<longleftrightarrow> within_limits cs \<and> length (registered_suites cs) < 100"
  "within_limits (cs @ [RegisterCase r c]) \<longleftrightarrow> within_limits cs \<and> length (registered_cases r cs) < 100"
  "within_limits (cs @ [RegisterBeforeFn r f]) \<longleftrightarrow> within_limits cs"
  "within_limits (cs @ [RegisterAfterFn r f]) \<longleftrightarrow> within_limits cs"
proof -
  show "within_limits (cs @ [RegisterCase r c]) \<longleftrightarrow> within_limits cs \<and> length (registered_cases r cs) < 100"
    (is "?l \<longleftrightarrow> ?r")
  proof
    assume l: ?l
    then have "length (registered_cases r (cs @ [RegisterCase r c])) \<le> 100" unfolding within_limits_def by blast
    then show ?r using within_limits_prefix [OF l] by (simp add: registered_append)
  qed (auto simp: within_limits_def registered_append)
qed (auto simp: within_limits_def registered_append)

lemma run_ctor_table:
  "within_limits cs \<Longrightarrow> run_ctor c (table names cs)
    = (if within_limits (cs @ [c]) then Ok (table names (cs @ [c])) else Fault FatalAbort)"
  by (cases c) (auto simp: table_def registered_append registered_suite_def fun_eq_iff Let_def
      ttest_private_register_suite_def ttest_private_register_case_def MAX_SUITES_def MAX_CASES_PER_SUITE_def)

lemma run_ctors_table:
  "within_limits pre \<Longrightarrow> run_ctors cs (table names pre)
    = (if within_limits (pre @ cs) then Ok (table names (pre @ cs)) else Fault FatalAbort)"
proof (induction cs arbitrary: pre)
  case (Cons c cs)
  show ?case
  proof (cases "within_limits (pre @ [c])")
    case True
    then show ?thesis using Cons.IH [OF True] by (simp add: run_ctor_table [OF Cons.prems])
  next
    case False
    then have "\<not> within_limits (pre @ c # cs)" using within_limits_prefix [of "pre @ [c]" cs] by auto
    then show ?thesis using False by (simp add: run_ctor_table [OF Cons.prems])
  qed
qed simp

lemma run_all_ctors:
  fixes cs :: "'s ctor list"
  shows "run_ctors cs (gTinyTest names)
    = (if within_limits cs then Ok (table names cs) else Fault FatalAbort)"
proof -
  have "gTinyTest names = (table names [] :: 's tiny_test)"
    by (simp add: gTinyTest_def table_def new_suite_def registered_suite_def fun_eq_iff)
  moreover have "within_limits ([] :: 's ctor list)" by (simp add: within_limits_def)
  ultimately show ?thesis using run_ctors_table [of "[]" cs names] by simp
qed

lemma length_concat_le:
  "(\<And>x. x \<in> set xs \<Longrightarrow> length (f x) \<le> k) \<Longrightarrow> length (concat (map f xs)) \<le> k * length xs"
  by (induction xs) (auto simp: add_le_mono)

lemma all_cases_bound: "within_limits cs \<Longrightarrow> length (all_cases names cs) \<le> 10000"
  using length_concat_le [of "registered_suites cs"
      "\<lambda>r. map (Pair (registered_suite names cs r)) (registered_cases r cs)" 100]
  by (auto simp: within_limits_def all_cases_def)

text \<open>The counters after \<open>m\<close> cases of which \<open>n\<close> have failed.\<close>

definition counted :: "'s tiny_test \<Rightarrow> nat \<Rightarrow> nat \<Rightarrow> 's tiny_test" where
  "counted t m n = t\<lparr>numCasesTotal := numCasesTotal t + int m, numFailedCases := numFailedCases t + int n\<rparr>"

lemma counted_simps [simp]:
  "counted (counted t m n) m' n' = counted t (m + m') (n + n')" "suite_at (counted t m n) = suite_at t"
  "numCasesTotal (counted t m n) = numCasesTotal t + int m"
  "numFailedCases (counted t m n) = numFailedCases t + int n" "counted t 0 0 = t"
  by (simp_all add: counted_def)

definition counters_room :: "'s tiny_test \<Rightarrow> nat \<Rightarrow> bool" where
  "counters_room t m \<longleftrightarrow> 0 \<le> numFailedCases t \<and> numFailedCases t \<le> numCasesTotal t
     \<and> numCasesTotal t + int m < 2 ^ 31"

lemma run_cases_spec:
  assumes "length (sb_str (messages ctx)) = 4096" "counters_room t (length cs + k)"
    and "run_spec (map (Pair su) cs) s = (s', o', n)"
  shows "\<exists>ctx'. run_cases su cs t ctx s out = Ok (counted t (length cs) n, ctx', s', out @ o')
    \<and> length (sb_str (messages ctx')) = 4096 \<and> counters_room (counted t (length cs) n) k"
  using assms
proof (induction cs arbitrary: t ctx s out o' n)
  case (Cons c cs)
  obtain s1 fs where 1: "case_spec su c s = (s1, fs)" by fastforce
  obtain o2 n2 where 2: "run_spec (map (Pair su) cs) s1 = (s', o2, n2)"
    and o': "o' = case_report su c fs @ o2" and n: "n = (if fs \<noteq> [] then 1 else 0) + n2"
    using Cons.prems(3) by (auto simp: 1 split: prod.splits)
  let ?t = "counted t 1 (if fs \<noteq> [] then 1 else 0)"
  obtain c1 where c1: "run_case su c t ctx s out = Ok (?t, c1, s1, out @ case_report su c fs)"
    "length (sb_str (messages c1)) = 4096"
    using run_case_spec [OF Cons.prems(1) 1, of t out] Cons.prems(2)
    by (auto simp: counters_room_def counted_def)
  have "counters_room ?t (length cs + k)" using Cons.prems(2) by (auto simp: counters_room_def)
  from Cons.IH [OF c1(2) this 2, of "out @ case_report su c fs"] show ?case
    using c1(1) by (auto simp: o' n)
qed simp

lemma run_suites_spec:
  assumes "length (sb_str (messages ctx)) = 4096"
    and "xs = concat (map (\<lambda>r. map (Pair (suite_at t r)) (cases (suite_at t r))) rs)"
    and "counters_room t (length xs)" "run_spec xs s = (s', o', n)"
  shows "\<exists>ctx'. run_suites rs t ctx s out = Ok (counted t (length xs) n, ctx', s', out @ o')"
  using assms
proof (induction rs arbitrary: t ctx s out xs o' n)
  case (Cons r rs)
  let ?su = "suite_at t r"
  let ?ys = "concat (map (\<lambda>r. map (Pair (suite_at t r)) (cases (suite_at t r))) rs)"
  have xs: "xs = map (Pair ?su) (cases ?su) @ ?ys" using Cons.prems(2) by simp
  obtain s1 o1 n1 where 1: "run_spec (map (Pair ?su) (cases ?su)) s = (s1, o1, n1)" by (metis prod_cases3)
  obtain o2 n2 where 2: "run_spec ?ys s1 = (s', o2, n2)" and on: "o' = o1 @ o2" "n = n1 + n2"
    using Cons.prems(4) by (auto simp: xs run_spec_append 1 split: prod.splits)
  let ?t = "counted t (length (cases ?su)) n1"
  have "counters_room t (length (cases ?su) + length ?ys)" using Cons.prems(3) by (simp add: xs)
  from run_cases_spec [OF Cons.prems(1) this 1, of out] obtain c1 where
    c1: "run_cases ?su (cases ?su) t ctx s out = Ok (?t, c1, s1, out @ o1)"
      "length (sb_str (messages c1)) = 4096" "counters_room ?t (length ?ys)" by blast
  from Cons.IH [OF c1(2) _ c1(3) 2, of "out @ o1"] show ?case
    using c1(1) by (simp add: xs on)
qed simp

lemma decimal_int_of_nat [simp]: "decimal_int (int n) = decimal n"
  by (simp add: decimal_int_def)

text \<open>C38. A program that registers up to 100 suites with up to 100 cases each registers all of them,
  in order; with more of them it aborts before it runs. The run then executes every case that the
  program's macros register once, in the order of registration, each between the actions given for
  its suite as the documentation promises (a fatal failure before it cancels all the rest, a fatal
  failure in the test does not cancel the action after it), survives every fatal failure, prints
  for each case its verdict and the first 4095 characters of its messages (up to a NUL in them),
  counts the failed ones, and succeeds exactly if there are none.\<close>
theorem run_all_reports:
  assumes "length (sb_str (messages ctx)) = 4096" "run_spec (all_cases names ctors) s = (s', o', n)"
  shows "if within_limits ctors
    then \<exists>t t'. run_ctors ctors (gTinyTest names) = Ok t
      \<and> ttest_run_all t ctx s out = Ok (n = 0, t', s', out @ o' @ ''Total: ''
          @ decimal (length (all_cases names ctors)) @ '', failed: '' @ decimal n @ [NL])
    else run_ctors ctors (gTinyTest names) = Fault FatalAbort"
proof (cases "within_limits ctors")
  case True
  let ?t = "table names ctors"
  have cases: "all_cases names ctors
      = concat (map (\<lambda>r. map (Pair (suite_at ?t r)) (cases (suite_at ?t r))) (suites ?t))"
    by (simp add: all_cases_def table_def registered_suite_def)
  have "counters_room ?t (length (all_cases names ctors))"
    using all_cases_bound [OF True, of names] by (simp add: counters_room_def table_def)
  from run_suites_spec [OF assms(1) cases this assms(2), of out]
  obtain ctx' where "run_suites (suites ?t) ?t ctx s out
      = Ok (counted ?t (length (all_cases names ctors)) n, ctx', s', out @ o')" by blast
  moreover have "numCasesTotal ?t = 0" "numFailedCases ?t = 0" by (simp_all add: table_def)
  ultimately show ?thesis using True by (simp add: ttest_run_all_def run_all_ctors)
qed (simp add: run_all_ctors)

theorem run_all_reports_witness:
  "\<exists>t t'. run_ctors [RegisterSuite 0,
       RegisterAfterFn 0 (\<lambda>s. (s + 1, [])),
       RegisterCase 0 \<lparr>tc_name = ''Good'', testFn = (\<lambda>s :: nat. (s, []))\<rparr>,
       RegisterCase 0 \<lparr>tc_name = ''Bad'', testFn = (\<lambda>s. (s,
         [\<lparr>fl_file = ''a.c'', fl_line = 7, fl_fatal = True, fl_text = Some ''no''\<rparr>,
          \<lparr>fl_file = ''a.c'', fl_line = 8, fl_fatal = False, fl_text = Some ''not reached''\<rparr>]))\<rparr>]
      (gTinyTest (\<lambda>_. ''suite'')) = Ok t
   \<and> ttest_run_all t \<lparr>failed = False, messages = \<lparr>sb_str = replicate 4096 NUL, sb_sz = 0\<rparr>\<rparr> 0 []
     = Ok (False, t', 2, ''[suite] [Good] - OK'' @ [NL, NL] @ ''[suite] [Bad] - FAILED'' @ [NL]
         @ ''a.c:7: no'' @ [NL, NL] @ ''Total: 2, failed: 1'' @ [NL])"
  (is "\<exists>t t'. run_ctors ?cs ?empty = Ok t \<and> ttest_run_all t ?ctx 0 [] = Ok (False, t', 2, ?out)")
proof -
  have ctx: "length (sb_str (messages ?ctx)) = 4096" by simp
  have limits: "within_limits ?cs" by (simp add: within_limits_def)
  have dec: "decimal 7 = ''7''" "decimal 2 = ''2''" "decimal 1 = ''1''" by code_simp+
  have spec: "run_spec (all_cases (\<lambda>_. ''suite'') ?cs) 0 = (2, ''[suite] [Good] - OK'' @ [NL, NL]
      @ ''[suite] [Bad] - FAILED'' @ [NL] @ ''a.c:7: no'' @ [NL, NL], 1)"
    by (simp add: all_cases_def registered_suite_def case_spec_def ttest_noop_def case_report_def
        case_output_def message_def decimal_int_def dec)
  have len: "length (all_cases (\<lambda>_. ''suite'') ?cs) = 2" by (simp add: all_cases_def)
  show ?thesis
    using run_all_reports [OF ctx spec, of "[]"] unfolding len if_P [OF limits] dec
    by (simp del: run_ctors.simps)
qed

subsection \<open>Comparing memory\<close>

lemma first_different_spec:
  "i + n \<le> length p \<Longrightarrow> i + n \<le> length q \<Longrightarrow> i + n < 2 ^ 31 \<Longrightarrow>
   \<exists>k. first_different p q i n = Ok k \<and>
     (if take n (drop i p) = take n (drop i q) then k = - 1
      else \<exists>j. k = int j \<and> i \<le> j \<and> j < i + n \<and> p ! j \<noteq> q ! j \<and> (\<forall>l. i \<le> l \<and> l < j \<longrightarrow> p ! l = q ! l))"
proof (induction n arbitrary: i)
  case (Suc n)
  have at: "drop i p = p ! i # drop (Suc i) p" "drop i q = q ! i # drop (Suc i) q"
    using Suc.prems by (simp_all add: Cons_nth_drop_Suc)
  have "sint (word_of_int (int i) :: 32 word) = int i"
    unfolding sint_sbintrunc' by (rule signed_take_bit_int_eq_self) (use Suc.prems in simp_all)
  then have i: "sint (of_nat i :: 32 word) = int i" by simp
  show ?case
  proof (cases "p ! i = q ! i")
    case True
    obtain k where k: "first_different p q (Suc i) n = Ok k"
      "if take n (drop (Suc i) p) = take n (drop (Suc i) q) then k = - 1
       else \<exists>j. k = int j \<and> Suc i \<le> j \<and> j < Suc i + n \<and> p ! j \<noteq> q ! j
         \<and> (\<forall>l. Suc i \<le> l \<and> l < j \<longrightarrow> p ! l = q ! l)"
      using Suc.IH [of "Suc i"] Suc.prems by auto
    moreover have "(\<forall>l. i \<le> l \<and> l < j \<longrightarrow> p ! l = q ! l)"
      if "\<forall>l. Suc i \<le> l \<and> l < j \<longrightarrow> p ! l = q ! l" for j
      using that True le_neq_implies_less [of i] by (metis Suc_leI)
    ultimately show ?thesis
      using True Suc.prems by (auto simp: rd_at_def at split: if_splits)
  next
    case False
    then show ?thesis using Suc.prems i by (auto simp: rd_at_def at intro!: exI [of _ i])
  qed
qed simp

text \<open>Two spans of up to \<open>INT_MAX\<close> octets: an assertion on them reports a failure exactly if they
  do not compare as it says, and never reads outside of them.\<close>

lemma check_equal_span_exact:
  assumes "unat n \<le> length p" "unat m \<le> length q" "unat n < 2 ^ 31"
  shows "\<exists>r. check_equal_span file line isFatal invert (p, n) (q, m) = Ok r
    \<and> (r = None \<longleftrightarrow> (n = m \<and> take (unat n) p = take (unat n) q) \<noteq> invert)"
proof (cases "n = m")
  case True
  with assms obtain k where k: "first_different p q 0 (unat n) = Ok k"
    "if take (unat n) p = take (unat n) q then k = - 1 else \<exists>j. k = int j \<and> j < unat n"
    using first_different_spec [of 0 "unat n" p q] by (auto split: if_splits)
  then show ?thesis
    using True assms by (auto simp: check_equal_span_def Let_def fail_at_def rd_at_def split: if_splits)
qed (auto simp: check_equal_span_def Let_def fail_at_def)

end
