(* ===== verification/Tiny_Assert.thy ===== *)
theory Tiny_Assert
  imports Tiny_Test
begin

text \<open>
  The assertions of \<open>libtinytest\<close> as test cases use them (\<open>ttest/test.h\<close>): the macros, with the
  choice of the checker by the type of the expected operand, and what an assertion promises.
\<close>

subsection \<open>Operands\<close>

datatype operand =
    Char char | Signed_int "32 word" | Unsigned_int "32 word" | Signed_long "64 word"
  | Unsigned_long "64 word" | Other_integral int | CSTR string | SPAN "u8 list" u32

text \<open>The value of an operand of an integral type; \<open>char\<close> is signed. \<open>Other_integral\<close> is a value of one
  of the types the choice does not know (\<open>bool\<close>, \<open>short\<close>, \<open>uint8_t\<close>, \<open>long long\<close>), which can only be the
  actual operand.\<close>

fun integral :: "operand \<Rightarrow> int option" where
  "integral (Char c) = Some (sint (of_char c :: u8))"
| "integral (Signed_int w) = Some (sint w)"
| "integral (Unsigned_int w) = Some (uint w)"
| "integral (Signed_long w) = Some (sint w)"
| "integral (Unsigned_long w) = Some (uint w)"
| "integral (Other_integral v) = Some v"
| "integral _ = None"

subsection \<open>The macros\<close>

text \<open>The other operand is converted to the type of the expected one. None is a use that the
  compiler refuses.\<close>

definition CHECK_EQUAL ::
  "string \<Rightarrow> int \<Rightarrow> operand \<Rightarrow> operand \<Rightarrow> bool \<Rightarrow> bool \<Rightarrow> failure option c_res option" where
  "CHECK_EQUAL file line expected actual isFatal invert = (case expected of
     Char e \<Rightarrow> map_option (\<lambda>a. Ok (check_equal_char file line isFatal invert e
       (char_of (unat (word_of_int a :: u8))))) (integral actual)
   | Signed_int e \<Rightarrow> map_option (\<lambda>a. Ok (check_equal_sint file line isFatal invert e (word_of_int a)))
       (integral actual)
   | Unsigned_int e \<Rightarrow> map_option (\<lambda>a. Ok (check_equal_uint file line isFatal invert e (word_of_int a)))
       (integral actual)
   | Signed_long e \<Rightarrow> map_option (\<lambda>a. Ok (check_equal_slong file line isFatal invert e (word_of_int a)))
       (integral actual)
   | Unsigned_long e \<Rightarrow> map_option (\<lambda>a. Ok (check_equal_ulong file line isFatal invert e (word_of_int a)))
       (integral actual)
   | Other_integral _ \<Rightarrow> None
   | CSTR e \<Rightarrow> (case actual of
       CSTR a \<Rightarrow> Some (Ok (check_equal_cstr file line isFatal invert e a)) | _ \<Rightarrow> None)
   | SPAN p n \<Rightarrow> (case actual of
       SPAN q m \<Rightarrow> Some (check_equal_span file line isFatal invert (p, n) (q, m)) | _ \<Rightarrow> None))"

definition ASSERT_EQ :: "string \<Rightarrow> int \<Rightarrow> operand \<Rightarrow> operand \<Rightarrow> failure option c_res option" where
  "ASSERT_EQ file line expected actual = CHECK_EQUAL file line expected actual True False"

definition EXPECT_EQ :: "string \<Rightarrow> int \<Rightarrow> operand \<Rightarrow> operand \<Rightarrow> failure option c_res option" where
  "EXPECT_EQ file line expected actual = CHECK_EQUAL file line expected actual False False"

definition ASSERT_NE :: "string \<Rightarrow> int \<Rightarrow> operand \<Rightarrow> operand \<Rightarrow> failure option c_res option" where
  "ASSERT_NE file line expected actual = CHECK_EQUAL file line expected actual True True"

definition EXPECT_NE :: "string \<Rightarrow> int \<Rightarrow> operand \<Rightarrow> operand \<Rightarrow> failure option c_res option" where
  "EXPECT_NE file line expected actual = CHECK_EQUAL file line expected actual False True"

text \<open>The value of the expression and its text.\<close>

definition CHECK_BOOLEAN :: "string \<Rightarrow> int \<Rightarrow> bool \<times> string \<Rightarrow> bool \<Rightarrow> bool \<Rightarrow> failure option" where
  "CHECK_BOOLEAN file line = (\<lambda>(expr, str) expected isFatal.
     check_boolean file line isFatal expected expr str)"

definition ASSERT_TRUE :: "string \<Rightarrow> int \<Rightarrow> bool \<times> string \<Rightarrow> failure option" where
  "ASSERT_TRUE file line expr = CHECK_BOOLEAN file line expr True True"

definition EXPECT_TRUE :: "string \<Rightarrow> int \<Rightarrow> bool \<times> string \<Rightarrow> failure option" where
  "EXPECT_TRUE file line expr = CHECK_BOOLEAN file line expr True False"

definition ASSERT_FALSE :: "string \<Rightarrow> int \<Rightarrow> bool \<times> string \<Rightarrow> failure option" where
  "ASSERT_FALSE file line expr = CHECK_BOOLEAN file line expr False True"

definition EXPECT_FALSE :: "string \<Rightarrow> int \<Rightarrow> bool \<times> string \<Rightarrow> failure option" where
  "EXPECT_FALSE file line expr = CHECK_BOOLEAN file line expr False False"

definition FAIL_FATAL :: "string \<Rightarrow> int \<Rightarrow> string \<Rightarrow> failure option" where
  "FAIL_FATAL file line text = fail_at file line True text"

definition FAIL_NON_FATAL :: "string \<Rightarrow> int \<Rightarrow> string \<Rightarrow> failure option" where
  "FAIL_NON_FATAL file line text = fail_at file line False text"

subsection \<open>What an assertion reports\<close>

text \<open>The number of bits of the type of an operand that may be the expected one.\<close>

fun width :: "operand \<Rightarrow> nat option" where
  "width (Char _) = Some 8"
| "width (Signed_int _) = Some 32"
| "width (Unsigned_int _) = Some 32"
| "width (Signed_long _) = Some 64"
| "width (Unsigned_long _) = Some 64"
| "width _ = None"

text \<open>Operands an assertion takes: two integral ones, two strings, two spans inside their buffers, the
  expected one of at most \<open>INT_MAX\<close> octets.\<close>

fun comparable :: "operand \<Rightarrow> operand \<Rightarrow> bool" where
  "comparable (CSTR s) (CSTR t) = True"
| "comparable (SPAN p n) (SPAN q m) =
     (unat n \<le> length p \<and> unat m \<le> length q \<and> unat n < 2 ^ 31)"
| "comparable e a = (width e \<noteq> None \<and> integral a \<noteq> None)"

text \<open>When they are the same: spans by their contents, integral operands once the actual one is
  converted to the type of the expected one, so that only the low bits of it count.\<close>

fun same :: "operand \<Rightarrow> operand \<Rightarrow> bool" where
  "same (CSTR s) (CSTR t) \<longleftrightarrow> s = t"
| "same (SPAN p n) (SPAN q m) \<longleftrightarrow> n = m \<and> take (unat n) p = take (unat n) q"
| "same e a \<longleftrightarrow> (case (width e, integral e, integral a) of
     (Some w, Some v, Some u) \<Rightarrow> u mod 2 ^ w = v mod 2 ^ w | _ \<Rightarrow> False)"

definition at_place :: "string \<Rightarrow> int \<Rightarrow> bool \<Rightarrow> failure option \<Rightarrow> bool" where
  "at_place file line isFatal r \<longleftrightarrow>
     (\<forall>f. r = Some f \<longrightarrow> fl_file f = file \<and> fl_line f = line \<and> fl_fatal f = isFatal)"

lemma at_place_simps [simp]:
  "at_place file line isFatal None" "at_place file line isFatal (fail_at file line isFatal text)"
  by (simp_all add: at_place_def fail_at_def)

lemma check_equal_for_exact:
  "check_equal_for fmt file line isFatal invert e a = None \<longleftrightarrow> (e = a) \<noteq> invert"
  "at_place file line isFatal (check_equal_for fmt file line isFatal invert e a)"
  by (auto simp: check_equal_for_def fail_at_def at_place_def Let_def)

lemma check_equal_span_at:
  "check_equal_span file line isFatal invert x y = Ok r \<Longrightarrow> at_place file line isFatal r"
  by (cases x; cases y) (auto simp: check_equal_span_def Let_def split: if_splits)

lemma char_of_same: "char_of (unat (of_char c :: u8)) = c"
proof -
  have "unat (of_char c :: u8) = unat (of_nat (of_char c) :: u8)" by (simp only: of_nat_of_char)
  also have "\<dots> = of_char c mod 256" by (subst unat_of_nat) simp
  also have "\<dots> = of_char c" by (rule of_char_mod_256)
  finally show ?thesis by (simp only: char_of_char)
qed

text \<open>What is promised of the result of an assertion.\<close>

definition exact :: "string \<Rightarrow> int \<Rightarrow> bool \<Rightarrow> bool \<Rightarrow> failure option c_res option \<Rightarrow> bool" where
  "exact file line isFatal agrees m \<longleftrightarrow>
     (\<exists>r. m = Some (Ok r) \<and> (r = None \<longleftrightarrow> agrees) \<and> at_place file line isFatal r)"

lemma exact_for:
  "exact file line isFatal ((e = a) \<noteq> invert)
     (Some (Ok (check_equal_for fmt file line isFatal invert e a)))"
  by (simp add: exact_def check_equal_for_exact)

text \<open>The conversion.\<close>

lemma convert_word:
  fixes e :: "'a :: len word"
  shows "e = word_of_int u \<longleftrightarrow> u mod 2 ^ LENGTH('a) = uint e mod 2 ^ LENGTH('a)"
    and "e = word_of_int u \<longleftrightarrow> u mod 2 ^ LENGTH('a) = sint e mod 2 ^ LENGTH('a)"
proof -
  have conv: "(word_of_int v :: 'a word) = word_of_int u \<longleftrightarrow> u mod 2 ^ LENGTH('a) = v mod 2 ^ LENGTH('a)" for v
    by (auto simp: word_of_int_eq_iff take_bit_eq_mod)
  show "e = word_of_int u \<longleftrightarrow> u mod 2 ^ LENGTH('a) = uint e mod 2 ^ LENGTH('a)"
    using conv [of "uint e"] by simp
  show "e = word_of_int u \<longleftrightarrow> u mod 2 ^ LENGTH('a) = sint e mod 2 ^ LENGTH('a)"
    using conv [of "sint e"] by simp
qed

lemma of_char_same: "(of_char (char_of (unat w)) :: u8) = w"
proof -
  have "unat w < 256" using unsigned_less [of w] by simp
  then have "(of_char (char_of (unat w)) :: nat) = unat w" by simp
  then have "(of_nat (of_char (char_of (unat w))) :: u8) = of_nat (unat w)" by (simp only:)
  then show ?thesis by (simp only: of_nat_of_char) simp
qed

lemma convert_char:
  "c = char_of (unat (word_of_int u :: u8)) \<longleftrightarrow> u mod 2 ^ 8 = sint (of_char c :: u8) mod 2 ^ 8"
proof -
  have "c = char_of (unat (word_of_int u :: u8)) \<longleftrightarrow> (of_char c :: u8) = word_of_int u"
    by (metis of_char_same char_of_same)
  also have "\<dots> \<longleftrightarrow> u mod 2 ^ 8 = sint (of_char c :: u8) mod 2 ^ 8"
    using convert_word(2) [of "of_char c :: u8" u] by simp
  finally show ?thesis .
qed

lemma exact_cong:
  assumes "m = Some (Ok (check_equal_for fmt file line isFatal invert e a))" "e = a \<longleftrightarrow> agrees"
  shows "exact file line isFatal (agrees \<noteq> invert) m"
  unfolding assms(1) assms(2) [symmetric] by (rule exact_for)

lemma check_integral_exact:
  assumes "width e = Some w" "integral e = Some v" "integral a = Some u"
  shows "exact file line isFatal ((u mod 2 ^ w = v mod 2 ^ w) \<noteq> invert)
    (CHECK_EQUAL file line e a isFatal invert)"
proof (cases e)
  case (Char c)
  show ?thesis
    by (rule exact_cong [where e = c and a = "char_of (unat (word_of_int u :: u8))"],
        simp add: CHECK_EQUAL_def Char assms(3) check_equal_char_def)
      (use convert_char [of c u] assms Char in simp)
next
  case (Signed_int i)
  show ?thesis
    by (rule exact_cong [where e = i and a = "word_of_int u"],
        simp add: CHECK_EQUAL_def Signed_int assms(3) check_equal_sint_def)
      (use convert_word(2) [of i u] assms Signed_int in simp)
next
  case (Unsigned_int i)
  show ?thesis
    by (rule exact_cong [where e = i and a = "word_of_int u"],
        simp add: CHECK_EQUAL_def Unsigned_int assms(3) check_equal_uint_def)
      (use convert_word(1) [of i u] assms Unsigned_int in simp)
next
  case (Signed_long i)
  show ?thesis
    by (rule exact_cong [where e = i and a = "word_of_int u"],
        simp add: CHECK_EQUAL_def Signed_long assms(3) check_equal_slong_def)
      (use convert_word(2) [of i u] assms Signed_long in simp)
next
  case (Unsigned_long i)
  show ?thesis
    by (rule exact_cong [where e = i and a = "word_of_int u"],
        simp add: CHECK_EQUAL_def Unsigned_long assms(3) check_equal_ulong_def)
      (use convert_word(1) [of i u] assms Unsigned_long in simp)
qed (use assms in simp_all)

lemma check_string_exact:
  "exact file line isFatal ((s = t) \<noteq> invert) (CHECK_EQUAL file line (CSTR s) (CSTR t) isFatal invert)"
  by (rule exact_cong [where e = s and a = t]) (simp_all add: CHECK_EQUAL_def check_equal_cstr_def)

lemma check_span_exact:
  assumes "comparable (SPAN p n) (SPAN q m)"
  shows "exact file line isFatal (same (SPAN p n) (SPAN q m) \<noteq> invert)
    (CHECK_EQUAL file line (SPAN p n) (SPAN q m) isFatal invert)"
proof -
  have span: "unat n \<le> length p" "unat m \<le> length q" "unat n < 2 ^ 31" using assms by simp_all
  obtain r where r: "check_equal_span file line isFatal invert (p, n) (q, m) = Ok r"
    "r = None \<longleftrightarrow> (n = m \<and> take (unat n) p = take (unat n) q) \<noteq> invert"
    using check_equal_span_exact [OF span] by blast
  show ?thesis
    unfolding exact_def CHECK_EQUAL_def operand.case same.simps
    by (rule exI [of _ r], intro conjI, simp only: r(1), rule r(2), rule check_equal_span_at [OF r(1)])
qed

lemma width_integral: "width e = Some w \<Longrightarrow> \<exists>v. integral e = Some v"
  by (cases e) simp_all

lemma same_integral:
  "width e = Some w \<Longrightarrow> integral e = Some v \<Longrightarrow> integral a = Some u \<Longrightarrow>
   comparable e a \<and> (same e a \<longleftrightarrow> u mod 2 ^ w = v mod 2 ^ w)"
  by (cases e) simp_all

lemma comparable_cases:
  assumes "comparable e a"
  obtains s t where "e = CSTR s" "a = CSTR t"
  | p n q m where "e = SPAN p n" "a = SPAN q m"
  | w v u where "width e = Some w" "integral e = Some v" "integral a = Some u"
  using assms
proof (cases "width e")
  case (Some w)
  then obtain v where v: "integral e = Some v" using width_integral by blast
  have "integral a \<noteq> None" using assms Some by (cases e) simp_all
  then obtain u where "integral a = Some u" by blast
  then show thesis using that(3) Some v by blast
next
  case None
  then show thesis using assms that(1,2) by (cases e; cases a) simp_all
qed

lemma check_equal_exact:
  assumes "comparable e a"
  shows "exact file line isFatal (same e a \<noteq> invert) (CHECK_EQUAL file line e a isFatal invert)"
  using assms
proof (cases rule: comparable_cases)
  case 1
  show ?thesis unfolding 1 same.simps by (rule check_string_exact)
next
  case 2
  then show ?thesis using check_span_exact assms by blast
next
  case 3
  then show ?thesis using check_integral_exact [OF 3] same_integral [OF 3] by simp
qed

text \<open>C40. What the equality assertions of the test library report: \<open>ASSERT_EQ\<close> and \<open>EXPECT_EQ\<close> report
  nothing exactly if the operands are the same, \<open>ASSERT_NE\<close> and \<open>EXPECT_NE\<close> exactly if they are not.
  Strings and spans (of at most \<open>INT_MAX\<close> octets, inside their buffers) are the same if their contents
  are, integral operands of any two types if the actual one is equal to the expected one after
  conversion to the type of the expected one, that is modulo two to the power of its width, and
  not only if their values are equal. What is reported carries the place of the assertion and is
  fatal exactly for the \<open>ASSERT\<close> variants. No span is read beyond its end.\<close>
theorem assertions_exact:
  assumes "comparable e a"
  shows "exact file line True (same e a) (ASSERT_EQ file line e a)
    \<and> exact file line False (same e a) (EXPECT_EQ file line e a)
    \<and> exact file line True (\<not> same e a) (ASSERT_NE file line e a)
    \<and> exact file line False (\<not> same e a) (EXPECT_NE file line e a)"
  using check_equal_exact [OF assms, where invert = False] check_equal_exact [OF assms, where invert = True]
  by (simp add: ASSERT_EQ_def EXPECT_EQ_def ASSERT_NE_def EXPECT_NE_def)

theorem assertions_exact_witness:
  "EXPECT_EQ ''t.c'' 7 (SPAN [1, 2, 3] 2) (SPAN [1, 2, 7] 2) = Some (Ok None)
   \<and> EXPECT_EQ ''t.c'' 8 (Signed_int 0) (Signed_long 0x100000000) = Some (Ok None)
   \<and> EXPECT_EQ ''t.c'' 9 (Signed_int 200) (Other_integral 200) = Some (Ok None)"
proof -
  have c: "comparable (SPAN [1, 2, 3] 2) (SPAN [1, 2, 7] 2)" "same (SPAN [1, 2, 3] 2) (SPAN [1, 2, 7] 2)"
    "comparable (Signed_int 0) (Signed_long 0x100000000)" "same (Signed_int 0) (Signed_long 0x100000000)"
    "comparable (Signed_int 200) (Other_integral 200)" "same (Signed_int 200) (Other_integral 200)"
    by (simp_all add: signed_take_bit_int_eq_self)
  show ?thesis
    using assertions_exact [OF c(1), of "''t.c''" 7] assertions_exact [OF c(3), of "''t.c''" 8]
      assertions_exact [OF c(5), of "''t.c''" 9] c(2,4,6)
    unfolding exact_def by blast
qed

end
