(* ===== verification/Driver.thy ===== *)
theory Driver
  imports Txvc_Prelude
begin

text \<open>
  \<open>libtxvc/include/txvc/driver.h\<close>: the interface between the server and its drivers, a record of
  functions on the driver's own state, its name and its help text. The pointers a driver is handed
  are valid during the call only, so the vectors are passed as their contents and the TDO vector is
  returned.
\<close>

record 's driver =
  drv_name :: string
  drv_help :: string
  drv_activate :: "(string \<times> string) list \<Rightarrow> 's \<Rightarrow> (bool \<times> 's) c_res"
  drv_deactivate :: "'s \<Rightarrow> (bool \<times> 's) c_res"
  drv_max_vector_bits :: "'s \<Rightarrow> int"
  drv_set_tck_period :: "int \<Rightarrow> 's \<Rightarrow> (int \<times> 's) c_res"
  drv_shift_bits :: "int \<Rightarrow> u8 list \<Rightarrow> u8 list \<Rightarrow> u8 list \<Rightarrow> 's \<Rightarrow> (bool \<times> u8 list \<times> 's) c_res"

subsection \<open>Contracts\<close>

text \<open>A driver that can be asked for any period and any length: no request leaves defined behaviour
  or the driver's good states, and the TDO vector keeps its size.\<close>

locale safe_driver =
  fixes drv :: "'s driver"
    and invar :: "'s \<Rightarrow> bool"
  assumes tck_safe: "invar s \<Longrightarrow> 0 \<le> t \<Longrightarrow> t < 2 ^ 31 \<Longrightarrow>
      c_safe (drv_set_tck_period drv t s) (\<lambda>(r, s'). r < 2 ^ 31 \<and> invar s')"
    and shift_safe: "invar s \<Longrightarrow> 0 < n \<Longrightarrow> n < 2 ^ 31 \<Longrightarrow>
      n \<le> 8 * int (length tms) \<Longrightarrow> n \<le> 8 * int (length tdi) \<Longrightarrow> n \<le> 8 * int (length tdo) \<Longrightarrow>
      c_safe (drv_shift_bits drv n tms tdi tdo s) (\<lambda>(ok, tdo', s'). length tdo' = length tdo \<and> invar s')"

text \<open>A driver that serves the requests it accepts, as seen through an abstract state: a period
  request gives a period and a new state, and shifting gives the new contents of the TDO vector,
  which depend on the octets of the vectors the bits are in and not on the rest of the buffers.\<close>

locale served_driver =
  fixes drv :: "'s driver"
    and ready :: "'s \<Rightarrow> bool"
    and tck_ok :: "int \<Rightarrow> bool"
    and bits_ok :: "nat \<Rightarrow> bool"
    and view :: "'s \<Rightarrow> 'v"
    and tck_view :: "int \<Rightarrow> 'v \<Rightarrow> int \<times> 'v"
    and shift_view :: "nat \<Rightarrow> u8 list \<Rightarrow> u8 list \<Rightarrow> u8 list \<Rightarrow> 'v \<Rightarrow> u8 list \<times> 'v"
  assumes info_served: "ready s \<Longrightarrow> 0 < drv_max_vector_bits drv s"
    and tck_served: "ready s \<Longrightarrow> tck_ok t \<Longrightarrow>
      \<exists>s'. drv_set_tck_period drv t s = Ok (fst (tck_view t (view s)), s') \<and> ready s'
        \<and> view s' = snd (tck_view t (view s))
        \<and> drv_max_vector_bits drv s' = drv_max_vector_bits drv s"
    and tck_positive: "tck_ok t \<Longrightarrow> 0 < fst (tck_view t v)"
    and shift_served: "ready s \<Longrightarrow> bits_ok n \<Longrightarrow> 0 < n \<Longrightarrow>
      n \<le> 8 * length tms \<Longrightarrow> n \<le> 8 * length tdi \<Longrightarrow> n \<le> 8 * length tdo \<Longrightarrow>
      \<exists>s'. drv_shift_bits drv (int n) tms tdi tdo s = Ok (True, fst (shift_view n tms tdi tdo (view s)), s')
        \<and> ready s' \<and> view s' = snd (shift_view n tms tdi tdo (view s))
        \<and> drv_max_vector_bits drv s' = drv_max_vector_bits drv s"
    and shift_length: "n \<le> 8 * length tdi \<Longrightarrow> n \<le> 8 * length tdo \<Longrightarrow>
      length (fst (shift_view n tms tdi tdo v)) = length tdo"
    and shift_local: "n \<le> 8 * k \<Longrightarrow> k \<le> length tms \<Longrightarrow> k \<le> length tdi \<Longrightarrow>
      shift_view n (take k tms) (take k tdi) tdo v = shift_view n tms tdi tdo v"

end
