(* ===== verification/Server.thy ===== *)
theory Server
  imports Driver Logger C_Strings Byte_Copy
begin

text \<open>
  \<open>libtxvc/server.c\<close>: the XVC server.

  The operating system is an argument: a record of the calls the server makes on an arbitrary
  state \<open>'n\<close>, which stands for the network, the allocator and the flag \<open>shouldTerminate\<close>, set by a
  signal handler. A receiving call gives its result and the bytes it stores; \<open>malloc\<close> gives the
  initial contents of the block, since they can be sent to the client. A loop that may run forever
  is a partial function: \<open>None\<close> is a call that does not return.
\<close>

subsection \<open>Operating system\<close>

type_synonym socket = int

record 'n os =
  os_terminate :: "'n \<Rightarrow> bool \<times> 'n"
  os_malloc :: "nat \<Rightarrow> 'n \<Rightarrow> u8 list option \<times> 'n"
  os_peek :: "socket \<Rightarrow> nat \<Rightarrow> 'n \<Rightarrow> int \<times> u8 list \<times> 'n"
  os_recv :: "socket \<Rightarrow> nat \<Rightarrow> 'n \<Rightarrow> int \<times> u8 list \<times> 'n"
  os_send :: "socket \<Rightarrow> u8 list \<Rightarrow> 'n \<Rightarrow> int \<times> 'n"
  os_socket :: "'n \<Rightarrow> socket \<times> 'n"
  os_bind :: "socket \<Rightarrow> u32 \<Rightarrow> 16 word \<Rightarrow> 'n \<Rightarrow> int \<times> 'n"
  os_listen :: "socket \<Rightarrow> 'n \<Rightarrow> int \<times> 'n"
  os_accept :: "socket \<Rightarrow> 'n \<Rightarrow> socket \<times> bool \<times> 'n"    \<comment> \<open>is the peer \<open>AF_INET\<close>\<close>
  os_shutdown :: "socket \<Rightarrow> 'n \<Rightarrow> 'n"
  os_close :: "socket \<Rightarrow> 'n \<Rightarrow> 'n"

text \<open>What POSIX promises of the calls that store or provide memory.\<close>

definition os_ok :: "'n os \<Rightarrow> bool" where
  "os_ok os \<longleftrightarrow>
     (\<forall>sz n v n'. os_malloc os sz n = (Some v, n') \<longrightarrow> length v = sz)
     \<and> (\<forall>s sz n r v n'. os_peek os s sz n = (r, v, n') \<longrightarrow> length v \<le> sz \<and> int (length v) = max 0 r)
     \<and> (\<forall>s sz n r v n'. os_recv os s sz n = (r, v, n') \<longrightarrow> length v \<le> sz \<and> int (length v) = max 0 r)"

subsection \<open>Connections\<close>

text \<open>A vector pointer: null, to a live block, or to one that has been freed.\<close>

datatype vec = Null | Block "u8 list" | Freed

record connection =
  cn_socket :: socket
  vectorNumBytes :: nat
  tmsVector :: vec
  tdiVector :: vec
  tdoVector :: vec

fun free_vec :: "vec \<Rightarrow> vec c_res" where
  "free_vec Null = Ok Null"
| "free_vec (Block v) = Ok Freed"
| "free_vec Freed = Fault DeadObject"

fun vec_bytes :: "vec \<Rightarrow> u8 list c_res" where
  "vec_bytes Null = Fault NullDeref"
| "vec_bytes (Block v) = Ok v"
| "vec_bytes Freed = Fault DeadObject"

definition deallocate_vectors :: "connection \<Rightarrow> connection c_res" where
  "deallocate_vectors conn =
     c_bind (free_vec (tmsVector conn)) (\<lambda>a. c_bind (free_vec (tdiVector conn)) (\<lambda>b.
     c_bind (free_vec (tdoVector conn)) (\<lambda>c.
       Ok (conn\<lparr>tmsVector := a, tdiVector := b, tdoVector := c, vectorNumBytes := 0\<rparr>))))"

definition alloc_vec :: "'n os \<Rightarrow> nat \<Rightarrow> 'n \<Rightarrow> (vec \<times> 'n) c_res" where
  "alloc_vec os numBytes n = (case os_malloc os numBytes n of
     (None, n') \<Rightarrow> Fault FatalAbort | (Some v, n') \<Rightarrow> Ok (Block v, n'))"

definition allocate_vectors ::
  "'n os \<Rightarrow> connection \<Rightarrow> nat \<Rightarrow> 'n \<Rightarrow> (connection \<times> 'n) c_res" where
  "allocate_vectors os conn numBytes n =
     c_bind (deallocate_vectors conn) (\<lambda>conn.
     c_bind (alloc_vec os numBytes n) (\<lambda>(a, n).
     c_bind (alloc_vec os numBytes n) (\<lambda>(b, n).
     c_bind (alloc_vec os numBytes n) (\<lambda>(c, n).
       Ok (conn\<lparr>tmsVector := a, tdiVector := b, tdoVector := c, vectorNumBytes := numBytes\<rparr>, n)))))"

text \<open>\<open>log_vector\<close>: the rows it logs, as the offset of the first bit and the bits.\<close>

function log_vector_loop ::
  "u8 list \<Rightarrow> nat \<Rightarrow> nat \<Rightarrow> string \<Rightarrow> nat \<Rightarrow> (nat \<times> string) list c_res" where
  "log_vector_loop data numBits i bits row =
     (if i < numBits then
        let col = i mod 64 in
        c_bind (rd_at data (int (i div 8))) (\<lambda>octet.
          let c = (if octet AND push_bit (i mod 8) 1 \<noteq> 0 then CHR ''1'' else CHR ''0'');
              bits = bits[col := c] in
          if i + 1 \<ge> numBits \<or> col = 63 then
            c_bind (wr_at bits (int (col + 1)) CHR 0x00) (\<lambda>bits.
            c_bind (log_vector_loop data numBits (i + 1) bits (row + 1)) (\<lambda>rest.
              Ok ((row * 64, takeWhile (\<lambda>c. c \<noteq> CHR 0x00) bits) # rest)))
          else log_vector_loop data numBits (i + 1) bits row)
      else Ok [])"
  by pat_completeness auto
termination
  by (relation "measure (\<lambda>(data, numBits, i, bits, row). numBits - i)") auto

declare log_vector_loop.simps [simp del]

definition log_vector :: "u8 list \<Rightarrow> nat \<Rightarrow> (nat \<times> string) list c_res" where
  "log_vector data numBits = log_vector_loop data numBits 0 (replicate 65 CHR 0x00) 0"

subsection \<open>Transfers\<close>

definition send_data :: "'n os \<Rightarrow> socket \<Rightarrow> u8 list \<Rightarrow> 'n \<Rightarrow> bool \<times> 'n" where
  "send_data os s buf n = (case os_send os s buf n of (res, n') \<Rightarrow>
     ((if res > 0 then nat res else 0) = length buf, n'))"

text \<open>\<open>recv_data\<close> into the first \<open>sz\<close> bytes of a buffer.\<close>

definition recv_data ::
  "'n os \<Rightarrow> socket \<Rightarrow> u8 list \<Rightarrow> nat \<Rightarrow> 'n \<Rightarrow> (bool \<times> u8 list \<times> 'n) c_res" where
  "recv_data os s buf sz n = (case os_recv os s sz n of (res, bytes, n') \<Rightarrow>
     c_bind (blit buf 0 bytes) (\<lambda>buf'. Ok ((if res > 0 then nat res else 0) = sz, buf', n')))"

text \<open>A little-endian \<open>int\<close>; shifting into the sign bit wraps, as with the project's compilers.\<close>

definition recv_xvc_int :: "'n os \<Rightarrow> socket \<Rightarrow> 'n \<Rightarrow> (int \<times> 'n) c_res" where
  "recv_xvc_int os s n =
     c_bind (recv_data os s (replicate 4 0) 4 n) (\<lambda>(ok, payload, n').
       if ok then
         Ok (sint (push_bit 24 (ucast (payload ! 3)) OR push_bit 16 (ucast (payload ! 2))
                   OR push_bit 8 (ucast (payload ! 1)) OR ucast (payload ! 0) :: u32), n')
       else Ok (- 1, n'))"

definition ascii :: "string \<Rightarrow> u8 list" where
  "ascii s = map of_char s"

subsection \<open>Commands\<close>

type_synonym ('n, 's) handler_result = "(bool \<times> connection \<times> 'n \<times> 's) c_res"

definition cmd_getinfo ::
  "'n os \<Rightarrow> 's driver \<Rightarrow> connection \<Rightarrow> 'n \<Rightarrow> 's \<Rightarrow> ('n, 's) handler_result" where
  "cmd_getinfo os drv conn n s =
     (let maxVectorBits = drv_max_vector_bits drv s in
      if maxVectorBits \<le> 0 then Ok (False, conn, n, s)
      else case send_data os (cn_socket conn)
             (ascii (''xvcServer_v1.0:'' @ decimal_int maxVectorBits @ [CHR 0x0A])) n of
        (ok, n') \<Rightarrow> Ok (ok, conn, n', s))"

definition le_bytes :: "int \<Rightarrow> u8 list" where
  "le_bytes v = [word_of_int v, word_of_int (v div 2 ^ 8), word_of_int (v div 2 ^ 16),
     word_of_int (v div 2 ^ 24)]"

definition cmd_settck ::
  "'n os \<Rightarrow> 's driver \<Rightarrow> connection \<Rightarrow> 'n \<Rightarrow> 's \<Rightarrow> ('n, 's) handler_result" where
  "cmd_settck os drv conn n s =
     c_bind (recv_xvc_int os (cn_socket conn) n) (\<lambda>(suggestedTckPeriod, n').
       if suggestedTckPeriod < 0 then Ok (False, conn, n', s)
       else c_bind (drv_set_tck_period drv suggestedTckPeriod s) (\<lambda>(tckPeriod, s').
         if tckPeriod \<le> 0 then Ok (False, conn, n', s')
         else case send_data os (cn_socket conn) (le_bytes tckPeriod) n' of
           (ok, n'') \<Rightarrow> Ok (ok, conn, n'', s')))"

definition bytesPerVector :: "int \<Rightarrow> nat" where
  "bytesPerVector numBits = nat numBits div 8 + (if nat numBits mod 8 \<noteq> 0 then 1 else 0)"

text \<open>The vectors, once there is room for \<open>k\<close> octets of each: both are received, then shifted, then
  the answer is sent.\<close>

definition shift_vectors ::
  "'n os \<Rightarrow> 's driver \<Rightarrow> int \<Rightarrow> nat \<Rightarrow> u8 list \<Rightarrow> u8 list \<Rightarrow> connection \<Rightarrow> 'n \<Rightarrow> 's \<Rightarrow>
   ('n, 's) handler_result" where
  "shift_vectors os drv numBits k tms tdi conn n s =
     c_bind (log_vector tms (nat numBits)) (\<lambda>_.
     c_bind (log_vector tdi (nat numBits)) (\<lambda>_.
     c_bind (vec_bytes (tdoVector conn)) (\<lambda>tdo.
     c_bind (drv_shift_bits drv numBits tms tdi tdo s) (\<lambda>(ok, tdo, s).
       let conn = conn\<lparr>tdoVector := Block tdo\<rparr> in
       if \<not> ok then Ok (False, conn, n, s)
       else
         c_bind (log_vector tdo (nat numBits)) (\<lambda>_.
         c_bind (c_slice tdo 0 (int k)) (\<lambda>reply.
           case send_data os (cn_socket conn) reply n of (ok, n) \<Rightarrow> Ok (ok, conn, n, s)))))))"

definition receive_vectors ::
  "'n os \<Rightarrow> 's driver \<Rightarrow> int \<Rightarrow> nat \<Rightarrow> connection \<Rightarrow> 'n \<Rightarrow> 's \<Rightarrow> ('n, 's) handler_result" where
  "receive_vectors os drv numBits k conn n s =
     c_bind (vec_bytes (tmsVector conn)) (\<lambda>tms.
     c_bind (recv_data os (cn_socket conn) tms k n) (\<lambda>(ok, tms, n).
       let conn = conn\<lparr>tmsVector := Block tms\<rparr> in
       if \<not> ok then Ok (False, conn, n, s)
       else
         c_bind (vec_bytes (tdiVector conn)) (\<lambda>tdi.
         c_bind (recv_data os (cn_socket conn) tdi k n) (\<lambda>(ok, tdi, n).
           let conn = conn\<lparr>tdiVector := Block tdi\<rparr> in
           if \<not> ok then Ok (False, conn, n, s)
           else shift_vectors os drv numBits k tms tdi conn n s))))"

definition cmd_shift ::
  "'n os \<Rightarrow> 's driver \<Rightarrow> connection \<Rightarrow> 'n \<Rightarrow> 's \<Rightarrow> ('n, 's) handler_result" where
  "cmd_shift os drv conn n s =
     c_bind (recv_xvc_int os (cn_socket conn) n) (\<lambda>(numBits, n).
       if numBits \<le> 0 then Ok (False, conn, n, s)
       else let k = bytesPerVector numBits in
         c_bind (if k > vectorNumBytes conn then allocate_vectors os conn k n else Ok (conn, n))
           (\<lambda>(conn, n). receive_vectors os drv numBits k conn n s))"

subsection \<open>The connection loop\<close>

datatype command = Getinfo | Settck | Shift

definition commands :: "(u8 list \<times> command) list" where
  "commands = [(ascii ''getinfo:'', Getinfo), (ascii ''settck:'', Settck), (ascii ''shift:'', Shift)]"

fun handler ::
  "command \<Rightarrow> 'n os \<Rightarrow> 's driver \<Rightarrow> connection \<Rightarrow> 'n \<Rightarrow> 's \<Rightarrow> ('n, 's) handler_result" where
  "handler Getinfo = cmd_getinfo"
| "handler Settck = cmd_settck"
| "handler Shift = cmd_shift"

text \<open>The \<open>for\<close> loop over the commands; the boolean of the result is whether the \<open>while\<close> loop
  goes on.\<close>

fun dispatch ::
  "(u8 list \<times> command) list \<Rightarrow> nat \<Rightarrow> u8 list \<Rightarrow> bool \<Rightarrow>
   'n os \<Rightarrow> 's driver \<Rightarrow> connection \<Rightarrow> 'n \<Rightarrow> 's \<Rightarrow> ('n, 's) handler_result" where
  "dispatch [] sockRead command shouldContinue os drv conn n s = Ok (shouldContinue, conn, n, s)"
| "dispatch ((prefix, h) # cs) sockRead command shouldContinue os drv conn n s =
     (if sockRead < length prefix then dispatch cs sockRead command True os drv conn n s
      else if take (length prefix) command = prefix then
        c_bind (recv_data os (cn_socket conn) command (length prefix) n) (\<lambda>(ok, _, n).
          if \<not> ok then Ok (False, conn, n, s) else handler h os drv conn n s)
      else dispatch cs sockRead command shouldContinue os drv conn n s)"

text \<open>One iteration after the test of the flag.\<close>

definition connection_step ::
  "'n os \<Rightarrow> 's driver \<Rightarrow> connection \<Rightarrow> 'n \<Rightarrow> 's \<Rightarrow> ('n, 's) handler_result" where
  "connection_step os drv conn n s =
     (case os_peek os (cn_socket conn) 16 n of (sockRes, bytes, n) \<Rightarrow>
        c_bind (blit (replicate 16 0) 0 bytes) (\<lambda>command.
          if sockRes = 0 \<or> sockRes < 0 then Ok (False, conn, n, s)
          else dispatch commands (nat sockRes) command False os drv conn n s))"

partial_function (option) run_connectin ::
  "'n os \<Rightarrow> 's driver \<Rightarrow> connection \<Rightarrow> 'n \<Rightarrow> 's \<Rightarrow> (connection \<times> 'n \<times> 's) c_res option" where
  "run_connectin os drv conn n s =
     (case os_terminate os n of (terminate, n) \<Rightarrow>
        if terminate then Some (Ok (conn, n, s))
        else case connection_step os drv conn n s of
          Fault e \<Rightarrow> Some (Fault e)
        | Ok (continue, conn, n, s) \<Rightarrow>
            if continue then run_connectin os drv conn n s else Some (Ok (conn, n, s)))"

subsection \<open>The server\<close>

text \<open>One accepted connection, from the null vectors to their release.\<close>

definition serve_connection ::
  "'n os \<Rightarrow> 's driver \<Rightarrow> socket \<Rightarrow> 'n \<Rightarrow> 's \<Rightarrow> ('n \<times> 's) c_res option" where
  "serve_connection os drv sock n s =
     (case run_connectin os drv \<lparr>cn_socket = sock, vectorNumBytes = 0, tmsVector = Null,
                                 tdiVector = Null, tdoVector = Null\<rparr> n s of
        None \<Rightarrow> None
      | Some (Fault e) \<Rightarrow> Some (Fault e)
      | Some (Ok (conn, n, s)) \<Rightarrow> Some (c_bind (deallocate_vectors conn) (\<lambda>_. Ok (n, s))))"

partial_function (option) accept_loop ::
  "'n os \<Rightarrow> 's driver \<Rightarrow> socket \<Rightarrow> 'n \<Rightarrow> 's \<Rightarrow> ('n \<times> 's) c_res option" where
  "accept_loop os drv serverSocket n s =
     (case os_terminate os n of (terminate, n) \<Rightarrow>
        if terminate then Some (Ok (n, s))
        else case os_accept os serverSocket n of (sock, inet, n) \<Rightarrow>
          if sock < 0 then accept_loop os drv serverSocket n s
          else case (if inet then serve_connection os drv sock n s else Some (Ok (n, s))) of
            None \<Rightarrow> None
          | Some (Fault e) \<Rightarrow> Some (Fault e)
          | Some (Ok (n, s)) \<Rightarrow>
              accept_loop os drv serverSocket (os_close os sock (os_shutdown os sock n)) s)"

definition run_with_address ::
  "'n os \<Rightarrow> u32 \<Rightarrow> 16 word \<Rightarrow> 's driver \<Rightarrow> 'n \<Rightarrow> 's \<Rightarrow> ('n \<times> 's) c_res option" where
  "run_with_address os inAddr port drv n s =
     (case os_socket os n of (serverSocket, n) \<Rightarrow>
        if serverSocket < 0 then Some (Ok (n, s))
        else case os_bind os serverSocket inAddr port n of (err, n) \<Rightarrow>
          if err \<noteq> 0 then Some (Ok (os_close os serverSocket n, s))
          else case os_listen os serverSocket n of (err, n) \<Rightarrow>
            if err \<noteq> 0 then Some (Ok (os_close os serverSocket n, s))
            else accept_loop os drv serverSocket n s)"

text \<open>The address is cut to the local buffer of 128 characters; \<open>inet_aton\<close> is an argument. The
  result is none if the address is malformed.\<close>

definition parse_address :: "(string \<Rightarrow> u32 option) \<Rightarrow> string \<Rightarrow> (u32 \<times> 16 word) option" where
  "parse_address inet_aton address =
     (let buf = take 127 address;
          addrStr = takeWhile (\<lambda>c. c \<noteq> CHR '':'') buf;
          portStr = drop (length addrStr + 1) buf
      in if CHR '':'' \<notin> set buf then None
         else case inet_aton addrStr of
           None \<Rightarrow> None
         | Some addr \<Rightarrow> (case c_strtol portStr 0 of (port, endp) \<Rightarrow>
             if char_at portStr endp \<noteq> CHR 0x00 then None else Some (addr, word_of_int port)))"

definition txvc_run_server ::
  "(string \<Rightarrow> u32 option) \<Rightarrow> 'n os \<Rightarrow> string \<Rightarrow> 's driver \<Rightarrow> 'n \<Rightarrow> 's \<Rightarrow> ('n \<times> 's) c_res option" where
  "txvc_run_server inet_aton os address drv n s =
     (case parse_address inet_aton address of
        None \<Rightarrow> Some (Ok (n, s))
      | Some (addr, port) \<Rightarrow> run_with_address os addr port drv n s)"

subsection \<open>Vectors\<close>

text \<open>The vectors are null or blocks of the recorded size.\<close>

definition conn_inv :: "connection \<Rightarrow> bool" where
  "conn_inv c \<longleftrightarrow>
     (vectorNumBytes c = 0 \<and> tmsVector c = Null \<and> tdiVector c = Null \<and> tdoVector c = Null)
     \<or> (\<exists>tms tdi tdo. tmsVector c = Block tms \<and> tdiVector c = Block tdi \<and> tdoVector c = Block tdo
          \<and> length tms = vectorNumBytes c \<and> length tdi = vectorNumBytes c
          \<and> length tdo = vectorNumBytes c)"

lemma conn_inv_blocks:
  assumes "conn_inv c" "0 < k" "k \<le> vectorNumBytes c"
  obtains tms tdi tdo where "tmsVector c = Block tms" "tdiVector c = Block tdi"
    "tdoVector c = Block tdo" "length tms = vectorNumBytes c" "length tdi = vectorNumBytes c"
    "length tdo = vectorNumBytes c"
  using assms by (auto simp: conn_inv_def)

lemma deallocate_ok: "conn_inv c \<Longrightarrow> \<exists>c'. deallocate_vectors c = Ok c'"
  by (auto simp: conn_inv_def deallocate_vectors_def)

lemma os_okD:
  assumes "os_ok os"
  shows "os_malloc os sz n = (Some v, n') \<Longrightarrow> length v = sz"
    and "os_peek os s sz n = (r, v, n') \<Longrightarrow> length v \<le> sz \<and> int (length v) = max 0 r"
    and "os_recv os s sz n = (r, v, n') \<Longrightarrow> length v \<le> sz \<and> int (length v) = max 0 r"
  using assms unfolding os_ok_def by blast+

lemma alloc_vec_safe:
  assumes "os_ok os"
  shows "c_safe (alloc_vec os k n) (\<lambda>(a, n'). \<exists>v. a = Block v \<and> length v = k)"
  using os_okD(1) [OF assms] by (auto simp: alloc_vec_def split: prod.split option.split)

lemma allocate_safe:
  assumes "os_ok os" "conn_inv c"
  shows "c_safe (allocate_vectors os c k n)
    (\<lambda>(c', n'). conn_inv c' \<and> vectorNumBytes c' = k \<and> cn_socket c' = cn_socket c)"
proof -
  obtain c1 where c1: "deallocate_vectors c = Ok c1" using deallocate_ok [OF assms(2)] by blast
  then have "cn_socket c1 = cn_socket c" by (auto simp: deallocate_vectors_def)
  then show ?thesis
    unfolding allocate_vectors_def c1 c_bind.simps
    by (intro c_safe_bindI [OF alloc_vec_safe [OF assms(1)]])
       (auto simp: conn_inv_def intro!: c_safe_bindI [OF alloc_vec_safe [OF assms(1)]])
qed

lemma recv_data_safe:
  assumes "os_ok os" "sz \<le> length buf"
  shows "c_safe (recv_data os s buf sz n) (\<lambda>(ok, buf', n'). length buf' = length buf)"
proof -
  obtain r v n' where r: "os_recv os s sz n = (r, v, n')" by (metis prod_cases3)
  have "length v \<le> sz" using os_okD(3) [OF assms(1) r] by simp
  then show ?thesis using assms(2) r by (simp add: recv_data_def blit_def)
qed

lemma recv_xvc_int_safe:
  assumes "os_ok os"
  shows "c_safe (recv_xvc_int os s n) (\<lambda>(v, n'). - (2 ^ 31) \<le> v \<and> v < 2 ^ 31)"
  unfolding recv_xvc_int_def
proof (rule c_safe_bindI [OF recv_data_safe [OF assms]])
  show "4 \<le> length (replicate 4 0 :: u8 list)" by simp
  fix x :: "bool \<times> u8 list \<times> 'a"
  have "- (2 ^ 31) \<le> sint w \<and> sint w < 2 ^ 31" for w :: u32
    using sint_greater_eq [of w] sint_less [of w] by simp
  then show "c_safe (case x of (ok, payload, n') \<Rightarrow> if ok then
         Ok (sint (push_bit 24 (ucast (payload ! 3)) OR push_bit 16 (ucast (payload ! 2))
                   OR push_bit 8 (ucast (payload ! 1)) OR ucast (payload ! 0) :: u32), n')
       else Ok (- 1, n')) (\<lambda>(v, n'). - (2 ^ 31) \<le> v \<and> v < 2 ^ 31)"
    by (cases x) auto
qed

lemma log_vector_loop_ok:
  "numBits \<le> 8 * length data \<Longrightarrow> length bits = 65 \<Longrightarrow> \<exists>rows. log_vector_loop data numBits i bits row = Ok rows"
proof (induction data numBits i bits row rule: log_vector_loop.induct)
  case (1 data numBits i bits row)
  show ?case
  proof (cases "i < numBits")
    case True
    then have rd: "rd_at data (int (i div 8)) = Ok (data ! (i div 8))"
      using 1(3) by (intro rd_at_nat) (simp add: octet_index)
    have wr: "wr_at bits' (int (i mod 64 + 1)) c = Ok (bits'[i mod 64 + 1 := c])"
      if "length bits' = 65" for bits' :: string and c
      using that mod_less_divisor [of 64 i] by (intro wr_at_nat) simp
    define c where
      "c = (if data ! (i div 8) AND push_bit (i mod 8) 1 \<noteq> 0 then CHR ''1'' else CHR ''0'')"
    let ?b = "bits[i mod 64 := c]"
    have b: "length ?b = 65" using 1(4) by simp
    show ?thesis
    proof (cases "i + 1 \<ge> numBits \<or> i mod 64 = 63")
      case last: True
      obtain rows where
        "log_vector_loop data numBits (i + 1) (?b[i mod 64 + 1 := CHR 0x00]) (row + 1) = Ok rows"
        using 1(1) [OF True refl rd refl refl last wr] 1(3) b by (auto simp: c_def)
      then have "log_vector_loop data numBits i bits row
          = Ok ((row * 64, takeWhile (\<lambda>c. c \<noteq> CHR 0x00) (?b[i mod 64 + 1 := CHR 0x00])) # rows)"
        by (subst log_vector_loop.simps)
           (simp only: True last rd wr [OF b, unfolded c_def] c_bind.simps Let_def if_True c_def)
      then show ?thesis by blast
    next
      case more: False
      have "log_vector_loop data numBits i bits row
          = log_vector_loop data numBits (i + 1) ?b row"
        by (subst log_vector_loop.simps)
           (simp only: True more rd c_bind.simps Let_def if_True if_False c_def)
      then show ?thesis
        using 1(2) [OF True refl rd refl refl more] 1(3) b by (simp add: c_def)
    qed
  qed (subst log_vector_loop.simps, simp)
qed

lemma log_vector_ok: "numBits \<le> 8 * length data \<Longrightarrow> \<exists>rows. log_vector data numBits = Ok rows"
  unfolding log_vector_def by (rule log_vector_loop_ok) simp_all

lemma bytesPerVector_bounds:
  assumes "0 < n"
  shows "0 < bytesPerVector n" "n \<le> 8 * int (bytesPerVector n)" "nat n \<le> 8 * bytesPerVector n"
proof -
  show *: "nat n \<le> 8 * bytesPerVector n"
    using div_mult_mod_eq [of "nat n" 8] mod_less_divisor [of 8 "nat n"]
    by (auto simp: bytesPerVector_def)
  then show "n \<le> 8 * int (bytesPerVector n)" using assms by linarith
  show "0 < bytesPerVector n"
    using * assms by (cases "bytesPerVector n") simp_all
qed

subsection \<open>Induction on the rounds of the loops\<close>

lemma run_connectin_induct [consumes 1, case_names 1 2 3 4]:
  assumes run: "run_connectin os drv c n s = Some r"
    and quit: "\<And>c n s n1. os_terminate os n = (True, n1) \<Longrightarrow> P c n s (Ok (c, n1, s))"
    and fault: "\<And>c n s n1 e. os_terminate os n = (False, n1) \<Longrightarrow>
      connection_step os drv c n1 s = Fault e \<Longrightarrow> P c n s (Fault e)"
    and last: "\<And>c n s n1 c' n' s'. os_terminate os n = (False, n1) \<Longrightarrow>
      connection_step os drv c n1 s = Ok (False, c', n', s') \<Longrightarrow> P c n s (Ok (c', n', s'))"
    and more: "\<And>c n s n1 c' n' s' r. os_terminate os n = (False, n1) \<Longrightarrow>
      connection_step os drv c n1 s = Ok (True, c', n', s') \<Longrightarrow> P c' n' s' r \<Longrightarrow> P c n s r"
  shows "P c n s r"
proof (rule run_connectin.raw_induct [where P = "\<lambda>os' drv' c n s r. os' = os \<and> drv' = drv \<longrightarrow> P c n s r",
      OF _ run, rule_format])
  fix f os' drv' c n s r
  assume IH: "\<And>os' drv' c n s r. f os' drv' c n s = Some r \<Longrightarrow> os' = os \<and> drv' = drv \<Longrightarrow> P c n s r"
    and eqs: "os' = os \<and> drv' = drv"
    and body: "(case os_terminate os' n of (terminate, n) \<Rightarrow>
        if terminate then Some (Ok (c, n, s))
        else case connection_step os' drv' c n s of
             Ok (continue, c, n, s) \<Rightarrow> if continue then f os' drv' c n s else Some (Ok (c, n, s))
           | Fault e \<Rightarrow> Some (Fault e)) = Some r"
  obtain t n1 where t: "os_terminate os n = (t, n1)" by fastforce
  show "P c n s r"
  proof (cases t)
    case True
    then show ?thesis using quit [of n n1 c s] t body eqs by auto
  next
    case False
    then have t: "os_terminate os n = (False, n1)" using t by simp
    show ?thesis
    proof (cases "connection_step os drv c n1 s")
      case (Fault e)
      then show ?thesis using fault [OF t] t body eqs by auto
    next
      case (Ok x)
      obtain k c' n' s' where x: "x = (k, c', n', s')" by (cases x)
      show ?thesis
        using Ok t body eqs last [OF t, of c s c' n' s'] more [OF t, of c s c' n' s'] IH [of os drv c' n' s' r]
        by (cases k) (auto simp: x)
    qed
  qed
qed simp

lemma accept_loop_induct [consumes 1, case_names 1 2 3 4]:
  assumes run: "accept_loop os drv sock n s = Some r"
    and quit: "\<And>n s n1. os_terminate os n = (True, n1) \<Longrightarrow> P n s (Ok (n1, s))"
    and failed: "\<And>n s n1 sk inet n2 r. os_terminate os n = (False, n1) \<Longrightarrow>
      os_accept os sock n1 = (sk, inet, n2) \<Longrightarrow> sk < 0 \<Longrightarrow> P n2 s r \<Longrightarrow> P n s r"
    and fault: "\<And>n s n1 sk n2 e. os_terminate os n = (False, n1) \<Longrightarrow>
      os_accept os sock n1 = (sk, True, n2) \<Longrightarrow> serve_connection os drv sk n2 s = Some (Fault e) \<Longrightarrow>
      P n s (Fault e)"
    and more: "\<And>n s n1 sk inet n2 n3 s' r. os_terminate os n = (False, n1) \<Longrightarrow>
      os_accept os sock n1 = (sk, inet, n2) \<Longrightarrow> 0 \<le> sk \<Longrightarrow>
      (if inet then serve_connection os drv sk n2 s = Some (Ok (n3, s')) else n3 = n2 \<and> s' = s) \<Longrightarrow>
      P (os_close os sk (os_shutdown os sk n3)) s' r \<Longrightarrow> P n s r"
  shows "P n s r"
proof (rule accept_loop.raw_induct [where
      P = "\<lambda>os' drv' sock' n s r. os' = os \<and> drv' = drv \<and> sock' = sock \<longrightarrow> P n s r",
      OF _ run, rule_format])
  fix f os' drv' sock' n s r
  assume IH: "\<And>os' drv' sock' n s r. f os' drv' sock' n s = Some r \<Longrightarrow>
      os' = os \<and> drv' = drv \<and> sock' = sock \<Longrightarrow> P n s r"
    and eqs: "os' = os \<and> drv' = drv \<and> sock' = sock"
    and body: "(case os_terminate os' n of (terminate, n) \<Rightarrow>
        if terminate then Some (Ok (n, s))
        else case os_accept os' sock' n of (sk, inet, n) \<Rightarrow>
          if sk < 0 then f os' drv' sock' n s
          else case (if inet then serve_connection os' drv' sk n s else Some (Ok (n, s))) of
            None \<Rightarrow> None
          | Some (Ok (n, s)) \<Rightarrow> f os' drv' sock' (os_close os' sk (os_shutdown os' sk n)) s
          | Some (Fault e) \<Rightarrow> Some (Fault e)) = Some r"
  have e: "os' = os" "drv' = drv" "sock' = sock" using eqs by simp_all
  note body = body [unfolded e]
  obtain t n1 where t: "os_terminate os n = (t, n1)" by fastforce
  obtain sk inet n2 where a: "os_accept os sock n1 = (sk, inet, n2)" by (metis prod_cases3)
  show "P n s r"
  proof (cases "t \<or> sk < 0")
    case True
    then show ?thesis
      using quit [of n n1 s] failed [of n n1 sk inet n2 s r] IH [of os drv sock n2 s r] t a body eqs
      by (cases t) auto
  next
    case False
    then have t: "os_terminate os n = (False, n1)" using t by simp
    let ?x = "if inet then serve_connection os drv sk n2 s else Some (Ok (n2, s))"
    have body: "(case ?x of None \<Rightarrow> None
        | Some (Ok (n, s)) \<Rightarrow> f os drv sock (os_close os sk (os_shutdown os sk n)) s
        | Some (Fault e) \<Rightarrow> Some (Fault e)) = Some r"
      using body t a eqs False by (cases inet) simp_all
    then obtain y where y: "?x = Some y" by (cases ?x) auto
    show ?thesis
    proof (cases y)
      case (Fault e)
      with y body have "inet" "serve_connection os drv sk n2 s = Some (Fault e)" "r = Fault e"
        by (auto split: if_splits)
      then show ?thesis using fault [OF t] a by simp
    next
      case (Ok z)
      obtain n3 s' where z: "z = (n3, s')" by (cases z)
      have "f os drv sock (os_close os sk (os_shutdown os sk n3)) s' = Some r"
        using body unfolding y Ok z by simp
      moreover have "if inet then serve_connection os drv sk n2 s = Some (Ok (n3, s')) else n3 = n2 \<and> s' = s"
        using y Ok z by (auto split: if_splits)
      moreover have "0 \<le> sk" using False by simp
      ultimately show ?thesis using more [OF t a] IH by blast
    qed
  qed
qed simp

subsection \<open>Safety\<close>

context safe_driver
begin

definition served :: "bool \<times> connection \<times> 'n \<times> 's \<Rightarrow> bool" where
  "served = (\<lambda>(ok, c, n, s). conn_inv c \<and> invar s)"

lemma served_simp [simp]: "served (ok, c, n, s) \<longleftrightarrow> conn_inv c \<and> invar s"
  by (simp add: served_def)

lemma getinfo_safe: "conn_inv c \<Longrightarrow> invar s \<Longrightarrow> c_safe (cmd_getinfo os drv c n s) served"
  by (simp add: cmd_getinfo_def Let_def split: prod.split)

lemma settck_safe:
  fixes os :: "'n os"
  assumes "os_ok os" "conn_inv c" "invar s"
  shows "c_safe (cmd_settck os drv c n s) served"
  unfolding cmd_settck_def
proof (rule c_safe_bindI [OF recv_xvc_int_safe [OF assms(1)]])
  fix x :: "int \<times> 'n"
  assume "case x of (v, n') \<Rightarrow> - (2 ^ 31) \<le> v \<and> v < 2 ^ 31"
  then show "c_safe (case x of (t, n') \<Rightarrow> if t < 0 then Ok (False, c, n', s)
      else c_bind (drv_set_tck_period drv t s) (\<lambda>(r, s').
        if r \<le> 0 then Ok (False, c, n', s')
        else case send_data os (cn_socket c) (le_bytes r) n' of (ok, n'') \<Rightarrow> Ok (ok, c, n'', s'))) served"
    using assms(2,3)
    by (auto intro!: c_safe_bindI [OF tck_safe] split: prod.split)
qed

lemma shift_vectors_safe:
  assumes "0 < n" "n < 2 ^ 31" "k = bytesPerVector n" "k \<le> vectorNumBytes c" "invar s"
    and c: "conn_inv c" "tmsVector c = Block tms" "tdiVector c = Block tdi"
  shows "c_safe (shift_vectors os drv n k tms tdi c m s) served"
proof -
  note k = bytesPerVector_bounds [OF assms(1)]
  obtain tdo where v: "tdoVector c = Block tdo" "length tms = vectorNumBytes c"
    "length tdi = vectorNumBytes c" "length tdo = vectorNumBytes c"
    using conn_inv_blocks [OF c(1), of k] k assms(3,4) c(2,3) by force
  have lg: "\<exists>rows. log_vector x (nat n) = Ok rows" if "length x = vectorNumBytes c" for x
    using that k(3) assms(3,4) by (intro log_vector_ok) simp
  have sh: "c_safe (drv_shift_bits drv n tms tdi tdo s) (\<lambda>(ok, tdo', s'). length tdo' = length tdo \<and> invar s')"
    using assms(1-5) k(2) v by (intro shift_safe) simp_all
  have out: "(\<exists>rows. log_vector x (nat n) = Ok rows) \<and> c_slice x 0 (int k) = Ok (take k x)
      \<and> conn_inv (c\<lparr>tdoVector := Block x\<rparr>)" if "length x = vectorNumBytes c" for x
    using that assms(4) v c lg by (auto simp: conn_inv_def intro: c_slice_0)
  obtain r1 r2 where "log_vector tms (nat n) = Ok r1" "log_vector tdi (nat n) = Ok r2"
    using lg v by blast
  then show ?thesis
    unfolding shift_vectors_def
    by (auto simp: v Let_def intro!: c_safe_bindI [OF sh] dest!: out split: prod.split)
qed

lemma receive_vectors_safe:
  fixes os :: "'n os"
  assumes os: "os_ok os" and "0 < n" "n < 2 ^ 31" "k = bytesPerVector n" "k \<le> vectorNumBytes c"
    and "invar s" and c: "conn_inv c"
  shows "c_safe (receive_vectors os drv n k c m s) served"
proof -
  note k = bytesPerVector_bounds [OF assms(2)]
  obtain tms tdi tdo where v: "tmsVector c = Block tms" "tdiVector c = Block tdi"
    "tdoVector c = Block tdo" "length tms = vectorNumBytes c" "length tdi = vectorNumBytes c"
    "length tdo = vectorNumBytes c"
    using conn_inv_blocks [OF c, of k] k assms(4,5) by auto
  have "c_safe (receive_vectors os drv n k c m s) served"
    unfolding receive_vectors_def v vec_bytes.simps c_bind.simps
  proof (rule c_safe_bindI [OF recv_data_safe [OF os]])
    show "k \<le> length tms" using assms(5) v by simp
    fix x :: "bool \<times> u8 list \<times> 'n"
    obtain ok tms' m1 where x: "x = (ok, tms', m1)" by (cases x)
    assume "case x of (ok, buf', n') \<Rightarrow> length buf' = length tms"
    then have l: "length tms' = vectorNumBytes c" using v by (simp add: x)
    have "c_safe (c_bind (recv_data os (cn_socket c) tdi k m1) (\<lambda>(ok, tdi, n').
        let conn = c\<lparr>tmsVector := Block tms', tdiVector := Block tdi\<rparr>
        in if \<not> ok then Ok (False, conn, n', s) else shift_vectors os drv n k tms' tdi conn n' s)) served"
    proof (rule c_safe_bindI [OF recv_data_safe [OF os]])
      show "k \<le> length tdi" using assms(5) v by simp
      fix y :: "bool \<times> u8 list \<times> 'n"
      obtain ok tdi' m2 where y: "y = (ok, tdi', m2)" by (cases y)
      assume "case y of (ok, buf', n') \<Rightarrow> length buf' = length tdi"
      then have "length tdi' = vectorNumBytes c" using v by (simp add: y)
      then have i: "conn_inv (c\<lparr>tmsVector := Block tms', tdiVector := Block tdi'\<rparr>)"
        using l v by (simp add: conn_inv_def)
      then show "c_safe (case y of (ok, tdi, n') \<Rightarrow>
          let conn = c\<lparr>tmsVector := Block tms', tdiVector := Block tdi\<rparr>
          in if \<not> ok then Ok (False, conn, n', s) else shift_vectors os drv n k tms' tdi conn n' s) served"
        using assms(2-6) by (auto simp: y Let_def intro!: shift_vectors_safe)
    qed
    moreover have "conn_inv (c\<lparr>tmsVector := Block tms'\<rparr>)" using l v by (simp add: conn_inv_def)
    ultimately show "c_safe (case x of (ok, tms, m) \<Rightarrow>
        let conn = c\<lparr>tmsVector := Block tms\<rparr> in
        if \<not> ok then Ok (False, conn, m, s)
        else c_bind (vec_bytes (tdiVector conn)) (\<lambda>tdi.
          c_bind (recv_data os (cn_socket conn) tdi k m) (\<lambda>(ok, tdi, n').
            let conn = conn\<lparr>tdiVector := Block tdi\<rparr>
            in if \<not> ok then Ok (False, conn, n', s)
               else shift_vectors os drv n k tms tdi conn n' s))) served"
      using assms(6) by (simp add: x v Let_def)
  qed
  then show ?thesis .
qed

lemma shift_cmd_safe:
  fixes os :: "'n os"
  assumes os: "os_ok os" and c: "conn_inv c" and s: "invar s"
  shows "c_safe (cmd_shift os drv c n s) served"
  unfolding cmd_shift_def
proof (rule c_safe_bindI [OF recv_xvc_int_safe [OF os]])
  fix x :: "int \<times> 'n"
  obtain v m where x: "x = (v, m)" by (cases x)
  assume "case x of (v, n') \<Rightarrow> - (2 ^ 31) \<le> v \<and> v < 2 ^ 31"
  then have v: "v < 2 ^ 31" by (simp add: x)
  let ?k = "bytesPerVector v"
  have "c_safe (if ?k > vectorNumBytes c then allocate_vectors os c ?k m else Ok (c, m))
      (\<lambda>(c', m'). conn_inv c' \<and> ?k \<le> vectorNumBytes c')"
    using c by (auto intro: c_safe_mono [OF allocate_safe [OF os c]])
  then have "c_safe (c_bind (if ?k > vectorNumBytes c then allocate_vectors os c ?k m else Ok (c, m))
      (\<lambda>(c, m). receive_vectors os drv v ?k c m s)) served" if "0 < v"
    by (rule c_safe_bindI) (use os v s that in \<open>auto intro: receive_vectors_safe\<close>)
  then show "c_safe (case x of (v, m) \<Rightarrow> if v \<le> 0 then Ok (False, c, m, s)
      else let k = bytesPerVector v in
        c_bind (if k > vectorNumBytes c then allocate_vectors os c k m else Ok (c, m))
          (\<lambda>(c, m). receive_vectors os drv v k c m s)) served"
    using c s by (auto simp: x Let_def)
qed

lemma handler_safe:
  "os_ok os \<Longrightarrow> conn_inv c \<Longrightarrow> invar s \<Longrightarrow> c_safe (handler h os drv c n s) served"
  by (cases h) (simp_all add: getinfo_safe settck_safe shift_cmd_safe)

lemma dispatch_safe:
  fixes os :: "'n os"
  assumes os: "os_ok os" and c: "conn_inv c" and s: "invar s"
  shows "\<forall>(p, h) \<in> set cs. length p \<le> length cmd \<Longrightarrow>
    c_safe (dispatch cs r cmd b os drv c n s) served"
proof (induction cs arbitrary: b)
  case (Cons a cs)
  obtain p h where a: "a = (p, h)" by (cases a)
  have "length p \<le> length cmd" using Cons.prems by (simp add: a)
  then have "c_safe (c_bind (recv_data os (cn_socket c) cmd (length p) n) (\<lambda>(ok, _, n).
      if \<not> ok then Ok (False, c, n, s) else handler h os drv c n s)) served"
    by (intro c_safe_bindI [OF recv_data_safe [OF os]])
       (use c s in \<open>auto intro: handler_safe [OF os]\<close>)
  then show ?case using Cons by (simp add: a)
qed (use c s in simp)

lemma connection_step_safe:
  assumes os: "os_ok os" and c: "conn_inv c" and s: "invar s"
  shows "c_safe (connection_step os drv c n s) served"
proof -
  obtain r v m where r: "os_peek os (cn_socket c) 16 n = (r, v, m)" by (metis prod_cases3)
  have v: "length v \<le> 16" using os_okD(2) [OF os r] by simp
  then have "length (v @ drop (length v) (replicate 16 0)) = 16" by simp
  moreover have "\<forall>(p, h) \<in> set commands. length p \<le> 16" by (simp add: commands_def ascii_def)
  ultimately have "c_safe (dispatch commands (nat r) (v @ drop (length v) (replicate 16 0)) False os drv c m s) served"
    by (intro dispatch_safe [OF os c s]) metis
  then show ?thesis
    using v c s by (simp add: connection_step_def r blit_def del: drop_replicate)
qed

lemma run_connectin_safe:
  assumes os: "os_ok os" and r: "run_connectin os drv c n s = Some r" and c: "conn_inv c" "invar s"
  shows "c_safe r (\<lambda>(c', n', s'). conn_inv c' \<and> invar s')"
  using c
proof (induction rule: run_connectin_induct [OF r])
  case (2 c n s n1 e)
  then show ?case using connection_step_safe [OF os, of c s n1] by simp
next
  case (3 c n s n1 c' n' s')
  then show ?case using connection_step_safe [OF os, of c s n1] by simp
next
  case (4 c n s n1 c' n' s' r)
  then show ?case using connection_step_safe [OF os, of c s n1] by simp
qed simp

lemma serve_connection_safe:
  assumes "os_ok os" "serve_connection os drv sock n s = Some r" "invar s"
  shows "c_safe r (\<lambda>(n', s'). invar s')"
proof -
  let ?c = "\<lparr>cn_socket = sock, vectorNumBytes = 0, tmsVector = Null, tdiVector = Null, tdoVector = Null\<rparr>"
  obtain q where q: "run_connectin os drv ?c n s = Some q"
    using assms(2) by (auto simp: serve_connection_def split: option.splits)
  have "conn_inv ?c" by (simp add: conn_inv_def)
  then have "c_safe q (\<lambda>(c', n', s'). conn_inv c' \<and> invar s')"
    using run_connectin_safe [OF assms(1) q] assms(3) by simp
  then show ?thesis
    using assms(2) deallocate_ok
    by (cases q) (fastforce simp: serve_connection_def q)+
qed

lemma accept_loop_safe:
  assumes os: "os_ok os" and r: "accept_loop os drv sock n s = Some r" and "invar s"
  shows "c_safe r (\<lambda>(n', s'). invar s')"
  using assms(3)
proof (induction rule: accept_loop_induct [OF r])
  case (3 n s n1 sk n2 e)
  then show ?case using serve_connection_safe [OF os] by fastforce
next
  case (4 n s n1 sk inet n2 n3 s' r)
  then show ?case using serve_connection_safe [OF os] by (cases inet) fastforce+
qed simp_all

lemma run_server_safe:
  assumes "os_ok os" "txvc_run_server inet_aton os address drv n s = Some r" "invar s"
  shows "c_safe r (\<lambda>(n', s'). invar s')"
  using assms(2,3)
  by (auto simp: txvc_run_server_def run_with_address_def intro: accept_loop_safe [OF assms(1)]
      split: option.splits prod.splits if_splits)

end

end
