(* ===== verification/Xvc_Session.thy ===== *)
theory Xvc_Session
  imports Server
begin

text \<open>
  The server of \<open>libtxvc/server.c\<close> as its clients see it.

  The reference peer \<open>ref_os\<close> is an operating system with clients that have sent all their requests
  and then stop sending: a receive takes what is there, and a peek at an empty inbox reports the end
  of the connection. The user interrupts the server when every client has been served. \<open>answers\<close>
  is what the XVC protocol promises the client, in terms of the abstract driver of the interface
  \<open>served_driver\<close>: one answer for each request, in order.
\<close>

subsection \<open>Reference peer\<close>

record peer =
  inbox :: "u8 list"
  outbox :: "u8 list"
  pending :: "u8 list list"    \<comment> \<open>what the clients still to be accepted will send\<close>
  answered :: "u8 list list"   \<comment> \<open>what the clients that have been served got\<close>

definition ref_os :: "(nat \<Rightarrow> u8) \<Rightarrow> peer os" where
  "ref_os junk = \<lparr>
     os_terminate = (\<lambda>n. (inbox n = [] \<and> pending n = [], n)),
     os_malloc = (\<lambda>sz n. (Some (map junk [0..<sz]), n)),
     os_peek = (\<lambda>s sz n. (int (length (take sz (inbox n))), take sz (inbox n), n)),
     os_recv = (\<lambda>s sz n. (int (length (take sz (inbox n))), take sz (inbox n),
       n\<lparr>inbox := drop sz (inbox n)\<rparr>)),
     os_send = (\<lambda>s bs n. (int (length bs), n\<lparr>outbox := outbox n @ bs\<rparr>)),
     os_socket = (\<lambda>n. (3, n)), os_bind = (\<lambda>s a p n. (0, n)), os_listen = (\<lambda>s n. (0, n)),
     os_accept = (\<lambda>s n. (case pending n of [] \<Rightarrow> (- 1, True, n)
       | p # ps \<Rightarrow> (4, True, n\<lparr>inbox := p, outbox := [], pending := ps\<rparr>))),
     os_shutdown = (\<lambda>s n. n),
     os_close = (\<lambda>s n. n\<lparr>inbox := [], outbox := [], answered := answered n @ [outbox n]\<rparr>)\<rparr>"

lemma ref_os_calls [simp]:
  "os_terminate (ref_os junk) n = (inbox n = [] \<and> pending n = [], n)"
  "os_malloc (ref_os junk) sz n = (Some (map junk [0..<sz]), n)"
  "os_peek (ref_os junk) s sz n = (int (length (take sz (inbox n))), take sz (inbox n), n)"
  "os_recv (ref_os junk) s sz n = (int (length (take sz (inbox n))), take sz (inbox n),
     n\<lparr>inbox := drop sz (inbox n)\<rparr>)"
  "os_send (ref_os junk) s bs n = (int (length bs), n\<lparr>outbox := outbox n @ bs\<rparr>)"
  "os_socket (ref_os junk) n = (3, n)" "os_bind (ref_os junk) s a p n = (0, n)"
  "os_listen (ref_os junk) s n = (0, n)"
  "os_accept (ref_os junk) s n = (case pending n of [] \<Rightarrow> (- 1, True, n)
     | p # ps \<Rightarrow> (4, True, n\<lparr>inbox := p, outbox := [], pending := ps\<rparr>))"
  "os_shutdown (ref_os junk) s n = n"
  "os_close (ref_os junk) s n = n\<lparr>inbox := [], outbox := [], answered := answered n @ [outbox n]\<rparr>"
  by (simp_all add: ref_os_def)

lemma ref_os_ok: "os_ok (ref_os junk)"
  by (simp add: os_ok_def)

subsection \<open>Requests and answers\<close>

datatype request = Ask_info | Ask_tck int | Ask_shift nat "u8 list" "u8 list"

fun encode :: "request \<Rightarrow> u8 list" where
  "encode Ask_info = ascii ''getinfo:''"
| "encode (Ask_tck t) = ascii ''settck:'' @ le_bytes t"
| "encode (Ask_shift n tms tdi) = ascii ''shift:'' @ le_bytes (int n) @ tms @ tdi"

fun acceptable :: "(int \<Rightarrow> bool) \<Rightarrow> (nat \<Rightarrow> bool) \<Rightarrow> request \<Rightarrow> bool" where
  "acceptable tck_ok bits_ok Ask_info = True"
| "acceptable tck_ok bits_ok (Ask_tck t) \<longleftrightarrow> 0 \<le> t \<and> t < 2 ^ 31 \<and> tck_ok t"
| "acceptable tck_ok bits_ok (Ask_shift n tms tdi) \<longleftrightarrow> 0 < n \<and> int n < 2 ^ 31 \<and> bits_ok n
     \<and> length tms = bytesPerVector (int n) \<and> length tdi = bytesPerVector (int n)"

definition info_answer :: "int \<Rightarrow> u8 list" where
  "info_answer maxVectorBits = ascii (''xvcServer_v1.0:'' @ decimal_int maxVectorBits @ [CHR 0x0A])"

text \<open>The answer, the TDO buffer of the connection and the state of the driver after a request.\<close>

fun answer ::
  "(nat \<Rightarrow> u8) \<Rightarrow> int \<Rightarrow> (int \<Rightarrow> 'v \<Rightarrow> int \<times> 'v) \<Rightarrow>
   (nat \<Rightarrow> u8 list \<Rightarrow> u8 list \<Rightarrow> u8 list \<Rightarrow> 'v \<Rightarrow> u8 list \<times> 'v) \<Rightarrow> request \<Rightarrow>
   u8 list \<Rightarrow> 'v \<Rightarrow> u8 list \<times> u8 list \<times> 'v" where
  "answer junk mx tck shift Ask_info tdo v = (info_answer mx, tdo, v)"
| "answer junk mx tck shift (Ask_tck t) tdo v = (le_bytes (fst (tck t v)), tdo, snd (tck t v))"
| "answer junk mx tck shift (Ask_shift n tms tdi) tdo v =
     (let k = bytesPerVector (int n);
          tdo = (if k > length tdo then map junk [0..<k] else tdo)
      in case shift n tms tdi tdo v of (tdo', v') \<Rightarrow> (take k tdo', tdo', v'))"

fun answers ::
  "(nat \<Rightarrow> u8) \<Rightarrow> int \<Rightarrow> (int \<Rightarrow> 'v \<Rightarrow> int \<times> 'v) \<Rightarrow>
   (nat \<Rightarrow> u8 list \<Rightarrow> u8 list \<Rightarrow> u8 list \<Rightarrow> 'v \<Rightarrow> u8 list \<times> 'v) \<Rightarrow> request list \<Rightarrow>
   u8 list \<Rightarrow> 'v \<Rightarrow> u8 list \<times> 'v" where
  "answers junk mx tck shift [] tdo v = ([], v)"
| "answers junk mx tck shift (q # qs) tdo v =
     (case answer junk mx tck shift q tdo v of (a, tdo', v') \<Rightarrow>
      case answers junk mx tck shift qs tdo' v' of (as, v'') \<Rightarrow> (a @ as, v''))"

text \<open>Client after client: the TDO buffer does not outlive a connection, the driver does.\<close>

fun serve_all ::
  "(nat \<Rightarrow> u8) \<Rightarrow> int \<Rightarrow> (int \<Rightarrow> 'v \<Rightarrow> int \<times> 'v) \<Rightarrow>
   (nat \<Rightarrow> u8 list \<Rightarrow> u8 list \<Rightarrow> u8 list \<Rightarrow> 'v \<Rightarrow> u8 list \<times> 'v) \<Rightarrow> request list list \<Rightarrow>
   'v \<Rightarrow> u8 list list \<times> 'v" where
  "serve_all junk mx tck shift [] v = ([], v)"
| "serve_all junk mx tck shift (c # cs) v =
     (case answers junk mx tck shift c [] v of (a, v') \<Rightarrow>
      case serve_all junk mx tck shift cs v' of (as, v'') \<Rightarrow> (a # as, v''))"

subsection \<open>Integers\<close>

lemma le_word:
  "(push_bit 24 (ucast (word_of_int (v div 2 ^ 24) :: u8)) OR push_bit 16 (ucast (word_of_int (v div 2 ^ 16) :: u8))
     OR push_bit 8 (ucast (word_of_int (v div 2 ^ 8) :: u8)) OR ucast (word_of_int v :: u8) :: u32) = word_of_int v"
proof (rule bit_word_eqI)
  fix m :: nat
  assume "m < LENGTH(32)"
  then have m: "m < 32" by simp
  have d: "bit (v div 2 ^ j) i \<longleftrightarrow> bit v (j + i)" for i j
    by (simp add: bit_drop_bit_eq flip: drop_bit_eq_div)
  show "bit (push_bit 24 (ucast (word_of_int (v div 2 ^ 24) :: u8)) OR push_bit 16 (ucast (word_of_int (v div 2 ^ 16) :: u8))
     OR push_bit 8 (ucast (word_of_int (v div 2 ^ 8) :: u8)) OR ucast (word_of_int v :: u8) :: u32) m
     = bit (word_of_int v :: u32) m"
  proof -
    have d': "bit (v div 256) i \<longleftrightarrow> bit v (8 + i)" "bit (v div 65536) i \<longleftrightarrow> bit v (16 + i)"
      "bit (v div 16777216) i \<longleftrightarrow> bit v (24 + i)" for i
      using d [of 8 i] d [of 16 i] d [of 24 i] by simp_all
    consider "m < 8" | "8 \<le> m \<and> m < 16" | "16 \<le> m \<and> m < 24" | "24 \<le> m \<and> m - 24 < 8" using m by linarith
    then show ?thesis by cases (use m in \<open>auto simp: bit_simps d'\<close>)
  qed
qed

lemma recv_int:
  assumes "inbox n = le_bytes v @ rest" "- (2 ^ 31) \<le> v" "v < 2 ^ 31"
  shows "recv_xvc_int (ref_os junk) s n = Ok (v, n\<lparr>inbox := rest\<rparr>)"
proof -
  have v: "sint (word_of_int v :: u32) = v"
    using assms(2,3) by (simp add: int_word_sint)
  have t: "take 4 (inbox n) = le_bytes v" "drop 4 (inbox n) = rest" "length (le_bytes v) = 4"
    using assms(1) by (simp_all add: le_bytes_def)
  have "recv_data (ref_os junk) s (replicate 4 0) 4 n = Ok (True, le_bytes v, n\<lparr>inbox := rest\<rparr>)"
    by (simp add: recv_data_def t blit_def)
  then show ?thesis
    using le_word [of v] by (simp add: recv_xvc_int_def v le_bytes_def)
qed

subsection \<open>Commands\<close>

lemma command_codes:
  "ascii ''getinfo:'' = [0x67, 0x65, 0x74, 0x69, 0x6e, 0x66, 0x6f, 0x3a]"
  "ascii ''settck:'' = [0x73, 0x65, 0x74, 0x74, 0x63, 0x6b, 0x3a]"
  "ascii ''shift:'' = [0x73, 0x68, 0x69, 0x66, 0x74, 0x3a]"
  by code_simp+

lemma dispatch_hit:
  assumes "length prefix \<le> k" "take (length prefix) buf = prefix"
    and "recv_data os (cn_socket c) buf (length prefix) n = Ok (True, buf', n')"
  shows "dispatch ((prefix, h) # cs) k buf b os drv c n s = handler h os drv c n' s"
  using assms by simp

lemma dispatch_miss:
  assumes "take (length prefix) buf \<noteq> prefix" "\<And>b. dispatch cs k buf b os drv c n s = R"
  shows "dispatch ((prefix, h) # cs) k buf b os drv c n s = R"
  using assms by simp

lemma command_prefixes:
  "take (length (ascii ''getinfo:'')) (ascii ''settck:'' @ ys) \<noteq> ascii ''getinfo:''"
  "take (length (ascii ''getinfo:'')) (ascii ''shift:'' @ ys) \<noteq> ascii ''getinfo:''"
  "take (length (ascii ''settck:'')) (ascii ''shift:'' @ ys) \<noteq> ascii ''settck:''"
  by (simp_all add: command_codes)

lemma step_command:
  assumes "inbox n = ascii p @ rest" "(ascii p, h) \<in> set commands"
  shows "connection_step (ref_os junk) drv c n s = handler h (ref_os junk) drv c (n\<lparr>inbox := rest\<rparr>) s"
proof -
  have cases: "ascii p = ascii ''getinfo:'' \<and> h = Getinfo \<or> ascii p = ascii ''settck:'' \<and> h = Settck
      \<or> ascii p = ascii ''shift:'' \<and> h = Shift"
    using assms(2) by (auto simp: commands_def)
  define Y where "Y = take (16 - length (ascii p)) rest @ replicate (16 - length (inbox n)) 0"
  have len: "length (ascii p) \<le> 16" "ascii p \<noteq> []" using cases by (auto simp: command_codes)
  have pop: "recv_data (ref_os junk) sk (ascii p @ Y) (length (ascii p)) n
      = Ok (True, ascii p @ Y, n\<lparr>inbox := rest\<rparr>)" for sk
    using len by (simp add: recv_data_def blit_def assms(1) Y_def)
  have "blit (replicate 16 0) 0 (take 16 (inbox n)) = Ok (ascii p @ Y)"
    using len by (auto simp: blit_def assms(1) Y_def min_def)
  moreover have "0 < length (take 16 (inbox n))" using len(2) assms(1) by simp
  ultimately have "connection_step (ref_os junk) drv c n s
      = dispatch commands (length (take 16 (inbox n))) (ascii p @ Y) False (ref_os junk) drv c n s"
    by (simp add: connection_step_def del: length_take)
  also have "\<dots> = handler h (ref_os junk) drv c (n\<lparr>inbox := rest\<rparr>) s"
  proof -
    have k: "length (ascii p) \<le> length (take 16 (inbox n))" using len assms(1) by simp
    have hit: "dispatch ((ascii p, h) # cs) (length (take 16 (inbox n))) (ascii p @ Y) b (ref_os junk) drv c n s
        = handler h (ref_os junk) drv c (n\<lparr>inbox := rest\<rparr>) s" for cs b
      by (rule dispatch_hit [OF k _ pop]) simp
    show ?thesis
      using cases
    proof (elim disjE conjE)
      assume "ascii p = ascii ''getinfo:''" "h = Getinfo"
      then show ?thesis using hit unfolding commands_def by simp
    next
      assume *: "ascii p = ascii ''settck:''" "h = Settck"
      show ?thesis
        unfolding commands_def
        by (rule dispatch_miss) (use hit * command_prefixes(1) in simp_all)
    next
      assume *: "ascii p = ascii ''shift:''" "h = Shift"
      show ?thesis
        unfolding commands_def
        by (rule dispatch_miss, use * command_prefixes(2) in simp, rule dispatch_miss)
           (use hit * command_prefixes(3) in simp_all)
    qed
  qed
  finally show ?thesis .
qed

lemma decimal_nonempty: "info_answer mx \<noteq> []"
  by (simp add: info_answer_def ascii_def)

lemma send_ref [simp]:
  "send_data (ref_os junk) sk bs n = (True, n\<lparr>outbox := outbox n @ bs\<rparr>)"
  by (simp add: send_data_def)

lemma recv_vector:
  assumes "inbox n = v @ rest" "length v = k" "k \<le> length buf"
  shows "recv_data (ref_os junk) sk buf k n = Ok (True, v @ drop k buf, n\<lparr>inbox := rest\<rparr>)"
  using assms by (simp add: recv_data_def blit_def)

lemma allocate_ref:
  assumes "conn_inv c"
  shows "allocate_vectors (ref_os junk) c k n = Ok (c\<lparr>vectorNumBytes := k,
    tmsVector := Block (map junk [0..<k]), tdiVector := Block (map junk [0..<k]),
    tdoVector := Block (map junk [0..<k])\<rparr>, n)"
  using assms by (auto simp: conn_inv_def allocate_vectors_def deallocate_vectors_def alloc_vec_def)

definition tdo_of :: "connection \<Rightarrow> u8 list" where
  "tdo_of c = (case tdoVector c of Block v \<Rightarrow> v | _ \<Rightarrow> [])"

lemma tdo_of_length: "conn_inv c \<Longrightarrow> length (tdo_of c) = vectorNumBytes c"
  by (auto simp: conn_inv_def tdo_of_def)

context served_driver
begin

definition serves ::
  "connection \<times> peer \<times> 's \<Rightarrow> u8 list \<Rightarrow> u8 list \<times> 'v \<Rightarrow> bool \<times> connection \<times> peer \<times> 's \<Rightarrow> bool" where
  "serves = (\<lambda>(c, n, s) a (tdo', v') (ok, c', n', s'). ok \<and> conn_inv c' \<and> ready s'
     \<and> drv_max_vector_bits drv s' = drv_max_vector_bits drv s
     \<and> n' = n\<lparr>outbox := outbox n @ a\<rparr> \<and> tdo_of c' = tdo' \<and> view s' = v')"

lemma settck_serves:
  assumes "ready s" "conn_inv c" "0 \<le> t" "t < 2 ^ 31" "tck_ok t" "inbox n = le_bytes t @ rest"
  shows "\<exists>x. cmd_settck (ref_os junk) drv c n s = Ok x
    \<and> serves (c, n\<lparr>inbox := rest\<rparr>, s) (le_bytes (fst (tck_view t (view s)))) (tdo_of c, snd (tck_view t (view s))) x"
proof -
  have r: "recv_xvc_int (ref_os junk) (cn_socket c) n = Ok (t, n\<lparr>inbox := rest\<rparr>)"
    using assms by (intro recv_int) simp_all
  obtain s' where "drv_set_tck_period drv t s = Ok (fst (tck_view t (view s)), s')" "ready s'"
    "view s' = snd (tck_view t (view s))" "drv_max_vector_bits drv s' = drv_max_vector_bits drv s"
    using tck_served [OF assms(1,5)] by blast
  then show ?thesis
    using assms(2,3) tck_positive [OF assms(5), of "view s"] by (simp add: cmd_settck_def r serves_def)
qed

lemma shift_serves:
  assumes "ready s" "conn_inv c" "0 < m" "int m < 2 ^ 31" "bits_ok m"
    and "length tms = bytesPerVector (int m)" "length tdi = bytesPerVector (int m)"
    and "inbox n = le_bytes (int m) @ tms @ tdi @ rest"
    and ans: "answer junk mx tck_view shift_view (Ask_shift m tms tdi) (tdo_of c) (view s) = (a, tdo', v')"
  shows "\<exists>x. cmd_shift (ref_os junk) drv c n s = Ok x
    \<and> serves (c, n\<lparr>inbox := rest\<rparr>, s) a (tdo', v') x"
proof -
  let ?k = "bytesPerVector (int m)"
  note k = bytesPerVector_bounds [of "int m"]
  have r: "recv_xvc_int (ref_os junk) (cn_socket c) n = Ok (int m, n\<lparr>inbox := tms @ tdi @ rest\<rparr>)"
    using assms(3,4,8) by (intro recv_int) simp_all
  let ?n = "n\<lparr>inbox := tms @ tdi @ rest\<rparr>"
  let ?t0 = "if ?k > length (tdo_of c) then map junk [0..<?k] else tdo_of c"
  obtain c1 t1 t2 where c1:
    "(if ?k > vectorNumBytes c then allocate_vectors (ref_os junk) c ?k ?n else Ok (c, ?n)) = Ok (c1, ?n)"
    "tmsVector c1 = Block t1" "tdiVector c1 = Block t2" "tdoVector c1 = Block ?t0"
    "length t1 = vectorNumBytes c1" "length t2 = vectorNumBytes c1" "length ?t0 = vectorNumBytes c1"
    "?k \<le> vectorNumBytes c1"
  proof (cases "?k > vectorNumBytes c")
    case True
    let ?J = "map junk [0..<?k]"
    show thesis
      by (rule that [of "c\<lparr>vectorNumBytes := ?k, tmsVector := Block ?J, tdiVector := Block ?J,
            tdoVector := Block ?J\<rparr>" ?J ?J])
         (use True in \<open>simp_all add: allocate_ref [OF assms(2)] tdo_of_length [OF assms(2)]\<close>)
  next
    case False
    then obtain x y z where "tmsVector c = Block x" "tdiVector c = Block y" "tdoVector c = Block z"
      "length x = vectorNumBytes c" "length y = vectorNumBytes c" "length z = vectorNumBytes c"
      using conn_inv_blocks [OF assms(2), of ?k] k assms(3) by auto
    with False show thesis by (intro that [of c x y]) (simp_all add: tdo_of_def)
  qed
  let ?tms = "tms @ drop ?k t1" and ?tdi = "tdi @ drop ?k t2"
  have len: "length ?tms = vectorNumBytes c1" "length ?tdi = vectorNumBytes c1"
    using assms(6,7) c1 by simp_all
  have m: "m \<le> 8 * ?k" using k(3) assms(3) by simp
  have tk: "take ?k ?tms = tms" "take ?k ?tdi = tdi" using assms(6,7) by simp_all
  have vb: "shift_view m ?tms ?tdi t v = shift_view m tms tdi t v" for t v
    using shift_local [of m ?k ?tms ?tdi t v] m assms(6,7) unfolding tk by simp
  obtain s' where s': "drv_shift_bits drv (int m) ?tms ?tdi ?t0 s
      = Ok (True, fst (shift_view m tms tdi ?t0 (view s)), s')" "ready s'"
    "view s' = snd (shift_view m tms tdi ?t0 (view s))"
    "drv_max_vector_bits drv s' = drv_max_vector_bits drv s"
    using shift_served [OF assms(1,5,3), of ?tms ?tdi ?t0] m len c1 unfolding vb by auto
  have out: "shift_view m tms tdi ?t0 (view s) = (tdo', v')" "a = take ?k tdo'"
    using ans unfolding answer.simps Let_def by (simp_all split: prod.splits if_splits)
  have l': "length tdo' = vectorNumBytes c1"
    using shift_length [of m tdi ?t0 tms "view s"] m assms(7) c1 out by simp
  have "\<exists>rows. log_vector x m = Ok rows" if "length x = vectorNumBytes c1" for x
    using that m c1(8) by (intro log_vector_ok) simp
  then obtain r1 r2 r3 where lg: "log_vector ?tms m = Ok r1" "log_vector ?tdi m = Ok r2" "log_vector tdo' m = Ok r3"
    using len l' by blast
  have sl: "c_slice tdo' 0 (int ?k) = Ok (take ?k tdo')"
    using l' c1(8) by (intro c_slice_0) simp
  have rv: "recv_data (ref_os junk) (cn_socket c1) t1 ?k ?n = Ok (True, ?tms, n\<lparr>inbox := tdi @ rest\<rparr>)"
    "recv_data (ref_os junk) (cn_socket c1) t2 ?k (n\<lparr>inbox := tdi @ rest\<rparr>) = Ok (True, ?tdi, n\<lparr>inbox := rest\<rparr>)"
    using assms(6,7) c1 by (simp_all add: recv_vector)
  have ci: "conn_inv (c1\<lparr>tmsVector := Block ?tms, tdiVector := Block ?tdi, tdoVector := Block tdo'\<rparr>)"
    using len l' by (simp add: conn_inv_def)
  have "cmd_shift (ref_os junk) drv c n s = Ok (True,
      c1\<lparr>tmsVector := Block ?tms, tdiVector := Block ?tdi, tdoVector := Block tdo'\<rparr>,
      n\<lparr>inbox := rest, outbox := outbox n @ a\<rparr>, s')"
    unfolding cmd_shift_def r c_bind.simps prod.case Let_def c1(1) receive_vectors_def c1(2) vec_bytes.simps rv(1)
    using assms(3) c1(3,4) rv(2) s'(1) lg sl by (simp add: shift_vectors_def out)
  then show ?thesis
    using s'(2-4) ci out by (simp add: serves_def tdo_of_def)
qed

lemma step_answers:
  assumes "ready s" "conn_inv c" "acceptable tck_ok bits_ok q" "inbox n = encode q @ rest"
    and ans: "answer junk (drv_max_vector_bits drv s) tck_view shift_view q (tdo_of c) (view s) = (a, tdo', v')"
  shows "\<exists>x. connection_step (ref_os junk) drv c n s = Ok x
    \<and> serves (c, n\<lparr>inbox := rest\<rparr>, s) a (tdo', v') x"
proof (cases q)
  case Ask_info
  then have "connection_step (ref_os junk) drv c n s = cmd_getinfo (ref_os junk) drv c (n\<lparr>inbox := rest\<rparr>) s"
    using step_command [of n "''getinfo:''" rest Getinfo] assms(4) by (simp add: commands_def)
  then show ?thesis
    using info_served [OF assms(1)] assms(1,2) ans
    by (auto simp: cmd_getinfo_def Let_def serves_def Ask_info info_answer_def)
next
  case (Ask_tck t)
  then have "connection_step (ref_os junk) drv c n s
      = cmd_settck (ref_os junk) drv c (n\<lparr>inbox := le_bytes t @ rest\<rparr>) s"
    using step_command [of n "''settck:''" "le_bytes t @ rest" Settck] assms(4) by (simp add: commands_def)
  then show ?thesis
    using settck_serves [OF assms(1,2), of t "n\<lparr>inbox := le_bytes t @ rest\<rparr>" rest junk] assms(3) ans
    by (simp add: Ask_tck)
next
  case (Ask_shift m tms tdi)
  then have "connection_step (ref_os junk) drv c n s
      = cmd_shift (ref_os junk) drv c (n\<lparr>inbox := le_bytes (int m) @ tms @ tdi @ rest\<rparr>) s"
    using step_command [of n "''shift:''" "le_bytes (int m) @ tms @ tdi @ rest" Shift] assms(4)
    by (simp add: commands_def)
  then show ?thesis
    using shift_serves [OF assms(1,2), of m tms tdi "n\<lparr>inbox := le_bytes (int m) @ tms @ tdi @ rest\<rparr>"
        rest junk "drv_max_vector_bits drv s" a tdo' v'] assms(3) ans
    by (simp add: Ask_shift)
qed

lemma encode_nonempty: "encode q \<noteq> []"
  by (cases q) (simp_all add: ascii_def)

lemma session:
  assumes "ready s" "conn_inv c" "list_all (acceptable tck_ok bits_ok) qs"
    and "inbox n = concat (map encode qs)"
    and "answers junk (drv_max_vector_bits drv s) tck_view shift_view qs (tdo_of c) (view s) = (as, v')"
  shows "\<exists>c' s'. run_connectin (ref_os junk) drv c n s
      = Some (Ok (c', n\<lparr>inbox := [], outbox := outbox n @ as\<rparr>, s'))
    \<and> conn_inv c' \<and> ready s' \<and> view s' = v' \<and> drv_max_vector_bits drv s' = drv_max_vector_bits drv s"
  using assms
proof (induction qs arbitrary: c n s as)
  case Nil
  then show ?case
    by (subst run_connectin.simps) (simp add: connection_step_def blit_def)
next
  case (Cons q qs)
  obtain a tdo1 v1 where a:
    "answer junk (drv_max_vector_bits drv s) tck_view shift_view q (tdo_of c) (view s) = (a, tdo1, v1)"
    by (metis prod_cases3)
  obtain as1 where as1: "answers junk (drv_max_vector_bits drv s) tck_view shift_view qs tdo1 v1 = (as1, v')"
    "as = a @ as1"
    using Cons.prems(5) a by (auto split: prod.splits)
  obtain x where x: "connection_step (ref_os junk) drv c n s = Ok x"
    "serves (c, n\<lparr>inbox := concat (map encode qs)\<rparr>, s) a (tdo1, v1) x"
    using step_answers [OF Cons.prems(1,2) _ _ a, of n "concat (map encode qs)"] Cons.prems(3,4) by auto
  obtain ok c1 n1 s1 where e: "x = (ok, c1, n1, s1)" by (cases x)
  have 1: "ok" "conn_inv c1" "ready s1" "drv_max_vector_bits drv s1 = drv_max_vector_bits drv s"
    "n1 = n\<lparr>inbox := concat (map encode qs), outbox := outbox n @ a\<rparr>" "tdo_of c1 = tdo1" "view s1 = v1"
    using x(2) by (simp_all add: serves_def e)
  have "run_connectin (ref_os junk) drv c n s = run_connectin (ref_os junk) drv c1 n1 s1"
    using Cons.prems(4) encode_nonempty x(1) 1(1) by (subst run_connectin.simps) (simp add: e)
  moreover have "\<exists>c' s'. run_connectin (ref_os junk) drv c1 n1 s1
      = Some (Ok (c', n1\<lparr>inbox := [], outbox := outbox n1 @ as1\<rparr>, s'))
    \<and> conn_inv c' \<and> ready s' \<and> view s' = v' \<and> drv_max_vector_bits drv s' = drv_max_vector_bits drv s1"
    using Cons.prems(3) as1(1) 1 by (intro Cons.IH) simp_all
  ultimately show ?case using 1(4) by (simp add: 1(5) as1(2))
qed

lemma serve_connection_answers:
  assumes "ready s" "list_all (acceptable tck_ok bits_ok) qs" "inbox n = concat (map encode qs)"
    and "answers junk (drv_max_vector_bits drv s) tck_view shift_view qs [] (view s) = (as, v')"
  shows "\<exists>s'. serve_connection (ref_os junk) drv sock n s
      = Some (Ok (n\<lparr>inbox := [], outbox := outbox n @ as\<rparr>, s'))
    \<and> ready s' \<and> view s' = v' \<and> drv_max_vector_bits drv s' = drv_max_vector_bits drv s"
proof -
  let ?c = "\<lparr>cn_socket = sock, vectorNumBytes = 0, tmsVector = Null, tdiVector = Null, tdoVector = Null\<rparr>"
  have "conn_inv ?c" "tdo_of ?c = []" by (simp_all add: conn_inv_def tdo_of_def)
  then obtain c' s' where "run_connectin (ref_os junk) drv ?c n s
      = Some (Ok (c', n\<lparr>inbox := [], outbox := outbox n @ as\<rparr>, s'))" "conn_inv c'" "ready s'"
    "view s' = v'" "drv_max_vector_bits drv s' = drv_max_vector_bits drv s"
    using session [OF assms(1) _ assms(2,3), of ?c junk as v'] assms(4) by auto
  moreover obtain c'' where "deallocate_vectors c' = Ok c''" using deallocate_ok calculation(2) by blast
  ultimately show ?thesis by (simp add: serve_connection_def)
qed

lemma accept_loop_answers:
  assumes "ready s" "\<forall>c \<in> set cs. list_all (acceptable tck_ok bits_ok) c"
    and "inbox n = []" "pending n = map (\<lambda>c. concat (map encode c)) cs"
    and "serve_all junk (drv_max_vector_bits drv s) tck_view shift_view cs (view s) = (as, v')"
  shows "\<exists>n' s'. accept_loop (ref_os junk) drv sock n s = Some (Ok (n', s'))
    \<and> answered n' = answered n @ as \<and> pending n' = [] \<and> ready s' \<and> view s' = v'"
  using assms
proof (induction cs arbitrary: n s as)
  case Nil
  then show ?case by (subst accept_loop.simps) simp
next
  case (Cons c cs)
  obtain a v1 where a: "answers junk (drv_max_vector_bits drv s) tck_view shift_view c [] (view s) = (a, v1)"
    by fastforce
  obtain as1 where as1: "serve_all junk (drv_max_vector_bits drv s) tck_view shift_view cs v1 = (as1, v')"
    "as = a # as1"
    using Cons.prems(5) a by (auto split: prod.splits)
  let ?n = "n\<lparr>inbox := concat (map encode c), outbox := [],
    pending := map (\<lambda>c. concat (map encode c)) cs\<rparr>"
  obtain s1 where s1: "serve_connection (ref_os junk) drv 4 ?n s
      = Some (Ok (?n\<lparr>inbox := [], outbox := outbox ?n @ a\<rparr>, s1))" "ready s1" "view s1 = v1"
    "drv_max_vector_bits drv s1 = drv_max_vector_bits drv s"
    using serve_connection_answers [OF Cons.prems(1), of c ?n junk a v1 4] Cons.prems(2) a by auto
  let ?n1 = "?n\<lparr>inbox := [], outbox := [], answered := answered n @ [a]\<rparr>"
  have "accept_loop (ref_os junk) drv sock n s = accept_loop (ref_os junk) drv sock ?n1 s1"
    using Cons.prems(4) s1(1) by (subst accept_loop.simps) simp
  moreover have "\<exists>n' s'. accept_loop (ref_os junk) drv sock ?n1 s1 = Some (Ok (n', s'))
    \<and> answered n' = answered ?n1 @ as1 \<and> pending n' = [] \<and> ready s' \<and> view s' = v'"
    using Cons.prems(2) as1(1) s1 by (intro Cons.IH) simp_all
  ultimately show ?case by (simp add: as1(2))
qed

lemma server_answers:
  assumes "parse_address inet_aton address = Some (addr, port)" "ready s"
    and "\<forall>c \<in> set cs. list_all (acceptable tck_ok bits_ok) c"
    and "inbox n = []" "pending n = map (\<lambda>c. concat (map encode c)) cs"
    and "serve_all junk (drv_max_vector_bits drv s) tck_view shift_view cs (view s) = (as, v')"
  shows "\<exists>n' s'. txvc_run_server inet_aton (ref_os junk) address drv n s = Some (Ok (n', s'))
    \<and> answered n' = answered n @ as \<and> pending n' = [] \<and> ready s' \<and> view s' = v'"
  using accept_loop_answers [OF assms(2-)] assms(1)
  by (simp add: txvc_run_server_def run_with_address_def)

end

subsection \<open>A request that never arrives in full\<close>

lemma dispatch_none:
  "\<forall>(p, h) \<in> set cs. length p \<le> r \<longrightarrow> take (length p) cmd \<noteq> p \<Longrightarrow>
   dispatch cs r cmd b os drv c n s = Ok (b \<or> (\<exists>(p, h) \<in> set cs. r < length p), c, n, s)"
  by (induction cs arbitrary: b) auto

text \<open>C33. If fewer than the eight octets of \<open>getinfo:\<close> have arrived, they do not begin with one of
  the two shorter commands, and the client sends no more or has closed its end, the server peeks at
  the same octets forever: the loop takes a full queue for an incomplete command, whatever the
  octets are, and never returns to accept another client.\<close>
theorem partial_request_hangs:
  assumes "inbox n \<noteq> []" "length (inbox n) < 8" "take 7 (inbox n) \<noteq> ascii ''settck:''"
    and "take 6 (inbox n) \<noteq> ascii ''shift:''"
  shows "run_connectin (ref_os junk) drv c n s = None"
proof -
  let ?cmd = "inbox n @ replicate (16 - length (inbox n)) 0"
  have peek: "take 16 (inbox n) = inbox n" "blit (replicate 16 0) 0 (inbox n) = Ok ?cmd"
    using assms(2) by (simp_all add: blit_def)
  have "\<forall>(p, h) \<in> set commands. length p \<le> length (inbox n) \<longrightarrow> take (length p) ?cmd \<noteq> p"
    using assms(2-4) by (auto simp: commands_def command_codes eval_nat_numeral)
  then have "dispatch commands (length (inbox n)) ?cmd False (ref_os junk) drv c n s = Ok (True, c, n, s)" for c s
    using assms(2) by (subst dispatch_none) (auto simp: commands_def command_codes)
  then have step: "connection_step (ref_os junk) drv c n s = Ok (True, c, n, s)" for c s
    using assms(1) by (simp add: connection_step_def peek)
  have "n' \<noteq> n" if "run_connectin (ref_os junk) drv c n' s = Some r" for c n' s r
    using that by (induction rule: run_connectin_induct) (use step assms(1) in auto)
  then show ?thesis by (cases "run_connectin (ref_os junk) drv c n s") auto
qed

theorem partial_request_hangs_witness:
  "\<forall>junk (drv :: unit driver) c s. run_connectin (ref_os junk) drv c
      \<lparr>inbox = [0x78, 0x79, 0x7a], outbox = [], pending = [], answered = []\<rparr> s = None"
  by (intro allI, rule partial_request_hangs) (simp_all add: command_codes)

end
