(* ===== verification/Drivers.thy ===== *)
theory Drivers
  imports Xvc_Session Ftdi_Activation Ftdi_Help
begin

text \<open>
  \<open>libdrivers\<close>: the echo driver of \<open>echo.c\<close>, the FTDI driver of \<open>ftdi_generic.c\<close> behind the driver
  interface, and the registry of \<open>drivers.c\<close>; they fulfil the contracts the server relies on.
\<close>

subsection \<open>The echo driver\<close>

definition echo_activate :: "(string \<times> string) list \<Rightarrow> 's \<Rightarrow> (bool \<times> 's) c_res" where
  "echo_activate args s = Ok (True, s)"

definition echo_deactivate :: "'s \<Rightarrow> (bool \<times> 's) c_res" where
  "echo_deactivate s = Ok (True, s)"

definition echo_max_vector_bits :: "'s \<Rightarrow> int" where
  "echo_max_vector_bits s = 1024"

definition echo_set_tck_period :: "int \<Rightarrow> 's \<Rightarrow> (int \<times> 's) c_res" where
  "echo_set_tck_period tckPeriodNs s = Ok (tckPeriodNs, s)"

definition echo_shift_bits ::
  "int \<Rightarrow> u8 list \<Rightarrow> u8 list \<Rightarrow> u8 list \<Rightarrow> 's \<Rightarrow> (bool \<times> u8 list \<times> 's) c_res" where
  "echo_shift_bits numBits tms tdi tdo s =
     c_bind (c_slice tdi 0 (numBits sdiv 8 + (if numBits smod 8 \<noteq> 0 then 1 else 0))) (\<lambda>octets.
     c_bind (blit tdo 0 octets) (\<lambda>tdo. Ok (True, tdo, s)))"

definition echo_help :: string where
  "echo_help =
     ''Simple loopback driver that forwards TDI vector to TDO. No real device is involved'' @ newline @
     ''Parameters:'' @ newline @ ''   none'' @ newline"

definition driver_echo :: "'s driver" where
  "driver_echo = \<lparr>drv_name = ''echo'', drv_help = echo_help, drv_activate = echo_activate, drv_deactivate = echo_deactivate,
     drv_max_vector_bits = echo_max_vector_bits, drv_set_tck_period = echo_set_tck_period,
     drv_shift_bits = echo_shift_bits\<rparr>"

subsection \<open>The FTDI driver\<close>

text \<open>The state is the static variable \<open>gFtdi\<close>, splitter and rest. The caller's TDO vector is the
  buffer \<open>tdo_ref\<close> for the time of the call.\<close>

type_synonym 'w ftdi_state = "'w ftdi jtag_splitter \<times> 'w ftdi"

definition tdo_ref :: buf_ref where "tdo_ref = 2"

definition ftdi_activate ::
  "(u64 \<Rightarrow> u64 option) \<Rightarrow> 'w d2xx \<Rightarrow> (string \<times> string) list \<Rightarrow> 'w ftdi_state \<Rightarrow>
   (bool \<times> 'w ftdi_state) c_res" where
  "ftdi_activate malloc dx args = (\<lambda>(sp, d). activate malloc dx args sp d)"

definition ftdi_deactivate :: "'w d2xx \<Rightarrow> 'w ftdi_state \<Rightarrow> (bool \<times> 'w ftdi_state) c_res" where
  "ftdi_deactivate dx = (\<lambda>(sp, d). c_bind (deactivate dx sp d) (\<lambda>(ok, sp', d', _). Ok (ok, sp', d')))"

definition ftdi_shift_bits ::
  "int \<Rightarrow> u8 list \<Rightarrow> u8 list \<Rightarrow> u8 list \<Rightarrow> 'w ftdi_state \<Rightarrow> (bool \<times> u8 list \<times> 'w ftdi_state) c_res"
where
  "ftdi_shift_bits numBits tms tdi tdo = (\<lambda>(sp, d).
     c_bind (shift_bits sp numBits tms tdi tdo_ref (set_mem tdo_ref (Some tdo) d))
       (\<lambda>(ok, sp', d').
         case mem (fd_io d') tdo_ref of
           None \<Rightarrow> Fault DeadObject
         | Some tdo \<Rightarrow> Ok (ok, tdo, sp', set_mem tdo_ref None d')))"

definition driver_ftdi_generic :: "(u64 \<Rightarrow> u64 option) \<Rightarrow> 'w d2xx \<Rightarrow> 'w ftdi_state driver" where
  "driver_ftdi_generic malloc dx = \<lparr>drv_name = ''ftdi-generic'', drv_help = ftdi_help,
     drv_activate = ftdi_activate malloc dx, drv_deactivate = ftdi_deactivate dx,
     drv_max_vector_bits = (\<lambda>(sp, d). max_vector_bits d),
     drv_set_tck_period = (\<lambda>t (sp, d). c_bind (set_tck_period dx t d) (\<lambda>(r, d'). Ok (r, sp, d'))),
     drv_shift_bits = ftdi_shift_bits\<rparr>"

subsection \<open>The registry\<close>

definition gDrivers :: "(u64 \<Rightarrow> u64 option) \<Rightarrow> 'w d2xx \<Rightarrow> 'w ftdi_state driver list" where
  "gDrivers malloc dx = [driver_echo, driver_ftdi_generic malloc dx]"

fun enumerate_drivers :: "'s driver list \<Rightarrow> ('s driver \<Rightarrow> 'a \<Rightarrow> bool) \<Rightarrow> 'a \<Rightarrow> 's driver option" where
  "enumerate_drivers [] fn extra = None"
| "enumerate_drivers (d # ds) fn extra =
     (if \<not> fn d extra then Some d else enumerate_drivers ds fn extra)"

definition txvc_enumerate_drivers ::
  "(u64 \<Rightarrow> u64 option) \<Rightarrow> 'w d2xx \<Rightarrow> ('w ftdi_state driver \<Rightarrow> 'a \<Rightarrow> bool) \<Rightarrow> 'a \<Rightarrow>
   'w ftdi_state driver option" where
  "txvc_enumerate_drivers malloc dx fn extra = enumerate_drivers (gDrivers malloc dx) fn extra"

subsection \<open>The echo driver fulfils the contracts\<close>

definition echo_view :: "nat \<Rightarrow> u8 list \<Rightarrow> u8 list \<Rightarrow> u8 list \<Rightarrow> 'v \<Rightarrow> u8 list \<times> 'v" where
  "echo_view n tms tdi tdo v = (overlay tdo 0 (take (bytesPerVector (int n)) tdi), v)"

lemma echo_octets:
  "int n sdiv 8 + (if int n smod 8 \<noteq> 0 then 1 else 0) = int (bytesPerVector (int n))"
  by (simp add: bytesPerVector_def int_octet_sdiv int_octet_smod)

lemma bytesPerVector_le: "n \<le> 8 * k \<Longrightarrow> bytesPerVector (int n) \<le> k"
  using div_mult_mod_eq [of n 8] by (cases "n mod 8") (auto simp: bytesPerVector_def)

lemma echo_shift:
  assumes "n \<le> 8 * length tdi" "n \<le> 8 * length tdo"
  shows "echo_shift_bits (int n) tms tdi tdo s = Ok (True, fst (echo_view n tms tdi tdo s), s)"
proof -
  let ?k = "bytesPerVector (int n)"
  have k: "?k \<le> length tdi" "?k \<le> length tdo" using assms by (simp_all add: bytesPerVector_le)
  then have "blit tdo (int 0) (take ?k tdi) = Ok (overlay tdo 0 (take ?k tdi))"
    by (intro blit_ok) simp
  then show ?thesis
    unfolding echo_shift_bits_def echo_octets c_slice_0 [OF k(1)]
    by (simp add: echo_view_def)
qed

interpretation echo: safe_driver driver_echo "\<lambda>s. True"
proof unfold_locales
  fix n :: int and tms tdi tdo :: "u8 list" and s :: 'a
  assume n: "0 < n" "n \<le> 8 * int (length tdi)" "n \<le> 8 * int (length tdo)"
  obtain m where m: "n = int m" using n(1) zero_less_imp_eq_int by blast
  then show "c_safe (drv_shift_bits driver_echo n tms tdi tdo s)
      (\<lambda>(ok, tdo', s'). length tdo' = length tdo \<and> True)"
    using n bytesPerVector_le [of m "length tdo"]
    by (simp add: driver_echo_def echo_shift echo_view_def)
qed (simp add: driver_echo_def echo_set_tck_period_def)

interpretation echo_serves: served_driver driver_echo "\<lambda>s. True" "\<lambda>t. 0 < t" "\<lambda>n. True" "\<lambda>s. s"
  "\<lambda>t s. (t, s)" echo_view
proof unfold_locales
  fix n k :: nat and tms tdi tdo :: "u8 list" and v :: 'a
  assume "n \<le> 8 * k"
  then show "echo_view n (take k tms) (take k tdi) tdo v = echo_view n tms tdi tdo v"
    using bytesPerVector_le [of n k] by (simp add: echo_view_def)
next
  fix n :: nat and tms tdi tdo :: "u8 list" and v :: 'a
  assume "n \<le> 8 * length tdo"
  then show "length (fst (echo_view n tms tdi tdo v)) = length tdo"
    using bytesPerVector_le [of n "length tdo"] by (simp add: echo_view_def)
qed (simp_all add: driver_echo_def echo_set_tck_period_def echo_max_vector_bits_def echo_shift,
     simp add: echo_view_def)

subsection \<open>The server with any driver that keeps the contract\<close>

text \<open>The vectors of a connection stay what \<open>cmd_shift\<close> relies on, three null pointers or three
  blocks of the recorded size, and the driver stays in its good states, through every round of
  the connection loop: whatever the client sends and the operating system reports, with any driver
  that keeps the contract \<open>safe_driver\<close>, no pointer is freed twice or used after it was freed and
  no access leaves its block.\<close>
theorem connection_invariant:
  assumes "safe_driver drv invar" "os_ok os" "conn_inv c" "invar s"
  shows "c_safe (connection_step os drv c n s) (\<lambda>(_, c', _, s'). conn_inv c' \<and> invar s')"
proof (rule c_safe_mono [OF safe_driver.connection_step_safe [OF assms]])
  fix x :: "bool \<times> connection \<times> 'b \<times> 'a"
  assume "safe_driver.served invar x"
  then show "case x of (_, c', _, s') \<Rightarrow> conn_inv c' \<and> invar s'"
    using safe_driver.served_def [OF assms(1), where 'n = 'b] by (cases x) simp
qed

theorem connection_invariant_witness:
  "c_safe (connection_step (ref_os (\<lambda>_. 7)) driver_echo
      \<lparr>cn_socket = 4, vectorNumBytes = 0, tmsVector = Null, tdiVector = Null, tdoVector = Null\<rparr>
      \<lparr>inbox = encode (Ask_shift 9 [1, 2] [3, 4]), outbox = [], pending = [], answered = []\<rparr> ())
    (\<lambda>(_, c', _). conn_inv c')"
  by (rule c_safe_mono [OF connection_invariant [OF echo.safe_driver_axioms ref_os_ok]])
     (auto simp: conn_inv_def)

text \<open>C32. The whole server is safe with any such driver: if it returns, then normally or because
  the logger aborted for want of memory, for every behaviour of the operating system and of any
  number of clients.\<close>
theorem server_safe:
  assumes "safe_driver drv invar" "os_ok os" "invar s"
    and "txvc_run_server inet_aton os address drv n s = Some r"
  shows "c_safe r (\<lambda>(_, s'). invar s')"
  using safe_driver.run_server_safe [OF assms(1,2,4,3)] .

theorem server_safe_witness:
  "\<exists>r. txvc_run_server (\<lambda>_. Some 0) (ref_os (\<lambda>_. 7)) ''0.0.0.0:2542'' driver_echo
      \<lparr>inbox = [], outbox = [], pending = [encode (Ask_shift 9 [1, 2] [3, 4])], answered = []\<rparr> () = Some r
    \<and> c_safe r (\<lambda>_. True)"
proof -
  let ?n = "\<lparr>inbox = [], outbox = [], pending = [encode (Ask_shift 9 [1, 2] [3, 4])], answered = []\<rparr>"
  let ?qs = "[[Ask_shift 9 [1, 2] [3, 4]]]"
  have addr: "parse_address (\<lambda>_. Some 0) ''0.0.0.0:2542'' = Some (0, 2542)" by code_simp
  have qs: "\<forall>c \<in> set ?qs. list_all (acceptable (\<lambda>t. 0 < t) (\<lambda>n. True)) c"
    by (simp add: bytesPerVector_def)
  have n: "inbox ?n = []" "pending ?n = map (\<lambda>c. concat (map encode c)) ?qs"
    by (simp_all del: encode.simps)
  obtain as v where "serve_all (\<lambda>_. 7) (drv_max_vector_bits driver_echo ()) (\<lambda>t s. (t, s))
      echo_view ?qs () = (as, v)" by (metis surj_pair)
  from echo_serves.server_answers [OF addr TrueI qs n this]
  obtain n' s' where r: "txvc_run_server (\<lambda>_. Some 0) (ref_os (\<lambda>_. 7)) ''0.0.0.0:2542''
      driver_echo ?n () = Some (Ok (n', s'))"
    by blast
  then show ?thesis
    using server_safe [OF echo.safe_driver_axioms ref_os_ok TrueI r] by (auto elim: c_safe_mono)
qed

subsection \<open>The FTDI driver serves\<close>

definition cable_view ::
  "'d target \<Rightarrow> nat \<Rightarrow> u8 list \<Rightarrow> u8 list \<Rightarrow> u8 list \<Rightarrow> jtag_state \<times> bool \<times> 'd \<Rightarrow>
   u8 list \<times> jtag_state \<times> bool \<times> 'd" where
  "cable_view clk n tms tdi tdo = (\<lambda>(q, lv, s).
     case cable clk q lv (zip (vbits tms 0 n) (vbits tdi 0 n)) 0 tdo s of
       (lv', tdo', s') \<Rightarrow> (tdo', tap_run q (vbits tms 0 n), lv', s'))"

definition nearest_period :: "int \<Rightarrow> int" where
  "nearest_period t = (1 + min 0xffff ((30 * t - 1) div 1000)) * 1000 div 30"

definition ftdi_ready :: "'d target \<Rightarrow> 'd chip d2xx \<Rightarrow> 'd chip ftdi_state \<Rightarrow> bool" where
  "ftdi_ready clk dx = (\<lambda>(sp, d). ready 1792 clk dx sp d \<and> highSpeedCapable d \<and> 4 \<le> chipBufferBytes d)"

definition ftdi_view :: "'d chip ftdi_state \<Rightarrow> jtag_state \<times> bool \<times> 'd" where
  "ftdi_view = (\<lambda>(sp, d). (sp_state sp, lastTdi d, ch_dev (world (fd_io d))))"

lemma nearest_period_positive:
  assumes "0 < t"
  shows "0 < nearest_period t"
proof -
  define m where "m = min 0xffff ((30 * t - 1) div 1000)"
  have "0 \<le> m" using assms by (simp add: m_def pos_imp_zdiv_nonneg_iff)
  then have "30 \<le> (1 + m) * 1000" by simp
  then show ?thesis by (simp add: nearest_period_def pos_imp_zdiv_pos_iff flip: m_def)
qed

lemma ftdi_tck:
  assumes "ftdi_ready clk dx (sp, d)" "0 < t" "30 * t < 2 ^ 31"
  shows "\<exists>d'. set_tck_period dx t d = Ok (nearest_period t, d') \<and> ftdi_ready clk dx (sp, d')
    \<and> ftdi_view (sp, d') = ftdi_view (sp, d) \<and> chipBufferBytes d' = chipBufferBytes d"
proof -
  have r: "ready 1792 clk dx sp d" "highSpeedCapable d" "4 \<le> chipBufferBytes d"
    using assms(1) by (simp_all add: ftdi_ready_def)
  obtain d' where d': "set_tck_period dx t d = Ok (nearest_period t, d')" "ready 1792 clk dx sp d'"
    "ch_dev (world (fd_io d')) = ch_dev (world (fd_io d))" "lastTdi d' = lastTdi d"
    using set_tck_main [OF r(1) _ r(2,3) assms(2,3) refl] by (auto simp: nearest_period_def)
  then show ?thesis
    using set_tck_frame [OF d'(1)] r by (simp add: ftdi_ready_def ftdi_view_def)
qed

lemma ftdi_shift:
  assumes r: "ftdi_ready clk dx (sp, d)" and n: "n \<le> 1792" "n \<le> 8 * length tms"
    "n \<le> 8 * length tdi" "n \<le> 8 * length tdo"
  shows "\<exists>s'. ftdi_shift_bits (int n) tms tdi tdo (sp, d)
      = Ok (True, fst (cable_view clk n tms tdi tdo (ftdi_view (sp, d))), s') \<and> ftdi_ready clk dx s'
    \<and> ftdi_view s' = snd (cable_view clk n tms tdi tdo (ftdi_view (sp, d)))
    \<and> chipBufferBytes (snd s') = chipBufferBytes d"
proof -
  let ?d = "set_mem tdo_ref (Some tdo) d"
  have r': "ready 1792 clk dx sp ?d" "highSpeedCapable ?d" "4 \<le> chipBufferBytes ?d"
    using r by (simp_all add: ftdi_ready_def ready_set_mem)
  obtain lv' tdo' s' where cab: "cable clk (sp_state sp) (lastTdi ?d)
      (zip (vbits tms 0 n) (vbits tdi 0 n)) 0 tdo (ch_dev (world (fd_io ?d))) = (lv', tdo', s')"
    by (metis prod_cases3)
  have "c_out True (shift_bits sp (int n) tms tdi tdo_ref ?d) (\<lambda>(ok, sp', d').
    ok \<and> sp' = sp\<lparr>sp_state := tap_run (sp_state sp) (vbits tms 0 n)\<rparr>
    \<and> drv_inv dx d' \<and> drv_same ?d d' \<and> (\<forall>k. drv_cap k ?d \<longrightarrow> drv_cap k d' \<and> drv_room k d') \<and> quiet d'
    \<and> (is_shift (sp_state sp') \<longrightarrow> \<not> ch_tms (world (fd_io d')))
    \<and> mem (fd_io d') = (mem (fd_io ?d))(tdo_ref \<mapsto> tdo') \<and> ch_dev (world (fd_io d')) = s'
    \<and> lastTdi d' = lv')"
    using r' n by (intro shift_bits_chip [OF _ _ _ _ _ _ _ n(2-4) _ cab])
      (auto simp: ready_def elim: drv_room_mono)
  then obtain d' where d': "shift_bits sp (int n) tms tdi tdo_ref ?d
      = Ok (True, sp\<lparr>sp_state := tap_run (sp_state sp) (vbits tms 0 n)\<rparr>, d')"
    "drv_inv dx d'" "drv_same ?d d'" "drv_cap 1792 d'" "drv_room 1792 d'" "quiet d'"
    "is_shift (tap_run (sp_state sp) (vbits tms 0 n)) \<longrightarrow> \<not> ch_tms (world (fd_io d'))"
    "mem (fd_io d') tdo_ref = Some tdo'" "ch_dev (world (fd_io d')) = s'" "lastTdi d' = lv'"
    using r'(1) by (auto simp: c_out_True ready_def)
  let ?sp = "sp\<lparr>sp_state := tap_run (sp_state sp) (vbits tms 0 n)\<rparr>"
  have "ready 1792 clk dx ?sp d'"
    using r'(1) d' by (simp add: ready_def)
  then have "ready 1792 clk dx ?sp (set_mem tdo_ref None d')" by (rule ready_set_mem)
  moreover have "highSpeedCapable d'" "chipBufferBytes d' = chipBufferBytes d" "4 \<le> chipBufferBytes d'"
    using d'(3) r'(2,3) by (simp_all add: drv_same_def)
  moreover have "cable_view clk n tms tdi tdo (ftdi_view (sp, d)) = (tdo', sp_state ?sp, lv', s')"
    using cab by (simp add: cable_view_def ftdi_view_def)
  ultimately show ?thesis
    using d' by (intro exI [of _ "(?sp, set_mem tdo_ref None d')"])
      (simp add: ftdi_shift_bits_def ftdi_ready_def ftdi_view_def)
qed

lemma deactivate_ready:
  fixes d :: "'d chip ftdi"
  assumes "ready k clk dx sp d"
  shows "\<exists>sp' d' fs. deactivate dx sp d = Ok (True, sp', d', fs) \<and> sp_cb sp' = None"
proof -
  note r = ready_fields [OF assms]
  have cb: "sp_cb sp = Some (jtag_splitter_callback dx)" using assms by (simp add: ready_def)
  obtain d1 where d1: "tapReset (jtag_splitter_callback dx) d = Ok (True, d1)" "drv_inv dx d1"
    using reset_chip [OF r(1-5)] by blast
  have "c_out True (ft_buffer_flush dx (cmdBuffer d1) (fd_io d1)) (\<lambda>_. True)"
    using d1(2) by (intro c_out_mono [OF flush_out]) (auto simp: drv_inv_def)
  then obtain ok b i where "ft_buffer_flush dx (cmdBuffer d1) (fd_io d1) = Ok (ok, b, i)"
    by (auto simp: c_out_True)
  then show ?thesis
    by (simp add: deactivate_def txvc_jtag_splitter_deinit_def cb d1(1) ft_buffer_deinit_def Let_def
        split: prod.split)
qed

text \<open>Deactivation takes the chip out of MPSSE mode and closes it.\<close>

lemma deactivate_closes:
  "deactivate (ref_d2xx clk) sp d = Ok (ok, sp', d', fs) \<Longrightarrow>
   \<not> ch_open (world (fd_io d')) \<and> ch_mode (world (fd_io d')) = 0"
  by (fastforce simp: deactivate_def Let_def ft_close_def ft_reset_mode_def set_world_def ref_d2xx_calls
      case_prod_unfold)

lemma cable_length:
  "length (fst (snd (cable clk q lv bs i tdo s))) = length tdo"
proof (induction clk q lv bs i tdo s rule: cable.induct)
  case (2 clk q lv tms tdi bs i tdo s)
  obtain b s' where "clk tms (if is_shift q then tdi else lv) s = (b, s')" by fastforce
  then show ?case using 2 by simp
qed simp

interpretation ftdi_serves: served_driver "driver_ftdi_generic malloc dx" "ftdi_ready clk dx"
  "\<lambda>t. 0 < t \<and> 30 * t < 2 ^ 31" "\<lambda>n. n \<le> 1792" ftdi_view "\<lambda>t v. (nearest_period t, v)" "cable_view clk"
  for malloc and dx :: "'d chip d2xx" and clk :: "'d target"
proof unfold_locales
  fix s :: "'d chip ftdi_state"
  assume "ftdi_ready clk dx s"
  then show "0 < drv_max_vector_bits (driver_ftdi_generic malloc dx) s"
    by (cases s) (simp add: driver_ftdi_generic_def max_vector_bits_def ftdi_ready_def)
next
  fix s :: "'d chip ftdi_state" and t :: int
  assume "ftdi_ready clk dx s" "0 < t \<and> 30 * t < 2 ^ 31"
  then show "\<exists>s'. drv_set_tck_period (driver_ftdi_generic malloc dx) t s
      = Ok (fst (nearest_period t, ftdi_view s), s') \<and> ftdi_ready clk dx s'
    \<and> ftdi_view s' = snd (nearest_period t, ftdi_view s)
    \<and> drv_max_vector_bits (driver_ftdi_generic malloc dx) s'
      = drv_max_vector_bits (driver_ftdi_generic malloc dx) s"
    using ftdi_tck [of clk dx "fst s" "snd s" t]
    by (cases s) (auto simp: driver_ftdi_generic_def max_vector_bits_def)
next
  fix s :: "'d chip ftdi_state" and n :: nat and tms tdi tdo :: "u8 list"
  assume "ftdi_ready clk dx s" "n \<le> 1792" "n \<le> 8 * length tms" "n \<le> 8 * length tdi" "n \<le> 8 * length tdo"
  then show "\<exists>s'. drv_shift_bits (driver_ftdi_generic malloc dx) (int n) tms tdi tdo s
      = Ok (True, fst (cable_view clk n tms tdi tdo (ftdi_view s)), s') \<and> ftdi_ready clk dx s'
    \<and> ftdi_view s' = snd (cable_view clk n tms tdi tdo (ftdi_view s))
    \<and> drv_max_vector_bits (driver_ftdi_generic malloc dx) s'
      = drv_max_vector_bits (driver_ftdi_generic malloc dx) s"
    using ftdi_shift [of clk dx "fst s" "snd s" n tms tdi tdo]
    by (cases s) (fastforce simp: driver_ftdi_generic_def max_vector_bits_def)
next
  fix n k :: nat and tms tdi tdo :: "u8 list" and v :: "jtag_state \<times> bool \<times> 'd"
  assume "n \<le> 8 * k"
  then show "cable_view clk n (take k tms) (take k tdi) tdo v = cable_view clk n tms tdi tdo v"
    by (simp add: cable_view_def vbits_take)
next
  fix n :: nat and tms tdi tdo :: "u8 list" and v :: "jtag_state \<times> bool \<times> 'd"
  show "length (fst (cable_view clk n tms tdi tdo v)) = length tdo"
    using cable_length [of clk "fst v" "fst (snd v)" "zip (vbits tms 0 n) (vbits tdi 0 n)" 0 tdo "snd (snd v)"]
    by (auto simp: cable_view_def split: prod.split)
qed (simp add: nearest_period_positive)

end
