(* ===== verification/Server_Machine.thy ===== *)
theory Server_Machine
  imports Drivers
begin

text \<open>
  The two loops of \<open>libtxvc/server.c\<close> as a state machine: what the server can be doing, and the
  steps from one state to the next. It agrees with the functions of \<open>Server\<close>, and carries what
  holds while the server runs, also when it never returns.
\<close>

subsection \<open>States and steps\<close>

text \<open>At the head of the accept loop, at the head of the loop of a connection, or past both.\<close>

datatype ('n, 's) server_state =
    Listening 'n 's
  | Serving socket connection 'n 's
  | Stopped 'n 's

definition new_connection :: "socket \<Rightarrow> connection" where
  "new_connection sock = \<lparr>cn_socket = sock, vectorNumBytes = 0, tmsVector = Null, tdiVector = Null,
     tdoVector = Null\<rparr>"

definition hang_up :: "'n os \<Rightarrow> socket \<Rightarrow> 'n \<Rightarrow> 'n" where
  "hang_up os sock n = os_close os sock (os_shutdown os sock n)"

inductive server_step ::
  "'n os \<Rightarrow> 's driver \<Rightarrow> socket \<Rightarrow> ('n, 's) server_state \<Rightarrow> ('n, 's) server_state \<Rightarrow> bool"
  for os :: "'n os" and drv :: "'s driver" and serverSocket :: socket where
  Stop: "os_terminate os n = (True, n1) \<Longrightarrow>
    server_step os drv serverSocket (Listening n s) (Stopped n1 s)"
| Accept_failed: "os_terminate os n = (False, n1) \<Longrightarrow> os_accept os serverSocket n1 = (sock, inet, n2) \<Longrightarrow>
    sock < 0 \<Longrightarrow> server_step os drv serverSocket (Listening n s) (Listening n2 s)"
| Ignore: "os_terminate os n = (False, n1) \<Longrightarrow> os_accept os serverSocket n1 = (sock, False, n2) \<Longrightarrow>
    0 \<le> sock \<Longrightarrow> server_step os drv serverSocket (Listening n s) (Listening (hang_up os sock n2) s)"
| Accept: "os_terminate os n = (False, n1) \<Longrightarrow> os_accept os serverSocket n1 = (sock, True, n2) \<Longrightarrow>
    0 \<le> sock \<Longrightarrow> server_step os drv serverSocket (Listening n s) (Serving sock (new_connection sock) n2 s)"
| Round: "os_terminate os n = (False, n1) \<Longrightarrow> connection_step os drv c n1 s = Ok (True, c', n', s') \<Longrightarrow>
    server_step os drv serverSocket (Serving sock c n s) (Serving sock c' n' s')"
| Leave: "os_terminate os n = (False, n1) \<Longrightarrow> connection_step os drv c n1 s = Ok (False, c', n', s') \<Longrightarrow>
    deallocate_vectors c' = Ok c'' \<Longrightarrow>
    server_step os drv serverSocket (Serving sock c n s) (Listening (hang_up os sock n') s')"
| Interrupt: "os_terminate os n = (True, n1) \<Longrightarrow> deallocate_vectors c = Ok c'' \<Longrightarrow>
    server_step os drv serverSocket (Serving sock c n s) (Listening (hang_up os sock n1) s)"

inductive_cases ListeningE [elim]: "server_step os drv serverSocket (Listening n s) y"
inductive_cases ServingE [elim]: "server_step os drv serverSocket (Serving sock c n s) y"
inductive_simps stopped_step [simp]: "server_step os drv serverSocket (Stopped n s) y"

lemma server_step_deterministic:
  "server_step os drv ss x y \<Longrightarrow> server_step os drv ss x z \<Longrightarrow> y = z"
  by (induction rule: server_step.induct) auto

abbreviation server_steps ::
  "'n os \<Rightarrow> 's driver \<Rightarrow> socket \<Rightarrow> ('n, 's) server_state \<Rightarrow> ('n, 's) server_state \<Rightarrow> bool" where
  "server_steps os drv ss \<equiv> (server_step os drv ss)\<^sup>*\<^sup>*"

subsection \<open>Agreement with the functions\<close>

text \<open>What the functions return from each state.\<close>

definition after_connection ::
  "'n os \<Rightarrow> 's driver \<Rightarrow> socket \<Rightarrow> socket \<Rightarrow> (connection \<times> 'n \<times> 's) c_res option \<Rightarrow> ('n \<times> 's) c_res option"
where
  "after_connection os drv ss sock r = (case r of
     None \<Rightarrow> None
   | Some (Fault e) \<Rightarrow> Some (Fault e)
   | Some (Ok (c, n, s)) \<Rightarrow> (case deallocate_vectors c of
       Fault e \<Rightarrow> Some (Fault e)
     | Ok _ \<Rightarrow> accept_loop os drv ss (hang_up os sock n) s))"

fun returns :: "'n os \<Rightarrow> 's driver \<Rightarrow> socket \<Rightarrow> ('n, 's) server_state \<Rightarrow> ('n \<times> 's) c_res option" where
  "returns os drv ss (Listening n s) = accept_loop os drv ss n s"
| "returns os drv ss (Serving sock c n s) = after_connection os drv ss sock (run_connectin os drv c n s)"
| "returns os drv ss (Stopped n s) = Some (Ok (n, s))"

lemma returns_accept:
  assumes "os_terminate os n = (False, n1)" "os_accept os ss n1 = (sock, inet, n2)"
  shows "accept_loop os drv ss n s = (if sock < 0 then accept_loop os drv ss n2 s
     else if inet then returns os drv ss (Serving sock (new_connection sock) n2 s)
     else accept_loop os drv ss (hang_up os sock n2) s)"
  using assms
  by (subst accept_loop.simps)
     (auto simp: serve_connection_def after_connection_def hang_up_def new_connection_def
       split: option.split c_res.split prod.split)

lemma step_returns: "server_step os drv ss x y \<Longrightarrow> returns os drv ss x = returns os drv ss y"
proof (induction rule: server_step.induct)
  case (Stop n n1 s)
  then show ?case by (simp add: accept_loop.simps [of os drv ss n])
next
  case (Round n n1 c s c' n' s' sock)
  then show ?case by (simp add: run_connectin.simps [of os drv c n])
next
  case (Leave n n1 c s c' n' s' c'' sock)
  then show ?case by (simp add: run_connectin.simps [of os drv c n] after_connection_def)
next
  case (Interrupt n n1 c c'' sock s)
  then show ?case by (simp add: run_connectin.simps [of os drv c n] after_connection_def)
next
  case (Accept_failed n n1 sock inet n2 s)
  then show ?case using returns_accept [OF Accept_failed(1,2)] by simp
next
  case (Ignore n n1 sock n2 s)
  then show ?case using returns_accept [OF Ignore(1,2)] by simp
next
  case (Accept n n1 sock n2 s)
  then show ?case using returns_accept [OF Accept(1,2)] by simp
qed

lemma steps_returns: "server_steps os drv ss x y \<Longrightarrow> returns os drv ss x = returns os drv ss y"
  by (induction rule: rtranclp_induct) (simp_all add: step_returns)

lemma run_connectin_steps:
  assumes "run_connectin os drv c n s = Some r"
  shows "case r of
      Ok (c1, n1, s1) \<Rightarrow> (\<forall>c'. deallocate_vectors c1 = Ok c' \<longrightarrow>
        server_steps os drv ss (Serving sock c n s) (Listening (hang_up os sock n1) s1))
    | Fault e \<Rightarrow> True"
  using assms
proof (induction rule: run_connectin_induct)
  case (1 c n s n1)
  then show ?case by (auto intro: server_step.Interrupt)
next
  case (3 c n s n1 c' n' s')
  then show ?case by (auto intro: server_step.Leave)
next
  case (4 c n s n1 c' n' s' r)
  then have "server_step os drv ss (Serving sock c n s) (Serving sock c' n' s')" by (blast intro: server_step.Round)
  then show ?case
    using 4(3) by (cases r) (auto intro: converse_rtranclp_into_rtranclp [where r = "server_step os drv ss"])
qed simp

lemma accept_loop_steps:
  assumes "accept_loop os drv ss n s = Some r"
  shows "case r of
      Ok (n1, s1) \<Rightarrow> server_steps os drv ss (Listening n s) (Stopped n1 s1)
    | Fault e \<Rightarrow> True"
  using assms
proof (induction rule: accept_loop_induct)
  case (1 n s n1)
  then show ?case by (auto intro: server_step.Stop)
next
  case (2 n s n1 sk inet n2 r)
  then have "server_step os drv ss (Listening n s) (Listening n2 s)" by (blast intro: server_step.Accept_failed)
  then show ?case
    using 2(4) by (cases r) (auto intro: converse_rtranclp_into_rtranclp [where r = "server_step os drv ss"])
next
  case (4 n s n1 sk inet n2 n3 s' r)
  have "server_steps os drv ss (Listening n s) (Listening (hang_up os sk n3) s')"
  proof (cases inet)
    case True
    then obtain c1 c' where c1: "run_connectin os drv (new_connection sk) n2 s = Some (Ok (c1, n3, s'))"
      "deallocate_vectors c1 = Ok c'"
      using 4(4) by (auto simp: serve_connection_def new_connection_def split: option.splits c_res.splits)
    have steps: "server_steps os drv ss (Serving sk (new_connection sk) n2 s) (Listening (hang_up os sk n3) s')"
      using run_connectin_steps [OF c1(1)] c1(2) by auto
    have step: "server_step os drv ss (Listening n s) (Serving sk (new_connection sk) n2 s)"
      using 4(1-3) True by (auto intro: server_step.Accept)
    show ?thesis by (rule converse_rtranclp_into_rtranclp [of "server_step os drv ss", OF step steps])
  next
    case False
    then show ?thesis using 4(1-4) by (auto intro: server_step.Ignore)
  qed
  then show ?case using 4(5) by (cases r) (auto simp: hang_up_def)
qed simp

text \<open>The loops of the server and the state machine agree: the accept loop returns normally
  exactly if the machine, from its head, can reach the state past both loops, and then with what
  the functions return.\<close>
lemma server_machine_adequate:
  "accept_loop os drv ss n s = Some (Ok (n', s'))
   \<longleftrightarrow> server_steps os drv ss (Listening n s) (Stopped n' s')"
proof
  show "server_steps os drv ss (Listening n s) (Stopped n' s')"
    if "accept_loop os drv ss n s = Some (Ok (n', s'))"
    using accept_loop_steps [OF that] by simp
  show "accept_loop os drv ss n s = Some (Ok (n', s'))"
    if "server_steps os drv ss (Listening n s) (Stopped n' s')"
    using steps_returns [OF that] by simp
qed

subsection \<open>Reachable states\<close>

definition state_ok :: "('s \<Rightarrow> bool) \<Rightarrow> ('n, 's) server_state \<Rightarrow> bool" where
  "state_ok invar x \<longleftrightarrow> (case x of
     Listening n s \<Rightarrow> invar s | Serving sock c n s \<Rightarrow> conn_inv c \<and> invar s | Stopped n s \<Rightarrow> invar s)"

lemma state_ok_simps [simp]:
  "state_ok invar (Listening n s) = invar s" "state_ok invar (Stopped n s) = invar s"
  "state_ok invar (Serving sock c n s) \<longleftrightarrow> conn_inv c \<and> invar s"
  by (simp_all add: state_ok_def)

context safe_driver
begin

lemma step_keeps_ok:
  assumes "server_step os drv ss x y" "os_ok os" "state_ok invar x"
  shows "state_ok invar y"
  using assms
proof (induction rule: server_step.induct)
  case (Accept n n1 sock n2 s)
  then show ?case by (simp add: new_connection_def conn_inv_def)
next
  case (Round n n1 c s c' n' s' sock)
  then show ?case using connection_step_safe [of os c s n1] by simp
next
  case (Leave n n1 c s c' n' s' c'' sock)
  then show ?case using connection_step_safe [of os c s n1] by simp
qed simp_all

lemma steps_keep_ok:
  "server_steps os drv ss x y \<Longrightarrow> os_ok os \<Longrightarrow> state_ok invar x \<Longrightarrow> state_ok invar y"
  by (induction rule: rtranclp_induct) (blast intro: step_keeps_ok)+

lemma serving_progress:
  assumes os: "os_ok os" and ok: "conn_inv c" "invar s"
  shows "(\<exists>y. server_step os drv ss (Serving sock c n s) y)
    \<or> (\<exists>n1. os_terminate os n = (False, n1) \<and> connection_step os drv c n1 s = Fault FatalAbort)"
proof -
  obtain t n1 where t: "os_terminate os n = (t, n1)" by fastforce
  show ?thesis
  proof (cases t)
    case True
    obtain c' where "deallocate_vectors c = Ok c'" using deallocate_ok [OF ok(1)] by blast
    moreover have "os_terminate os n = (True, n1)" using t True by simp
    ultimately show ?thesis by (blast intro: server_step.Interrupt)
  next
    case False
    then have n1: "os_terminate os n = (False, n1)" using t by simp
    show ?thesis
    proof (cases "connection_step os drv c n1 s")
      case (Ok r)
      obtain go c' n' s' where r: "r = (go, c', n', s')" by (cases r)
      have "conn_inv c'" using connection_step_safe [OF os ok, of n1] Ok r by simp
      then obtain c'' where c'': "deallocate_vectors c' = Ok c''" using deallocate_ok by blast
      show ?thesis
      proof (cases go)
        case True
        then have "connection_step os drv c n1 s = Ok (True, c', n', s')" using Ok r by simp
        from server_step.Round [OF n1 this, of ss sock] show ?thesis by blast
      next
        case False
        then have "connection_step os drv c n1 s = Ok (False, c', n', s')" using Ok r by simp
        from server_step.Leave [OF n1 this c'', of ss sock] show ?thesis by blast
      qed
    qed (use n1 connection_step_safe [OF os ok, of n1] in simp)
  qed
qed

lemma listening_progress: "\<exists>y. server_step os drv ss (Listening n s) y"
proof -
  obtain t n1 where t: "os_terminate os n = (t, n1)" by fastforce
  obtain sock inet n2 where a: "os_accept os ss n1 = (sock, inet, n2)" by (metis prod_cases3)
  show ?thesis
    using t a by (cases t; cases "sock < 0"; cases inet) (fastforce intro: server_step.intros)+
qed

end

text \<open>C29. In every state the server reaches, however long it runs, the vectors of the connection
  are what \<open>cmd_shift\<close> relies on, three null pointers or three live blocks of the recorded size,
  and the driver is in one of its good states; and the server is never stuck: it has stopped, it
  goes on, or the logger aborts it. So whatever the client sends and the operating system reports,
  with any driver that keeps the contract \<open>safe_driver\<close>, no pointer is freed twice or used after it
  was freed and no access leaves its block.\<close>
theorem reachable_states_ok:
  assumes "safe_driver drv invar" "os_ok os" "invar s0"
    and "server_steps os drv ss (Listening n0 s0) x"
  shows "(case x of
      Stopped n s \<Rightarrow> invar s
    | Listening n s \<Rightarrow> invar s \<and> (\<exists>y. server_step os drv ss x y)
    | Serving sock c n s \<Rightarrow> conn_inv c \<and> invar s \<and> ((\<exists>y. server_step os drv ss x y)
        \<or> (\<exists>n1. os_terminate os n = (False, n1) \<and> connection_step os drv c n1 s = Fault FatalAbort)))"
proof -
  have ok: "state_ok invar x" using safe_driver.steps_keep_ok [OF assms(1,4,2)] assms(3) by simp
  show ?thesis
  proof (cases x)
    case (Listening n s)
    then show ?thesis using ok safe_driver.listening_progress [OF assms(1)] by simp
  next
    case (Serving sock c n s)
    then show ?thesis using ok safe_driver.serving_progress [OF assms(1,2), of c s ss sock n] by simp
  qed (use ok in simp)
qed

theorem reachable_states_ok_witness:
  "conn_inv (new_connection 4)
   \<and> (\<exists>y. server_step (ref_os (\<lambda>_. 7)) driver_echo 3 (Serving 4 (new_connection 4)
       \<lparr>inbox = encode (Ask_shift 9 [1, 2] [3, 4]), outbox = [], pending = [], answered = []\<rparr> ()) y)"
proof -
  let ?n = "\<lparr>inbox = encode (Ask_shift 9 [1, 2] [3, 4]), outbox = [], pending = [], answered = []\<rparr>"
  let ?start = "\<lparr>inbox = [], outbox = [], pending = [encode (Ask_shift 9 [1, 2] [3, 4])], answered = []\<rparr>"
  let ?x = "Serving 4 (new_connection 4) ?n ()"
  have "server_step (ref_os (\<lambda>_. 7)) driver_echo 3 (Listening ?start ()) ?x"
    using server_step.Accept [of "ref_os (\<lambda>_. 7)" ?start ?start 3 4 ?n driver_echo "()"] by (simp del: encode.simps)
  then have reach: "server_steps (ref_os (\<lambda>_. 7)) driver_echo 3 (Listening ?start ()) ?x" by (rule r_into_rtranclp)
  have "connection_step (ref_os (\<lambda>_. 7)) driver_echo (new_connection 4) ?n () \<noteq> Fault FatalAbort"
    by code_simp
  then show ?thesis
    using reachable_states_ok [OF echo.safe_driver_axioms ref_os_ok TrueI reach]
    by (auto simp del: encode.simps)
qed

end
