(* ===== verification/Server_Frame.thy ===== *)
theory Server_Frame
  imports Server_Machine
begin

text \<open>
  What a connection of \<open>libtxvc/server.c\<close> leaves alone. The handlers call the operating system only
  to transfer on their socket and to allocate, so they keep every property of its state that these
  calls keep, and the connection's socket.
\<close>

subsection \<open>Normal results\<close>

text \<open>A property of every normal result.\<close>

definition if_ok :: "'a c_res \<Rightarrow> ('a \<Rightarrow> bool) \<Rightarrow> bool" where
  "if_ok m P \<longleftrightarrow> (\<forall>x. m = Ok x \<longrightarrow> P x)"

lemma if_ok_simps [simp]: "if_ok (Ok x) P = P x" "if_ok (Fault e) P" "if_ok m (\<lambda>_. True)"
  by (simp_all add: if_ok_def)

lemma if_ok_bindI: "if_ok m Q \<Longrightarrow> (\<And>x. Q x \<Longrightarrow> if_ok (f x) P) \<Longrightarrow> if_ok (c_bind m f) P"
  by (cases m) auto

lemmas if_ok_anyI = if_ok_bindI [OF if_ok_simps(3)]

lemma deallocate_kept: "if_ok (deallocate_vectors c) (\<lambda>c'. cn_socket c' = cn_socket c)"
  by (auto simp: deallocate_vectors_def if_ok_def)

lemma slice_length: "if_ok (c_slice xs 0 (int k)) (\<lambda>ys. length ys = k)"
  by (simp add: c_slice_def if_ok_def)

lemma bytes_positive: "0 < n \<Longrightarrow> 0 < bytesPerVector n"
  by (cases "nat n mod 8 = 0") (auto simp: bytesPerVector_def)

subsection \<open>Calls that keep a property\<close>

text \<open>Either a call keeps the property, or it fails without a byte transferred and something else
  holds, after which the connection is left without another call.\<close>

locale framed_os =
  fixes os :: "'n os" and sock :: socket and keep :: "'n \<Rightarrow> bool" and gone :: "'n \<Rightarrow> bool"
  assumes malloc_keeps: "keep n \<Longrightarrow> os_malloc os sz n = (v, n') \<Longrightarrow> keep n'"
    and peek_keeps: "keep n \<Longrightarrow> os_peek os sock sz n = (r, bs, n') \<Longrightarrow> keep n' \<or> r < 0 \<and> gone n'"
    and recv_keeps: "keep n \<Longrightarrow> os_recv os sock sz n = (r, bs, n') \<Longrightarrow> keep n' \<or> r < 0 \<and> gone n'"
    and send_keeps: "keep n \<Longrightarrow> os_send os sock bs n = (r, n') \<Longrightarrow> keep n' \<or> r < 0 \<and> gone n'"
begin

lemma recv_kept:
  assumes "keep n" "0 < sz"
  shows "if_ok (recv_data os sock buf sz n) (\<lambda>(ok, b, n'). keep n' \<or> \<not> ok \<and> gone n')"
proof -
  obtain r bs n' where c: "os_recv os sock sz n = (r, bs, n')" by (metis prod_cases3)
  show ?thesis using assms(2) recv_keeps [OF assms(1) c] by (auto simp: recv_data_def c if_ok_def)
qed

lemma recv_int_kept:
  assumes "keep n"
  shows "if_ok (recv_xvc_int os sock n) (\<lambda>(v, n'). keep n' \<or> v = - 1 \<and> gone n')"
  unfolding recv_xvc_int_def
  by (rule if_ok_bindI [OF recv_kept [OF assms]]) (auto split: prod.split)

lemma alloc_kept: "keep n \<Longrightarrow> if_ok (alloc_vec os k n) (\<lambda>(v, n'). keep n')"
  by (auto simp: alloc_vec_def if_ok_def dest: malloc_keeps split: prod.splits option.splits)

lemma allocate_kept:
  assumes "keep n"
  shows "if_ok (allocate_vectors os c k n) (\<lambda>(c', n'). keep n' \<and> cn_socket c' = cn_socket c)"
proof -
  have "if_ok (c_bind (alloc_vec os k n) (\<lambda>(a, n). c_bind (alloc_vec os k n) (\<lambda>(b, n).
     c_bind (alloc_vec os k n) (\<lambda>(d, n).
       Ok (c'\<lparr>tmsVector := a, tdiVector := b, tdoVector := d, vectorNumBytes := k\<rparr>, n)))))
     (\<lambda>(c'', n'). keep n' \<and> cn_socket c'' = cn_socket c')" for c'
    by (rule if_ok_bindI [OF alloc_kept [OF assms]], clarify,
        rule if_ok_bindI [OF alloc_kept], assumption, clarify,
        rule if_ok_bindI [OF alloc_kept], assumption, clarsimp)
  note vectors = this
  show ?thesis
    unfolding allocate_vectors_def
    by (rule if_ok_bindI [OF deallocate_kept], erule subst, rule vectors)
qed

text \<open>After a handler the property holds, or the connection is left; it has its socket.\<close>

definition kept :: "('n, 's) handler_result \<Rightarrow> bool" where
  "kept r \<longleftrightarrow> if_ok r (\<lambda>(x, c, n, s). cn_socket c = sock \<and> (keep n \<or> \<not> x \<and> gone n))"

lemma kept_Ok [simp]: "kept (Ok (x, c, n, s)) \<longleftrightarrow> cn_socket c = sock \<and> (keep n \<or> \<not> x \<and> gone n)"
  by (simp add: kept_def)

lemma kept_bindI: "if_ok m Q \<Longrightarrow> (\<And>x. Q x \<Longrightarrow> kept (f x)) \<Longrightarrow> kept (c_bind m f)"
  unfolding kept_def by (rule if_ok_bindI)

lemmas kept_anyI = kept_bindI [OF if_ok_simps(3)]

lemma send_kept:
  assumes "keep n" "cn_socket c = sock" "bs \<noteq> []"
  shows "kept (case send_data os sock bs n of (ok, n) \<Rightarrow> Ok (ok, c, n, s))"
proof -
  obtain r n' where c: "os_send os sock bs n = (r, n')" by (cases "os_send os sock bs n")
  show ?thesis using assms(2,3) send_keeps [OF assms(1) c] by (auto simp: send_data_def c)
qed

lemma getinfo_kept:
  assumes "keep n" "cn_socket c = sock"
  shows "kept (cmd_getinfo os drv c n s)"
proof (cases "drv_max_vector_bits drv s \<le> 0")
  case False
  then show ?thesis
    unfolding cmd_getinfo_def Let_def assms(2)
    by (simp only: if_False) (rule send_kept [OF assms], simp add: ascii_def)
qed (simp add: cmd_getinfo_def assms)

lemma settck_kept:
  assumes "keep n" "cn_socket c = sock"
  shows "kept (cmd_settck os drv c n s)"
  unfolding cmd_settck_def assms(2)
proof (rule kept_bindI [OF recv_int_kept [OF assms(1)]], clarify)
  fix t :: int and n'
  assume n': "keep n' \<or> t = - 1 \<and> gone n'"
  have "kept (c_bind (drv_set_tck_period drv t s) (\<lambda>(tckPeriod, s').
         if tckPeriod \<le> 0 then Ok (False, c, n', s')
         else case send_data os sock (le_bytes tckPeriod) n' of (ok, n'') \<Rightarrow> Ok (ok, c, n'', s')))"
    if "keep n'"
    by (rule kept_anyI) (auto simp: assms(2) that le_bytes_def intro!: send_kept)
  then show "kept (if t < 0 then Ok (False, c, n', s)
       else c_bind (drv_set_tck_period drv t s) (\<lambda>(tckPeriod, s').
         if tckPeriod \<le> 0 then Ok (False, c, n', s')
         else case send_data os sock (le_bytes tckPeriod) n' of (ok, n'') \<Rightarrow> Ok (ok, c, n'', s')))"
    using n' assms(2) by auto
qed

lemma shift_vectors_kept:
  assumes "keep n" "cn_socket c = sock" "0 < k"
  shows "kept (shift_vectors os drv m k tms tdi c n s)"
  unfolding shift_vectors_def Let_def
  by (rule kept_anyI, rule kept_anyI, rule kept_anyI, rule kept_anyI, clarsimp simp: assms(1,2),
      rule kept_anyI, rule kept_bindI [OF slice_length], rule send_kept)
     (use assms in auto)

lemma receive_vectors_kept:
  assumes "keep n" "cn_socket c = sock" "0 < k"
  shows "kept (receive_vectors os drv m k c n s)"
  unfolding receive_vectors_def Let_def assms(2)
proof (rule kept_anyI, rule kept_bindI [OF recv_kept [OF assms(1,3)]], clarify)
  fix ok tms n1
  assume n1: "keep n1 \<or> \<not> ok \<and> gone n1"
  let ?c = "c\<lparr>tmsVector := Block tms\<rparr>"
  have sock: "cn_socket ?c = sock" using assms(2) by simp
  have "kept (c_bind (vec_bytes (tdiVector ?c)) (\<lambda>tdi. c_bind (recv_data os (cn_socket ?c) tdi k n1)
      (\<lambda>(ok, tdi, n). if \<not> ok then Ok (False, ?c\<lparr>tdiVector := Block tdi\<rparr>, n, s)
        else shift_vectors os drv m k tms tdi (?c\<lparr>tdiVector := Block tdi\<rparr>) n s)))" if "keep n1"
    unfolding sock
    by (rule kept_anyI, rule kept_bindI [OF recv_kept [OF that assms(3)]])
      (auto simp: assms(2) intro!: shift_vectors_kept [OF _ _ assms(3)])
  then show "kept (if \<not> ok then Ok (False, ?c, n1, s)
      else c_bind (vec_bytes (tdiVector ?c)) (\<lambda>tdi. c_bind (recv_data os (cn_socket ?c) tdi k n1)
      (\<lambda>(ok, tdi, n). if \<not> ok then Ok (False, ?c\<lparr>tdiVector := Block tdi\<rparr>, n, s)
        else shift_vectors os drv m k tms tdi (?c\<lparr>tdiVector := Block tdi\<rparr>) n s)))"
    using n1 assms(2) by auto
qed

lemma shift_kept:
  assumes "keep n" "cn_socket c = sock"
  shows "kept (cmd_shift os drv c n s)"
  unfolding cmd_shift_def Let_def assms(2)
proof (rule kept_bindI [OF recv_int_kept [OF assms(1)]], clarify)
  fix m :: int and n'
  assume n': "keep n' \<or> m = - 1 \<and> gone n'"
  have "kept (c_bind (if vectorNumBytes c < bytesPerVector m
        then allocate_vectors os c (bytesPerVector m) n' else Ok (c, n'))
      (\<lambda>(c, n). receive_vectors os drv m (bytesPerVector m) c n s))" if n: "keep n'" "0 < m"
  proof -
    have "if_ok (if vectorNumBytes c < bytesPerVector m then allocate_vectors os c (bytesPerVector m) n'
        else Ok (c, n')) (\<lambda>(c', n'). keep n' \<and> cn_socket c' = sock)"
      using allocate_kept [OF n(1), of c] n(1) assms(2) by simp
    then show ?thesis
      by (rule kept_bindI) (simp add: case_prod_unfold receive_vectors_kept bytes_positive [OF n(2)])
  qed
  then show "kept (if m \<le> 0 then Ok (False, c, n', s)
      else c_bind (if vectorNumBytes c < bytesPerVector m
        then allocate_vectors os c (bytesPerVector m) n' else Ok (c, n'))
      (\<lambda>(c, n). receive_vectors os drv m (bytesPerVector m) c n s))"
    using n' assms(2) by auto
qed

lemma handler_kept: "keep n \<Longrightarrow> cn_socket c = sock \<Longrightarrow> kept (handler h os drv c n s)"
  by (cases h) (simp_all add: getinfo_kept settck_kept shift_kept)

lemma dispatch_kept:
  assumes "keep n" "cn_socket c = sock"
  shows "list_all (\<lambda>(p, h). p \<noteq> []) cs \<Longrightarrow> kept (dispatch cs k buf b os drv c n s)"
proof (induction cs arbitrary: b)
  case (Cons a cs)
  obtain p h where a: "a = (p, h)" by (cases a)
  then have p: "0 < length p" using Cons.prems by simp
  have "kept (c_bind (recv_data os sock buf (length p) n) (\<lambda>(ok, _, n).
          if \<not> ok then Ok (False, c, n, s) else handler h os drv c n s))"
    by (rule kept_bindI [OF recv_kept [OF assms(1) p]]) (auto simp: assms(2) handler_kept split: prod.split)
  then show ?case using Cons.IH Cons.prems by (simp add: a assms(2))
qed (simp add: assms)

lemma connection_step_kept:
  assumes "keep n" "cn_socket c = sock" "connection_step os drv c n s = Ok (x, c', n', s')"
  shows "cn_socket c' = sock \<and> (keep n' \<or> \<not> x \<and> gone n')"
proof -
  obtain r v n1 where p: "os_peek os sock 16 n = (r, v, n1)" by (metis prod_cases3)
  have cs: "list_all (\<lambda>(p, h). p \<noteq> []) commands" by (simp add: commands_def ascii_def)
  have n1: "keep n1 \<or> r < 0 \<and> gone n1" by (rule peek_keeps [OF assms(1) p])
  have "kept (connection_step os drv c n s)"
    unfolding connection_step_def assms(2) p prod.case
    by (rule kept_anyI) (use n1 in \<open>auto simp: assms(2) intro!: dispatch_kept [OF _ assms(2) cs]\<close>)
  then show ?thesis by (simp add: assms(3))
qed

end

end
