(* ===== verification/Server_Sockets.thy ===== *)
theory Server_Sockets
  imports Server_Frame
begin

text \<open>
  Which sockets \<open>libtxvc/server.c\<close> has open. The operating system is wrapped so that it keeps a
  ledger of the open sockets and notes every use or release of one that is not open; the server
  does not see the difference.
\<close>

record ledger =
  opened :: "socket list"
  misused :: bool

definition open_sock :: "socket \<Rightarrow> ledger \<Rightarrow> ledger" where
  "open_sock s l = (if s < 0 then l else l\<lparr>opened := s # opened l\<rparr>)"

definition use_sock :: "socket \<Rightarrow> ledger \<Rightarrow> ledger" where
  "use_sock s l = (if s \<in> set (opened l) then l else l\<lparr>misused := True\<rparr>)"

definition close_sock :: "socket \<Rightarrow> ledger \<Rightarrow> ledger" where
  "close_sock s l = (use_sock s l)\<lparr>opened := remove1 s (opened l)\<rparr>"

definition tracked :: "'n os \<Rightarrow> ('n \<times> ledger) os" where
  "tracked os = \<lparr>
     os_terminate = (\<lambda>(n, l). case os_terminate os n of (t, n) \<Rightarrow> (t, n, l)),
     os_malloc = (\<lambda>sz (n, l). case os_malloc os sz n of (v, n) \<Rightarrow> (v, n, l)),
     os_peek = (\<lambda>s sz (n, l). case os_peek os s sz n of (r, v, n) \<Rightarrow> (r, v, n, use_sock s l)),
     os_recv = (\<lambda>s sz (n, l). case os_recv os s sz n of (r, v, n) \<Rightarrow> (r, v, n, use_sock s l)),
     os_send = (\<lambda>s bs (n, l). case os_send os s bs n of (r, n) \<Rightarrow> (r, n, use_sock s l)),
     os_socket = (\<lambda>(n, l). case os_socket os n of (s, n) \<Rightarrow> (s, n, open_sock s l)),
     os_bind = (\<lambda>s a p (n, l). case os_bind os s a p n of (r, n) \<Rightarrow> (r, n, use_sock s l)),
     os_listen = (\<lambda>s (n, l). case os_listen os s n of (r, n) \<Rightarrow> (r, n, use_sock s l)),
     os_accept = (\<lambda>s (n, l). case os_accept os s n of
       (k, inet, n) \<Rightarrow> (k, inet, n, open_sock k (use_sock s l))),
     os_shutdown = (\<lambda>s (n, l). (os_shutdown os s n, use_sock s l)),
     os_close = (\<lambda>s (n, l). (os_close os s n, close_sock s l))\<rparr>"

lemma tracked_calls [simp]:
  "os_terminate (tracked os) (n, l) = (case os_terminate os n of (t, n) \<Rightarrow> (t, n, l))"
  "os_malloc (tracked os) sz (n, l) = (case os_malloc os sz n of (v, n) \<Rightarrow> (v, n, l))"
  "os_peek (tracked os) s sz (n, l) = (case os_peek os s sz n of (r, v, n) \<Rightarrow> (r, v, n, use_sock s l))"
  "os_recv (tracked os) s sz (n, l) = (case os_recv os s sz n of (r, v, n) \<Rightarrow> (r, v, n, use_sock s l))"
  "os_send (tracked os) s bs (n, l) = (case os_send os s bs n of (r, n) \<Rightarrow> (r, n, use_sock s l))"
  "os_socket (tracked os) (n, l) = (case os_socket os n of (k, n) \<Rightarrow> (k, n, open_sock k l))"
  "os_bind (tracked os) s a p (n, l) = (case os_bind os s a p n of (r, n) \<Rightarrow> (r, n, use_sock s l))"
  "os_listen (tracked os) s (n, l) = (case os_listen os s n of (r, n) \<Rightarrow> (r, n, use_sock s l))"
  "os_accept (tracked os) s (n, l) = (case os_accept os s n of
     (k, inet, n) \<Rightarrow> (k, inet, n, open_sock k (use_sock s l)))"
  "os_shutdown (tracked os) s (n, l) = (os_shutdown os s n, use_sock s l)"
  "os_close (tracked os) s (n, l) = (os_close os s n, close_sock s l)"
  by (simp_all add: tracked_def)

lemma use_open [simp]: "k \<in> set (opened l) \<Longrightarrow> use_sock k l = l"
  by (simp add: use_sock_def)

text \<open>A connection that transfers on an open socket leaves the ledger alone.\<close>

interpretation tracked: framed_os "tracked os" sock "\<lambda>n. snd n = l \<and> sock \<in> set (opened l)" "\<lambda>n. False"
  by unfold_locales (auto split: prod.splits)

subsection \<open>The ledger of a running server\<close>

abbreviation only_open :: "socket list \<Rightarrow> ledger" where
  "only_open ks \<equiv> \<lparr>opened = ks, misused = False\<rparr>"

definition ledger_ok :: "socket \<Rightarrow> ('n \<times> ledger, 's) server_state \<Rightarrow> bool" where
  "ledger_ok ss x \<longleftrightarrow> (case x of
     Listening (n, l) s \<Rightarrow> l = only_open [ss]
   | Serving sock c (n, l) s \<Rightarrow> cn_socket c = sock \<and> l = only_open [sock, ss]
   | Stopped (n, l) s \<Rightarrow> l = only_open [ss])"

lemma ledger_ok_simps [simp]:
  "ledger_ok ss (Listening (n, l) s) \<longleftrightarrow> l = only_open [ss]"
  "ledger_ok ss (Serving sock c (n, l) s) \<longleftrightarrow> cn_socket c = sock \<and> l = only_open [sock, ss]"
  "ledger_ok ss (Stopped (n, l) s) \<longleftrightarrow> l = only_open [ss]"
  by (simp_all add: ledger_ok_def)

lemma hang_up_tracked:
  "hang_up (tracked os) k (n, only_open [k, ss]) = (hang_up os k n, only_open [ss])"
  by (simp add: hang_up_def close_sock_def)

lemma open_tracked: "0 \<le> k \<Longrightarrow> open_sock k (only_open ks) = only_open (k # ks)"
  by (simp add: open_sock_def)

lemma terminate_tracked:
  "os_terminate (tracked os) n = (t, n1) \<Longrightarrow> snd n1 = snd n"
  by (cases n) (auto split: prod.splits)

lemma accept_tracked:
  "os_accept (tracked os) ss n = (sock, inet, n2) \<Longrightarrow> snd n2 = open_sock sock (use_sock ss (snd n))"
  by (cases n) (auto split: prod.splits)

lemma ledger_state:
  "ledger_ok ss (Listening n s) \<longleftrightarrow> snd n = only_open [ss]"
  "ledger_ok ss (Serving sock c n s) \<longleftrightarrow> cn_socket c = sock \<and> snd n = only_open [sock, ss]"
  "ledger_ok ss (Stopped n s) \<longleftrightarrow> snd n = only_open [ss]"
  by (cases n, simp)+

lemma snd_hang_up: "snd n = only_open [k, ss] \<Longrightarrow> snd (hang_up (tracked os) k n) = only_open [ss]"
  by (cases n) (simp add: hang_up_tracked)

lemma step_kept:
  assumes "connection_step (tracked os) drv c n s = Ok (x, c', n', s')" "snd n = only_open [cn_socket c, ss]"
  shows "snd n' = snd n \<and> cn_socket c' = cn_socket c"
  using tracked.connection_step_kept [OF _ refl assms(1), of "snd n"] assms(2) by simp

lemma step_keeps_ledger:
  assumes "server_step (tracked os) drv ss x y" "ledger_ok ss x"
  shows "ledger_ok ss y"
  using assms
proof (induction rule: server_step.induct)
  case (Stop n n1 s)
  then show ?case using terminate_tracked [OF Stop(1)] by (simp add: ledger_state)
next
  case (Accept_failed n n1 sock inet n2 s)
  then show ?case
    using terminate_tracked [OF Accept_failed(1)] accept_tracked [OF Accept_failed(2)]
    by (simp add: ledger_state open_sock_def)
next
  case (Ignore n n1 sock n2 s)
  then show ?case
    using terminate_tracked [OF Ignore(1)] accept_tracked [OF Ignore(2)]
    by (simp add: ledger_state open_tracked snd_hang_up)
next
  case (Accept n n1 sock n2 s)
  then show ?case
    using terminate_tracked [OF Accept(1)] accept_tracked [OF Accept(2)]
    by (simp add: ledger_state open_tracked new_connection_def)
next
  case (Round n n1 c s c' n' s' sock)
  then show ?case
    using terminate_tracked [OF Round(1)] step_kept [OF Round(2)] by (simp add: ledger_state)
next
  case (Leave n n1 c s c' n' s' c'' sock)
  then show ?case
    using terminate_tracked [OF Leave(1)] step_kept [OF Leave(2)] by (simp add: ledger_state snd_hang_up)
next
  case (Interrupt n n1 c c'' sock s)
  then show ?case using terminate_tracked [OF Interrupt(1)] by (simp add: ledger_state snd_hang_up)
qed

text \<open>C30. At every moment the open sockets are the listening one and, while a client is served, the
  client's: each accepted socket is shut down and closed once, before the next is accepted, on every
  way out of a connection, and no socket is used or closed that is not open. After the accept loop
  the listening socket is still open.\<close>
theorem sockets_disciplined:
  assumes "server_steps (tracked os) drv ss (Listening (n0, only_open [ss]) s0) x"
  shows "case x of
      Listening (n, l) s \<Rightarrow> l = only_open [ss]
    | Serving sock c (n, l) s \<Rightarrow> cn_socket c = sock \<and> l = only_open [sock, ss]
    | Stopped (n, l) s \<Rightarrow> l = only_open [ss]"
proof -
  have "ledger_ok ss x"
    using assms by (induction rule: rtranclp_induct) (auto intro: step_keeps_ledger)
  then show ?thesis by (simp add: ledger_ok_def)
qed

theorem sockets_disciplined_witness:
  "\<exists>n l. server_steps (tracked (ref_os (\<lambda>_. 7))) driver_echo 3
      (Listening (\<lparr>inbox = [], outbox = [], pending = [encode (Ask_info)], answered = []\<rparr>, only_open [3]) ())
      (Serving 4 (new_connection 4) (n, l) ()) \<and> l = only_open [4, 3]"
proof -
  let ?start = "\<lparr>inbox = [], outbox = [], pending = [encode Ask_info], answered = []\<rparr>"
  let ?n = "\<lparr>inbox = encode Ask_info, outbox = [], pending = [], answered = []\<rparr>"
  have "server_step (tracked (ref_os (\<lambda>_. 7))) driver_echo 3 (Listening (?start, only_open [3]) ())
      (Serving 4 (new_connection 4) (?n, only_open [4, 3]) ())"
    using server_step.Accept [of "tracked (ref_os (\<lambda>_. 7))" "(?start, only_open [3])" "(?start, only_open [3])"
        3 4 "(?n, only_open [4, 3])" driver_echo "()"]
    by (simp add: open_tracked del: encode.simps)
  then have reach: "server_steps (tracked (ref_os (\<lambda>_. 7))) driver_echo 3 (Listening (?start, only_open [3]) ())
      (Serving 4 (new_connection 4) (?n, only_open [4, 3]) ())" by (rule r_into_rtranclp)
  show ?thesis using reach sockets_disciplined [OF reach] by auto
qed

end
