(* ===== verification/Driver_Wrapper.thy ===== *)
theory Driver_Wrapper
  imports Drivers
begin

text \<open>
  \<open>txvc/driver_wrapper.c\<close>: the driver the server is run with, a copy of the selected one in which
  the functions \<open>set_tck_period\<close> and \<open>shift_bits\<close> are replaced for a while.

  The pointers of the copy are tags that name the function they point to. The static pointers
  \<open>orig_set_tck_period\<close> and \<open>orig_shift_bits\<close> only ever hold the functions of the selected driver,
  so all there is to them is whether they have been assigned.
\<close>

datatype tck_fn = Driver_set_tck_period | Noop_set_tck_period | Onetime_set_tck_period
datatype shift_fn = Driver_shift_bits | Onetime_shift_bits

record 's wrapper =
  wr_tck :: tck_fn
  wr_shift :: shift_fn
  wr_orig :: bool
  wr_state :: 's

definition DEFAULT_TCK_PERIOD :: int where "DEFAULT_TCK_PERIOD = 100"

subsection \<open>The functions\<close>

definition driver_set_tck_period :: "'s driver \<Rightarrow> int \<Rightarrow> 's wrapper \<Rightarrow> (int \<times> 's wrapper) c_res" where
  "driver_set_tck_period drv t w =
     c_bind (drv_set_tck_period drv t (wr_state w)) (\<lambda>(r, s'). Ok (r, w\<lparr>wr_state := s'\<rparr>))"

definition driver_shift_bits ::
  "'s driver \<Rightarrow> int \<Rightarrow> u8 list \<Rightarrow> u8 list \<Rightarrow> u8 list \<Rightarrow> 's wrapper \<Rightarrow>
   (bool \<times> u8 list \<times> 's wrapper) c_res" where
  "driver_shift_bits drv n tms tdi tdo w =
     c_bind (drv_shift_bits drv n tms tdi tdo (wr_state w)) (\<lambda>(ok, tdo', s').
       Ok (ok, tdo', w\<lparr>wr_state := s'\<rparr>))"

definition noop_set_tck_period :: "int \<Rightarrow> 's wrapper \<Rightarrow> (int \<times> 's wrapper) c_res" where
  "noop_set_tck_period tckPeriodNs w = Ok (tckPeriodNs, w)"

definition onetime_set_tck_period :: "'s driver \<Rightarrow> int \<Rightarrow> 's wrapper \<Rightarrow> (int \<times> 's wrapper) c_res" where
  "onetime_set_tck_period drv tckPeriodNs w =
     (if \<not> wr_orig w then Fault NullDeref
      else driver_set_tck_period drv tckPeriodNs (w\<lparr>wr_tck := Driver_set_tck_period\<rparr>))"

definition onetime_shift_bits ::
  "'s driver \<Rightarrow> int \<Rightarrow> u8 list \<Rightarrow> u8 list \<Rightarrow> u8 list \<Rightarrow> 's wrapper \<Rightarrow>
   (bool \<times> u8 list \<times> 's wrapper) c_res" where
  "onetime_shift_bits drv numBits tms tdi tdo w =
     c_bind (if wr_tck w = Onetime_set_tck_period
             then onetime_set_tck_period drv DEFAULT_TCK_PERIOD w else Ok (0, w)) (\<lambda>(_, w).
       if \<not> wr_orig w then Fault NullDeref
       else driver_shift_bits drv numBits tms tdi tdo (w\<lparr>wr_shift := Driver_shift_bits\<rparr>))"

text \<open>The copy, called through its pointers.\<close>

definition wrapper_set_tck_period :: "'s driver \<Rightarrow> int \<Rightarrow> 's wrapper \<Rightarrow> (int \<times> 's wrapper) c_res" where
  "wrapper_set_tck_period drv t w = (case wr_tck w of
     Driver_set_tck_period \<Rightarrow> driver_set_tck_period drv t w
   | Noop_set_tck_period \<Rightarrow> noop_set_tck_period t w
   | Onetime_set_tck_period \<Rightarrow> onetime_set_tck_period drv t w)"

definition wrapper_shift_bits ::
  "'s driver \<Rightarrow> int \<Rightarrow> u8 list \<Rightarrow> u8 list \<Rightarrow> u8 list \<Rightarrow> 's wrapper \<Rightarrow>
   (bool \<times> u8 list \<times> 's wrapper) c_res" where
  "wrapper_shift_bits drv n tms tdi tdo w = (case wr_shift w of
     Driver_shift_bits \<Rightarrow> driver_shift_bits drv n tms tdi tdo w
   | Onetime_shift_bits \<Rightarrow> onetime_shift_bits drv n tms tdi tdo w)"

definition on_state :: "('s \<Rightarrow> (bool \<times> 's) c_res) \<Rightarrow> 's wrapper \<Rightarrow> (bool \<times> 's wrapper) c_res" where
  "on_state f w = c_bind (f (wr_state w)) (\<lambda>(ok, s'). Ok (ok, w\<lparr>wr_state := s'\<rparr>))"

definition txvcDriverWrapper :: "'s driver \<Rightarrow> 's wrapper driver" where
  "txvcDriverWrapper drv = \<lparr>drv_name = drv_name drv, drv_help = drv_help drv,
     drv_activate = (\<lambda>args. on_state (drv_activate drv args)),
     drv_deactivate = on_state (drv_deactivate drv),
     drv_max_vector_bits = (\<lambda>w. drv_max_vector_bits drv (wr_state w)),
     drv_set_tck_period = wrapper_set_tck_period drv,
     drv_shift_bits = wrapper_shift_bits drv\<rparr>"

definition txvc_driver_wrapper_setup :: "'s driver \<Rightarrow> int \<Rightarrow> 's \<Rightarrow> 's wrapper c_res" where
  "txvc_driver_wrapper_setup drv fixedTckPeriod s =
     (let w = \<lparr>wr_tck = Driver_set_tck_period, wr_shift = Driver_shift_bits, wr_orig = False,
               wr_state = s\<rparr>
      in if fixedTckPeriod > 0 then
           c_bind (driver_set_tck_period drv fixedTckPeriod w) (\<lambda>(r, w).
             Ok (if r = fixedTckPeriod then w\<lparr>wr_tck := Noop_set_tck_period\<rparr> else w))
         else Ok (w\<lparr>wr_tck := Onetime_set_tck_period, wr_shift := Onetime_shift_bits, wr_orig := True\<rparr>))"

lemmas wrapper_defs = driver_set_tck_period_def driver_shift_bits_def noop_set_tck_period_def
  onetime_set_tck_period_def onetime_shift_bits_def wrapper_set_tck_period_def wrapper_shift_bits_def

text \<open>A pointer to one of the wrappers goes with assigned originals.\<close>

definition wrapper_inv :: "'s wrapper \<Rightarrow> bool" where
  "wrapper_inv w \<longleftrightarrow> wr_tck w = Onetime_set_tck_period \<or> wr_shift w = Onetime_shift_bits \<longrightarrow> wr_orig w"

lemma wrapper_inv_simps [simp]:
  "wrapper_inv (w\<lparr>wr_state := s\<rparr>) = wrapper_inv w"
  "wr_orig w \<Longrightarrow> wrapper_inv (w\<lparr>wr_tck := a\<rparr>)" "wr_orig w \<Longrightarrow> wrapper_inv (w\<lparr>wr_shift := b\<rparr>)"
  by (simp_all add: wrapper_inv_def)

subsection \<open>A wrapped driver fulfils the contracts of the driver\<close>

locale wrapped_safe_driver = safe_driver
begin

lemma driver_tck_safe:
  assumes "invar (wr_state w)" "0 \<le> t" "t < 2 ^ 31"
  shows "c_safe (driver_set_tck_period drv t w)
    (\<lambda>(r, w'). r < 2 ^ 31 \<and> invar (wr_state w') \<and> (\<exists>s'. w' = w\<lparr>wr_state := s'\<rparr>))"
  unfolding driver_set_tck_period_def by (rule c_safe_bindI [OF tck_safe [OF assms]]) auto

lemma driver_shift_safe:
  assumes "invar (wr_state w)" "0 < n" "n < 2 ^ 31" "n \<le> 8 * int (length tms)"
    "n \<le> 8 * int (length tdi)" "n \<le> 8 * int (length tdo)"
  shows "c_safe (driver_shift_bits drv n tms tdi tdo w)
    (\<lambda>(ok, tdo', w'). length tdo' = length tdo \<and> invar (wr_state w') \<and> (\<exists>s'. w' = w\<lparr>wr_state := s'\<rparr>))"
  unfolding driver_shift_bits_def by (rule c_safe_bindI [OF shift_safe [OF assms]]) auto

lemma onetime_tck_safe:
  assumes "invar (wr_state w)" "wr_orig w" "0 \<le> t" "t < 2 ^ 31"
  shows "c_safe (onetime_set_tck_period drv t w)
    (\<lambda>(r, w'). r < 2 ^ 31 \<and> invar (wr_state w') \<and> wr_orig w')"
  using assms by (auto simp: onetime_set_tck_period_def intro!: c_safe_mono [OF driver_tck_safe])

lemma onetime_shift_safe:
  assumes w: "invar (wr_state w)" "wr_orig w" and n: "0 < n" "n < 2 ^ 31" "n \<le> 8 * int (length tms)"
    "n \<le> 8 * int (length tdi)" "n \<le> 8 * int (length tdo)"
  shows "c_safe (onetime_shift_bits drv n tms tdi tdo w)
    (\<lambda>(ok, tdo', w'). length tdo' = length tdo \<and> invar (wr_state w') \<and> wrapper_inv w')"
  unfolding onetime_shift_bits_def
proof (rule c_safe_bindI)
  show "c_safe (if wr_tck w = Onetime_set_tck_period
             then onetime_set_tck_period drv DEFAULT_TCK_PERIOD w else Ok (0, w))
      (\<lambda>(r, w'). invar (wr_state w') \<and> wr_orig w')"
    using w by (auto simp: DEFAULT_TCK_PERIOD_def intro: c_safe_mono [OF onetime_tck_safe])
  fix x :: "int \<times> 'a wrapper"
  assume "case x of (r, w') \<Rightarrow> invar (wr_state w') \<and> wr_orig w'"
  then show "c_safe (case x of (_, w) \<Rightarrow> if \<not> wr_orig w then Fault NullDeref
       else driver_shift_bits drv n tms tdi tdo (w\<lparr>wr_shift := Driver_shift_bits\<rparr>))
    (\<lambda>(ok, tdo', w'). length tdo' = length tdo \<and> invar (wr_state w') \<and> wrapper_inv w')"
    using n by (cases x) (auto simp: wrapper_inv_def intro!: c_safe_mono [OF driver_shift_safe])
qed

end

sublocale wrapped_safe_driver \<subseteq> wrapper: safe_driver "txvcDriverWrapper drv"
  "\<lambda>w. invar (wr_state w) \<and> wrapper_inv w"
proof unfold_locales
  fix w :: "'a wrapper" and t :: int
  assume w: "invar (wr_state w) \<and> wrapper_inv w" and t: "0 \<le> t" "t < 2 ^ 31"
  show "c_safe (drv_set_tck_period (txvcDriverWrapper drv) t w)
      (\<lambda>(r, w'). r < 2 ^ 31 \<and> invar (wr_state w') \<and> wrapper_inv w')"
    using w t
    by (cases "wr_tck w")
       (auto simp: txvcDriverWrapper_def wrapper_set_tck_period_def noop_set_tck_period_def
          wrapper_inv_def intro!: c_safe_mono [OF driver_tck_safe] c_safe_mono [OF onetime_tck_safe])
next
  fix w :: "'a wrapper" and n :: int and tms tdi tdo :: "u8 list"
  assume w: "invar (wr_state w) \<and> wrapper_inv w" and n: "0 < n" "n < 2 ^ 31"
    "n \<le> 8 * int (length tms)" "n \<le> 8 * int (length tdi)" "n \<le> 8 * int (length tdo)"
  show "c_safe (drv_shift_bits (txvcDriverWrapper drv) n tms tdi tdo w)
      (\<lambda>(ok, tdo', w'). length tdo' = length tdo \<and> invar (wr_state w') \<and> wrapper_inv w')"
    using w n
    by (cases "wr_shift w")
       (auto simp: txvcDriverWrapper_def wrapper_shift_bits_def wrapper_inv_def
          intro!: c_safe_mono [OF driver_shift_safe] c_safe_mono [OF onetime_shift_safe])
qed

interpretation wrapped_echo: wrapped_safe_driver driver_echo "\<lambda>s. True"
  by unfold_locales

text \<open>What the wrapper adds to the abstract state: which functions its pointers name. The first
  vector of a client that has not set a period comes with the default one.\<close>

type_synonym 'v wrapper_view = "tck_fn \<times> shift_fn \<times> 'v"

definition wrapper_tck_view ::
  "(int \<Rightarrow> 'v \<Rightarrow> int \<times> 'v) \<Rightarrow> int \<Rightarrow> 'v wrapper_view \<Rightarrow> int \<times> 'v wrapper_view" where
  "wrapper_tck_view tck t = (\<lambda>(a, b, v).
     if a = Noop_set_tck_period then (t, a, b, v)
     else (fst (tck t v), Driver_set_tck_period, b, snd (tck t v)))"

definition wrapper_shift_view ::
  "(int \<Rightarrow> 'v \<Rightarrow> int \<times> 'v) \<Rightarrow>
   (nat \<Rightarrow> u8 list \<Rightarrow> u8 list \<Rightarrow> u8 list \<Rightarrow> 'v \<Rightarrow> u8 list \<times> 'v) \<Rightarrow>
   nat \<Rightarrow> u8 list \<Rightarrow> u8 list \<Rightarrow> u8 list \<Rightarrow> 'v wrapper_view \<Rightarrow> u8 list \<times> 'v wrapper_view" where
  "wrapper_shift_view tck shift n tms tdi tdo = (\<lambda>(a, b, v).
     let early = (a = Onetime_set_tck_period \<and> b = Onetime_shift_bits);
         x = shift n tms tdi tdo (if early then snd (tck DEFAULT_TCK_PERIOD v) else v)
     in (fst x, if early then Driver_set_tck_period else a, Driver_shift_bits, snd x))"

locale wrapped_served_driver = served_driver +
  assumes default_ok: "tck_ok DEFAULT_TCK_PERIOD"
begin

lemma driver_tck_served:
  assumes "ready (wr_state w)" "tck_ok t"
  shows "\<exists>s'. driver_set_tck_period drv t w = Ok (fst (tck_view t (view (wr_state w))), w\<lparr>wr_state := s'\<rparr>)
    \<and> ready s' \<and> view s' = snd (tck_view t (view (wr_state w)))
    \<and> drv_max_vector_bits drv s' = drv_max_vector_bits drv (wr_state w)"
  using tck_served [OF assms] by (auto simp: driver_set_tck_period_def)

lemma driver_shift_served:
  assumes "ready (wr_state w)" "bits_ok n" "0 < n" "n \<le> 8 * length tms" "n \<le> 8 * length tdi"
    "n \<le> 8 * length tdo"
  shows "\<exists>s'. driver_shift_bits drv (int n) tms tdi tdo w
      = Ok (True, fst (shift_view n tms tdi tdo (view (wr_state w))), w\<lparr>wr_state := s'\<rparr>)
    \<and> ready s' \<and> view s' = snd (shift_view n tms tdi tdo (view (wr_state w)))
    \<and> drv_max_vector_bits drv s' = drv_max_vector_bits drv (wr_state w)"
  using shift_served [OF assms] by (auto simp: driver_shift_bits_def)

lemma onetime_shift_served:
  assumes "ready (wr_state w)" "wr_orig w" "bits_ok n" "0 < n" "n \<le> 8 * length tms"
    "n \<le> 8 * length tdi" "n \<le> 8 * length tdo"
    and v: "v = (if wr_tck w = Onetime_set_tck_period then snd (tck_view DEFAULT_TCK_PERIOD (view (wr_state w)))
      else view (wr_state w))"
    and a: "a = (if wr_tck w = Onetime_set_tck_period then Driver_set_tck_period else wr_tck w)"
  shows "\<exists>s'. onetime_shift_bits drv (int n) tms tdi tdo w = Ok (True, fst (shift_view n tms tdi tdo v),
      w\<lparr>wr_tck := a, wr_shift := Driver_shift_bits, wr_state := s'\<rparr>)
    \<and> ready s' \<and> view s' = snd (shift_view n tms tdi tdo v)
    \<and> drv_max_vector_bits drv s' = drv_max_vector_bits drv (wr_state w)"
proof -
  obtain r s1 where 1: "(if wr_tck w = Onetime_set_tck_period
       then onetime_set_tck_period drv DEFAULT_TCK_PERIOD w else Ok (0, w)) = Ok (r, w\<lparr>wr_tck := a, wr_state := s1\<rparr>)"
    "ready s1" "view s1 = v" "drv_max_vector_bits drv s1 = drv_max_vector_bits drv (wr_state w)"
  proof (cases "wr_tck w = Onetime_set_tck_period")
    case True
    then show thesis
      using that driver_tck_served [of "w\<lparr>wr_tck := Driver_set_tck_period\<rparr>" DEFAULT_TCK_PERIOD]
        default_ok assms(1,2) v a
      by (fastforce simp: onetime_set_tck_period_def)
  next
    case False
    then show thesis using that [of 0 "wr_state w"] assms(1) v a by simp
  qed
  let ?w = "w\<lparr>wr_tck := a, wr_shift := Driver_shift_bits, wr_state := s1\<rparr>"
  have "onetime_shift_bits drv (int n) tms tdi tdo w = driver_shift_bits drv (int n) tms tdi tdo ?w"
    using assms(2) unfolding onetime_shift_bits_def 1(1) by (cases w) simp
  then show ?thesis
    using driver_shift_served [of ?w n tms tdi tdo] assms(3-7) 1(2-4) by auto
qed

end

sublocale wrapped_served_driver \<subseteq> wrapper: served_driver "txvcDriverWrapper drv"
  "\<lambda>w. ready (wr_state w) \<and> wrapper_inv w" "\<lambda>t. tck_ok t \<and> 0 < t" bits_ok
  "\<lambda>w. (wr_tck w, wr_shift w, view (wr_state w))" "wrapper_tck_view tck_view"
  "wrapper_shift_view tck_view shift_view"
proof unfold_locales
  fix w :: "'a wrapper"
  assume "ready (wr_state w) \<and> wrapper_inv w"
  then show "0 < drv_max_vector_bits (txvcDriverWrapper drv) w"
    using info_served by (simp add: txvcDriverWrapper_def)
next
  fix w :: "'a wrapper" and t :: int
  assume w: "ready (wr_state w) \<and> wrapper_inv w" and t: "tck_ok t \<and> 0 < t"
  have "\<exists>w'. wrapper_set_tck_period drv t w
      = Ok (fst (wrapper_tck_view tck_view t (wr_tck w, wr_shift w, view (wr_state w))), w')
    \<and> (ready (wr_state w') \<and> wrapper_inv w')
    \<and> (wr_tck w', wr_shift w', view (wr_state w'))
      = snd (wrapper_tck_view tck_view t (wr_tck w, wr_shift w, view (wr_state w)))
    \<and> drv_max_vector_bits drv (wr_state w') = drv_max_vector_bits drv (wr_state w)"
    using w t driver_tck_served [of "w\<lparr>wr_tck := Driver_set_tck_period\<rparr>" t] driver_tck_served [of w t]
    by (cases "wr_tck w")
       (fastforce simp: wrapper_set_tck_period_def noop_set_tck_period_def onetime_set_tck_period_def
          wrapper_tck_view_def wrapper_inv_def)+
  then show "\<exists>w'. drv_set_tck_period (txvcDriverWrapper drv) t w
      = Ok (fst (wrapper_tck_view tck_view t (wr_tck w, wr_shift w, view (wr_state w))), w')
    \<and> (ready (wr_state w') \<and> wrapper_inv w')
    \<and> (wr_tck w', wr_shift w', view (wr_state w'))
      = snd (wrapper_tck_view tck_view t (wr_tck w, wr_shift w, view (wr_state w)))
    \<and> drv_max_vector_bits (txvcDriverWrapper drv) w' = drv_max_vector_bits (txvcDriverWrapper drv) w"
    by (simp add: txvcDriverWrapper_def)
next
  fix w :: "'a wrapper" and n :: nat and tms tdi tdo :: "u8 list"
  assume w: "ready (wr_state w) \<and> wrapper_inv w"
    and n: "bits_ok n" "0 < n" "n \<le> 8 * length tms" "n \<le> 8 * length tdi" "n \<le> 8 * length tdo"
  have "\<exists>w'. wrapper_shift_bits drv (int n) tms tdi tdo w = Ok (True,
      fst (wrapper_shift_view tck_view shift_view n tms tdi tdo (wr_tck w, wr_shift w, view (wr_state w))), w')
    \<and> (ready (wr_state w') \<and> wrapper_inv w')
    \<and> (wr_tck w', wr_shift w', view (wr_state w'))
      = snd (wrapper_shift_view tck_view shift_view n tms tdi tdo (wr_tck w, wr_shift w, view (wr_state w)))
    \<and> drv_max_vector_bits drv (wr_state w') = drv_max_vector_bits drv (wr_state w)"
  proof (cases "wr_shift w")
    case Driver_shift_bits
    obtain s' where "driver_shift_bits drv (int n) tms tdi tdo w
        = Ok (True, fst (shift_view n tms tdi tdo (view (wr_state w))), w\<lparr>wr_state := s'\<rparr>)"
      "ready s'" "view s' = snd (shift_view n tms tdi tdo (view (wr_state w)))"
      "drv_max_vector_bits drv s' = drv_max_vector_bits drv (wr_state w)"
      using driver_shift_served [of w n tms tdi tdo] w n by blast
    then show ?thesis
      using Driver_shift_bits w
      by (simp add: wrapper_shift_bits_def wrapper_shift_view_def wrapper_inv_def Let_def)
  next
    case Onetime_shift_bits
    then have "wr_orig w" using w by (simp add: wrapper_inv_def)
    then show ?thesis
      using onetime_shift_served [OF _ _ n refl refl, of w] w Onetime_shift_bits
      by (auto simp: wrapper_shift_bits_def wrapper_shift_view_def wrapper_inv_def Let_def)
  qed
  then show "\<exists>w'. drv_shift_bits (txvcDriverWrapper drv) (int n) tms tdi tdo w = Ok (True,
      fst (wrapper_shift_view tck_view shift_view n tms tdi tdo (wr_tck w, wr_shift w, view (wr_state w))), w')
    \<and> (ready (wr_state w') \<and> wrapper_inv w')
    \<and> (wr_tck w', wr_shift w', view (wr_state w'))
      = snd (wrapper_shift_view tck_view shift_view n tms tdi tdo (wr_tck w, wr_shift w, view (wr_state w)))
    \<and> drv_max_vector_bits (txvcDriverWrapper drv) w' = drv_max_vector_bits (txvcDriverWrapper drv) w"
    by (simp add: txvcDriverWrapper_def)
next
  fix t :: int and v :: "'b wrapper_view"
  assume "tck_ok t \<and> 0 < t"
  then show "0 < fst (wrapper_tck_view tck_view t v)"
    using tck_positive by (cases v) (simp add: wrapper_tck_view_def)
next
  fix n :: nat and tms tdi tdo :: "u8 list" and v :: "'b wrapper_view"
  assume "n \<le> 8 * length tdi" "n \<le> 8 * length tdo"
  then show "length (fst (wrapper_shift_view tck_view shift_view n tms tdi tdo v)) = length tdo"
    using shift_length by (cases v) (simp add: wrapper_shift_view_def Let_def)
next
  fix n k :: nat and tms tdi tdo :: "u8 list" and v :: "'b wrapper_view"
  assume "n \<le> 8 * k" "k \<le> length tms" "k \<le> length tdi"
  then show "wrapper_shift_view tck_view shift_view n (take k tms) (take k tdi) tdo v
      = wrapper_shift_view tck_view shift_view n tms tdi tdo v"
    using shift_local by (cases v) (simp add: wrapper_shift_view_def Let_def)
qed

interpretation wrapped_ftdi: wrapped_served_driver "driver_ftdi_generic malloc dx" "ftdi_ready clk dx"
  "\<lambda>t. 0 < t \<and> 30 * t < 2 ^ 31" "\<lambda>n. n \<le> 1792" ftdi_view "\<lambda>t v. (nearest_period t, v)" "cable_view clk"
  for malloc and dx :: "'d chip d2xx" and clk :: "'d target"
  by unfold_locales (simp add: DEFAULT_TCK_PERIOD_def)

subsection \<open>What the wrapped driver gets to see\<close>

datatype driver_call = Set_tck int | Shift_vec int "u8 list" "u8 list" "u8 list"
datatype driver_reply = Period int | Shifted bool "u8 list"

fun run_call :: "'s driver \<Rightarrow> driver_call \<Rightarrow> 's \<Rightarrow> (driver_reply \<times> 's) c_res" where
  "run_call drv (Set_tck t) s = c_bind (drv_set_tck_period drv t s) (\<lambda>(r, s). Ok (Period r, s))"
| "run_call drv (Shift_vec n tms tdi tdo) s =
     c_bind (drv_shift_bits drv n tms tdi tdo s) (\<lambda>(ok, tdo, s). Ok (Shifted ok tdo, s))"

fun run_calls :: "'s driver \<Rightarrow> driver_call list \<Rightarrow> 's \<Rightarrow> (driver_reply list \<times> 's) c_res" where
  "run_calls drv [] s = Ok ([], s)"
| "run_calls drv (c # cs) s =
     c_bind (run_call drv c s) (\<lambda>(r, s). c_bind (run_calls drv cs s) (\<lambda>(rs, s). Ok (r # rs, s)))"

text \<open>The same, with the period requests answered by themselves and kept from the driver.\<close>

fun run_shifts :: "'s driver \<Rightarrow> driver_call list \<Rightarrow> 's \<Rightarrow> (driver_reply list \<times> 's) c_res" where
  "run_shifts drv [] s = Ok ([], s)"
| "run_shifts drv (Set_tck t # cs) s =
     c_bind (run_shifts drv cs s) (\<lambda>(rs, s). Ok (Period t # rs, s))"
| "run_shifts drv (Shift_vec n tms tdi tdo # cs) s =
     c_bind (run_call drv (Shift_vec n tms tdi tdo) s) (\<lambda>(r, s).
     c_bind (run_shifts drv cs s) (\<lambda>(rs, s). Ok (r # rs, s)))"

definition run_wrapped ::
  "'s driver \<Rightarrow> driver_call list \<Rightarrow> 's wrapper \<Rightarrow> (driver_reply list \<times> 's) c_res" where
  "run_wrapped drv cs w = c_bind (run_calls (txvcDriverWrapper drv) cs w) (\<lambda>(rs, w). Ok (rs, wr_state w))"

lemma run_wrapped_Nil: "run_wrapped drv [] w = Ok ([], wr_state w)"
  by (simp add: run_wrapped_def)

lemma run_wrapped_Cons:
  "run_wrapped drv (c # cs) w = c_bind (run_call (txvcDriverWrapper drv) c w) (\<lambda>(r, w).
     c_bind (run_wrapped drv cs w) (\<lambda>(rs, s). Ok (r # rs, s)))"
  by (cases "run_call (txvcDriverWrapper drv) c w")
     (auto simp: run_wrapped_def c_bind_assoc case_prod_unfold)

lemma wrapper_calls:
  "wr_tck w = Driver_set_tck_period \<Longrightarrow> run_call (txvcDriverWrapper drv) (Set_tck t) w
     = c_bind (run_call drv (Set_tck t) (wr_state w)) (\<lambda>(r, s). Ok (r, w\<lparr>wr_state := s\<rparr>))"
  "wr_tck w = Noop_set_tck_period \<Longrightarrow> run_call (txvcDriverWrapper drv) (Set_tck t) w = Ok (Period t, w)"
  "wr_tck w = Onetime_set_tck_period \<Longrightarrow> wr_orig w \<Longrightarrow> run_call (txvcDriverWrapper drv) (Set_tck t) w
     = c_bind (run_call drv (Set_tck t) (wr_state w)) (\<lambda>(r, s).
         Ok (r, w\<lparr>wr_tck := Driver_set_tck_period, wr_state := s\<rparr>))"
  "wr_shift w = Driver_shift_bits \<Longrightarrow> run_call (txvcDriverWrapper drv) (Shift_vec n tms tdi tdo) w
     = c_bind (run_call drv (Shift_vec n tms tdi tdo) (wr_state w)) (\<lambda>(r, s). Ok (r, w\<lparr>wr_state := s\<rparr>))"
  "wr_tck w \<noteq> Onetime_set_tck_period \<Longrightarrow> wr_shift w = Onetime_shift_bits \<Longrightarrow> wr_orig w \<Longrightarrow>
     run_call (txvcDriverWrapper drv) (Shift_vec n tms tdi tdo) w
     = c_bind (run_call drv (Shift_vec n tms tdi tdo) (wr_state w)) (\<lambda>(r, s).
         Ok (r, w\<lparr>wr_shift := Driver_shift_bits, wr_state := s\<rparr>))"
  by (simp_all add: txvcDriverWrapper_def wrapper_defs c_bind_assoc case_prod_unfold)

lemma run_transparent:
  "wr_tck w = Driver_set_tck_period \<Longrightarrow> wrapper_inv w \<Longrightarrow> run_wrapped drv cs w = run_calls drv cs (wr_state w)"
proof (induction cs arbitrary: w)
  case (Cons c cs)
  have "\<exists>g. (\<forall>s. wr_tck (g s) = Driver_set_tck_period \<and> wrapper_inv (g s) \<and> wr_state (g s) = s)
      \<and> run_call (txvcDriverWrapper drv) c w = c_bind (run_call drv c (wr_state w)) (\<lambda>(r, s). Ok (r, g s))"
  proof (cases c)
    case (Set_tck t)
    show ?thesis
      by (rule exI [of _ "\<lambda>s. w\<lparr>wr_state := s\<rparr>"])
         (use Cons.prems in \<open>simp add: Set_tck wrapper_calls(1) del: run_call.simps\<close>)
  next
    case (Shift_vec n tms tdi tdo)
    show ?thesis
    proof (cases "wr_shift w")
      case Driver_shift_bits
      then show ?thesis
        by (intro exI [of _ "\<lambda>s. w\<lparr>wr_state := s\<rparr>"])
           (use Cons.prems in \<open>simp add: Shift_vec wrapper_calls(4) del: run_call.simps\<close>)
    next
      case Onetime_shift_bits
      then show ?thesis
        by (intro exI [of _ "\<lambda>s. w\<lparr>wr_shift := Driver_shift_bits, wr_state := s\<rparr>"])
           (use Cons.prems in \<open>simp add: Shift_vec wrapper_calls(5) wrapper_inv_def del: run_call.simps\<close>)
    qed
  qed
  then obtain g where g: "\<And>s. wr_tck (g s) = Driver_set_tck_period \<and> wrapper_inv (g s) \<and> wr_state (g s) = s"
    "run_call (txvcDriverWrapper drv) c w = c_bind (run_call drv c (wr_state w)) (\<lambda>(r, s). Ok (r, g s))"
    by blast
  show ?case
    by (cases "run_call drv c (wr_state w)")
       (auto simp: run_wrapped_Cons g Cons.IH simp del: run_call.simps)
qed (simp add: run_wrapped_Nil)

text \<open>C34. Without an enforced period the driver gets exactly the client's calls, except that a
  vector that comes before any period request is preceded by one for 100 ns, whose outcome nobody
  looks at.\<close>
theorem wrapper_default_period:
  assumes "fixedTckPeriod \<le> 0" "txvc_driver_wrapper_setup drv fixedTckPeriod s = Ok w"
  shows "run_wrapped drv cs w = (case cs of
      Shift_vec n tms tdi tdo # cs' \<Rightarrow>
        c_bind (run_calls drv (Set_tck 100 # cs) s) (\<lambda>(rs, s'). Ok (tl rs, s'))
    | _ \<Rightarrow> run_calls drv cs s)"
proof (cases cs)
  case Nil
  then show ?thesis
    using assms by (auto simp: txvc_driver_wrapper_setup_def run_wrapped_Nil)
next
  case (Cons c cs')
  have w: "wr_tck w = Onetime_set_tck_period" "wr_shift w = Onetime_shift_bits" "wr_orig w" "wr_state w = s"
    using assms by (auto simp: txvc_driver_wrapper_setup_def)
  show ?thesis
  proof (cases c)
    case (Set_tck t)
    have t: "run_wrapped drv cs' (w\<lparr>wr_tck := Driver_set_tck_period, wr_state := s'\<rparr>) = run_calls drv cs' s'" for s'
      by (subst run_transparent) (simp_all add: wrapper_inv_def w)
    show ?thesis
      by (cases "run_call drv (Set_tck t) s")
         (auto simp: Cons Set_tck run_wrapped_Cons wrapper_calls(3) w t simp del: run_call.simps)
  next
    case (Shift_vec n tms tdi tdo)
    have t: "run_wrapped drv cs' (w\<lparr>wr_tck := Driver_set_tck_period, wr_shift := Driver_shift_bits,
        wr_state := s'\<rparr>) = run_calls drv cs' s'" for s'
      by (subst run_transparent) (simp_all add: wrapper_inv_def w)
    have "run_call (txvcDriverWrapper drv) c w = c_bind (run_call drv (Set_tck 100) s) (\<lambda>(_, s).
        c_bind (run_call drv c s) (\<lambda>(r, s).
          Ok (r, w\<lparr>wr_tck := Driver_set_tck_period, wr_shift := Driver_shift_bits, wr_state := s\<rparr>)))"
      by (cases w) (use w in \<open>simp add: Shift_vec txvcDriverWrapper_def wrapper_defs DEFAULT_TCK_PERIOD_def
        c_bind_assoc case_prod_unfold\<close>)
    then show ?thesis
      by (cases "run_call drv (Set_tck 100) s")
         (auto simp: Cons Shift_vec run_wrapped_Cons c_bind_assoc case_prod_unfold t simp del: run_call.simps)
  qed
qed

theorem wrapper_default_period_witness:
  "run_wrapped driver_echo [Shift_vec 8 [0] [0x5a] [0]]
      \<lparr>wr_tck = Onetime_set_tck_period, wr_shift = Onetime_shift_bits, wr_orig = True, wr_state = ()\<rparr>
    = Ok ([Shifted True [0x5a]], ())"
  by (subst wrapper_default_period [of 0 driver_echo "()"])
     (simp_all add: txvc_driver_wrapper_setup_def driver_echo_def echo_set_tck_period_def
        echo_shift_bits_def c_slice_def blit_def sdiv_nonneg smod_nonneg)

text \<open>C35. With an enforced period the driver is asked for it first. If it can set exactly that
  period, it gets to see the vectors only, and the client is told that it got whatever period it
  asks for; if it had to round, nothing is enforced and it gets all the client's calls.\<close>
theorem wrapper_fixed_period:
  assumes "0 < fixedTckPeriod" "drv_set_tck_period drv fixedTckPeriod s = Ok (r, s')"
  shows "\<exists>w. txvc_driver_wrapper_setup drv fixedTckPeriod s = Ok w
    \<and> run_wrapped drv cs w = (if r = fixedTckPeriod then run_shifts drv cs s' else run_calls drv cs s')"
proof (cases "r = fixedTckPeriod")
  case False
  let ?w = "\<lparr>wr_tck = Driver_set_tck_period, wr_shift = Driver_shift_bits, wr_orig = False, wr_state = s'\<rparr>"
  have "txvc_driver_wrapper_setup drv fixedTckPeriod s = Ok ?w"
    using assms False by (simp add: txvc_driver_wrapper_setup_def driver_set_tck_period_def)
  then show ?thesis using False by (simp add: run_transparent wrapper_inv_def)
next
  case True
  let ?w = "\<lambda>s. \<lparr>wr_tck = Noop_set_tck_period, wr_shift = Driver_shift_bits, wr_orig = False, wr_state = s\<rparr>"
  have "run_wrapped drv cs (?w s) = run_shifts drv cs s" for s
  proof (induction cs arbitrary: s)
    case (Cons c cs)
    show ?case
    proof (cases c)
      case (Shift_vec n tms tdi tdo)
      show ?thesis
        by (cases "run_call drv c s")
           (auto simp: run_wrapped_Cons Shift_vec wrapper_calls(4) Cons.IH simp del: run_call.simps)
    qed (simp add: run_wrapped_Cons wrapper_calls(2) Cons.IH del: run_call.simps)
  qed (simp add: run_wrapped_Nil)
  moreover have "txvc_driver_wrapper_setup drv fixedTckPeriod s = Ok (?w s')"
    using assms True by (simp add: txvc_driver_wrapper_setup_def driver_set_tck_period_def)
  ultimately show ?thesis using True by simp
qed

theorem wrapper_fixed_period_witness:
  "\<exists>w. txvc_driver_wrapper_setup driver_echo 40 () = Ok w
    \<and> run_wrapped driver_echo [Set_tck 100] w = Ok ([Period 100], ())"
  using wrapper_fixed_period [of 40 driver_echo "()" 40 "()" "[Set_tck 100]"]
  by (simp add: driver_echo_def echo_set_tck_period_def)

end
