(* ===== verification/Txvc_Config.thy ===== *)
theory Txvc_Config
  imports C_Strings Ftdi_Help
begin

text \<open>
  \<open>txvc/txvc.c\<close>: the command line, the environment and the configuration they make.

  The command line goes through the C library's \<open>getopt\<close>, modelled with the permutation of operands
  of the GNU library (\<open>getopt_args\<close>: the options it reports one after the other, and the operands
  \<open>argv\<close> ends with). The environment is an argument.
\<close>

subsection \<open>The options and the environment variables\<close>

text \<open>The list macros with what is known of each item apart from its field in \<open>struct config\<close>:
  the option, its description and its argument, if it takes one; the variable, its description and
  whether it is a flag.\<close>

definition DEFAULT_SERVER_ADDR :: string where "DEFAULT_SERVER_ADDR = ''127.0.0.1:2542''"
definition DEFAULT_LOG_TAG_SPEC :: string where "DEFAULT_LOG_TAG_SPEC = ''all+''"

definition apostrophes :: "string \<Rightarrow> string" where
  "apostrophes s = CHR 0x27 # s @ [CHR 0x27]"

definition CLI_OPTION_LIST_ITEMS :: "(char \<times> string \<times> string option) list" where
  "CLI_OPTION_LIST_ITEMS =
     [(CHR ''h'', ''Print this message.'', None),
      (CHR ''p'', ''Hardware profile or profile alias.'' @
         '' HW profile is a specification that defines a '' @ quote ''backend'' @
         '' to be used to communicate'' @
         '' with FPGA and its parameters. HW profile is specified in the following'' @
         '' form:'' @ newline @ newline @ CHR 0x09 #
         ''<driver_name>:<arg0>=<val0>,<arg1>=<val1>,<arg2>=<val2>,...'' @ newline @ newline @
         ''Use '' @ apostrophes ''-D'' @
         '' to see available driver names as well as their specific parameters.'' @
         '' Also there are a few predefined profile aliases for specific HW that can be used'' @
         '' instead of fully specified descriptions, use '' @ apostrophes ''-A'' @
         '' to see available aliases.'', Some ''profile_spec_or_alias''),
      (CHR ''a'', ''IPv4 address and port to listen for incoming XVC connections at (default: '' @
         DEFAULT_SERVER_ADDR @ '').'', Some ''ipv4_address:port''),
      (CHR ''t'', ''Enforced TCK period, expressed in nanoseconds.'', Some ''tck_period_ns''),
      (CHR ''D'', ''Print available drivers.'', None),
      (CHR ''A'', ''Print available aliases.'', None)]"

definition ENV_LIST_ITEMS :: "(string \<times> string \<times> bool) list" where
  "ENV_LIST_ITEMS =
     [(''TXVC_LOG_VERBOSE'', ''Enable verbose logging'', True),
      (''TXVC_LOG_TIMESTAMPS'', ''Prefix logs with timestamp'', True),
      (''TXVC_LOG_SPEC'', ''Log tags to enable/disable.'' @
         '' A sequence of tags names where each name is followed by '' @ apostrophes ''+'' @
         '' to enable or '' @ apostrophes ''-'' @ '' to disable it. Use '' @ apostrophes ''all[+-]'' @
         '' to enable or disable all tags. E.g. '' @ apostrophes ''foo-all+bar-'' @
         '' enables all tags except for '' @ apostrophes ''bar'' @ ''. (default '' @
         apostrophes DEFAULT_LOG_TAG_SPEC @ '')'', False)]"

definition cli_optstr :: string where
  "cli_optstr = concat (map (\<lambda>(c, descr, arg). if arg = None then [c] else [c, CHR '':'']) CLI_OPTION_LIST_ITEMS)"

lemma cli_optstr_chars: "cli_optstr = ''hp:a:t:DA''"
  by (simp add: cli_optstr_def CLI_OPTION_LIST_ITEMS_def)

subsection \<open>Command line\<close>

datatype opt = Opt char string | Bad_opt

text \<open>Does an option take an argument; none if there is no such option.\<close>

fun opt_takes :: "string \<Rightarrow> char \<Rightarrow> bool option" where
  "opt_takes [] c = None"
| "opt_takes (x # xs) c =
     (if x = c \<and> c \<noteq> CHR '':'' then Some (xs \<noteq> [] \<and> hd xs = CHR '':'') else opt_takes xs c)"

text \<open>The rest of a cluster of options, and the arguments after it.\<close>

fun getopt_args :: "string \<Rightarrow> string \<Rightarrow> string list \<Rightarrow> opt list \<times> string list" where
  "getopt_args optstr (c # cs) args =
     (case opt_takes optstr c of
        None \<Rightarrow> (case getopt_args optstr cs args of (os, rest) \<Rightarrow> (Bad_opt # os, rest))
      | Some False \<Rightarrow> (case getopt_args optstr cs args of (os, rest) \<Rightarrow> (Opt c [] # os, rest))
      | Some True \<Rightarrow>
          if cs \<noteq> [] then (case getopt_args optstr [] args of (os, rest) \<Rightarrow> (Opt c cs # os, rest))
          else (case args of
                  [] \<Rightarrow> ([Bad_opt], [])
                | a # as \<Rightarrow> (case getopt_args optstr [] as of (os, rest) \<Rightarrow> (Opt c a # os, rest))))"
| "getopt_args optstr [] [] = ([], [])"
| "getopt_args optstr [] (a # args) =
     (if a = ''--'' then ([], args)
      else if a \<noteq> [] \<and> hd a = CHR ''-'' \<and> tl a \<noteq> [] then getopt_args optstr (tl a) args
      else (case getopt_args optstr [] args of (os, rest) \<Rightarrow> (os, a # rest)))"

definition INT_MIN :: int where "INT_MIN = - (2 ^ 31)"

definition parse_int :: "string \<Rightarrow> int" where
  "parse_int s = (case c_strtol s 0 of (res, p) \<Rightarrow>
     if s = [] \<or> char_at s p \<noteq> CHR 0x00 then INT_MIN else sint (word_of_int res :: u32))"

subsection \<open>Configuration\<close>

record config =
  cf_help :: bool
  cf_profile :: "string option"
  cf_serverAddr :: string
  cf_tckPeriodNanos :: int
  cf_helpDrivers :: bool
  cf_helpAliases :: bool
  cf_logVerbose :: bool
  cf_logTimestamps :: bool
  cf_logTagSpec :: string

definition default_config :: config where
  "default_config = \<lparr>cf_help = False, cf_profile = None, cf_serverAddr = DEFAULT_SERVER_ADDR,
     cf_tckPeriodNanos = 0, cf_helpDrivers = False, cf_helpAliases = False, cf_logVerbose = False,
     cf_logTimestamps = False, cf_logTagSpec = []\<rparr>"

fun apply_options :: "opt list \<Rightarrow> config \<Rightarrow> config option" where
  "apply_options [] out = Some out"
| "apply_options (Bad_opt # os) out = None"
| "apply_options (Opt c optarg # os) out =
     (if c = CHR ''h'' then apply_options os (out\<lparr>cf_help := True\<rparr>)
      else if c = CHR ''p'' then apply_options os (out\<lparr>cf_profile := Some optarg\<rparr>)
      else if c = CHR ''a'' then apply_options os (out\<lparr>cf_serverAddr := optarg\<rparr>)
      else if c = CHR ''t'' then apply_options os (out\<lparr>cf_tckPeriodNanos := parse_int optarg\<rparr>)
      else if c = CHR ''D'' then apply_options os (out\<lparr>cf_helpDrivers := True\<rparr>)
      else if c = CHR ''A'' then apply_options os (out\<lparr>cf_helpAliases := True\<rparr>)
      else None)"

definition env_flag :: "(string \<Rightarrow> string option) \<Rightarrow> string \<Rightarrow> bool" where
  "env_flag getenv name = (case getenv name of None \<Rightarrow> False | Some v \<Rightarrow> parse_int v \<noteq> 0)"

definition read_env :: "(string \<Rightarrow> string option) \<Rightarrow> config \<Rightarrow> config" where
  "read_env getenv out = out\<lparr>cf_logVerbose := env_flag getenv ''TXVC_LOG_VERBOSE'',
     cf_logTimestamps := env_flag getenv ''TXVC_LOG_TIMESTAMPS'',
     cf_logTagSpec := (case getenv ''TXVC_LOG_SPEC'' of None \<Rightarrow> DEFAULT_LOG_TAG_SPEC | Some v \<Rightarrow> v)\<rparr>"

text \<open>\<open>load_config\<close>; none is its result \<open>false\<close>. \<open>args\<close> is \<open>argv\<close> after the program name.\<close>

definition txvc_load_config :: "(string \<Rightarrow> string option) \<Rightarrow> string list \<Rightarrow> config option" where
  "txvc_load_config getenv args =
     (case getopt_args cli_optstr [] args of (os, operands) \<Rightarrow>
        case apply_options os default_config of
          None \<Rightarrow> None
        | Some out \<Rightarrow> if operands \<noteq> [] then None else Some (read_env getenv out))"

end
