(* ===== verification/Profile.thy ===== *)
theory Profile
  imports Txvc_Prelude
begin

text \<open>
  \<open>libtxvc/profile.c\<close> and \<open>profile.h\<close>: the backend profile parser. It copies the profile string
  to the profile's own scratchpad and cuts it into C strings in place, so the model keeps the
  scratchpad as a character buffer and the pointers as offsets into it. A missing value points to
  the literal \<open>""\<close> instead. The string argument is the characters before its NUL.
\<close>

datatype cptr = Pad nat | Empty_lit

record backend_profile =
  driverName :: nat
  numArg :: nat
  argKeys :: "cptr list"
  argValues :: "cptr list"
  privateScratchpad :: string

text \<open>An object of the type: the arrays have their declared sizes, the contents are arbitrary.\<close>

definition profile_object :: "backend_profile \<Rightarrow> bool" where
  "profile_object p \<longleftrightarrow> length (argKeys p) = 32 \<and> length (argValues p) = 32
     \<and> length (privateScratchpad p) = 1024"

text \<open>\<open>strchr\<close> on the buffer's tail from an offset; no terminator is an access out of bounds.\<close>

fun c_strchr :: "char \<Rightarrow> string \<Rightarrow> nat option c_res" where
  "c_strchr c [] = Fault OutOfBounds"
| "c_strchr c (x # xs) =
     (if x = c then Ok (Some 0)
      else if x = NUL then Ok None
      else c_bind (c_strchr c xs) (\<lambda>r. Ok (map_option Suc r)))"

definition strchr_at :: "string \<Rightarrow> nat \<Rightarrow> char \<Rightarrow> nat option c_res" where
  "strchr_at buf off c = c_bind (c_strchr c (drop off buf)) (\<lambda>r. Ok (map_option (\<lambda>i. off + i) r))"

text \<open>The body of the \<open>while\<close> loop after its guards: the profile and the new \<open>cur\<close>.\<close>

definition parse_one_arg :: "backend_profile \<Rightarrow> nat \<Rightarrow> (backend_profile \<times> nat option) c_res" where
  "parse_one_arg out cur =
     (let tmp = cur in
      c_bind (strchr_at (privateScratchpad out) cur CHR '','') (\<lambda>comma.
      let (out1, cur1) =
            (case comma of
               None \<Rightarrow> (out, None)
             | Some q \<Rightarrow>
                 (out\<lparr>privateScratchpad := (privateScratchpad out)[q := NUL]\<rparr>, Some (q + 1)));
          out2 = out1\<lparr>argKeys := (argKeys out1)[numArg out1 := Pad tmp]\<rparr>
      in c_bind (strchr_at (privateScratchpad out2) tmp CHR ''='') (\<lambda>eq.
      let out3 =
            (case eq of
               Some q \<Rightarrow>
                 out2\<lparr>privateScratchpad := (privateScratchpad out2)[q := NUL],
                      argValues := (argValues out2)[numArg out2 := Pad (q + 1)]\<rparr>
             | None \<Rightarrow> out2\<lparr>argValues := (argValues out2)[numArg out2 := Empty_lit]\<rparr>)
      in Ok (out3\<lparr>numArg := numArg out3 + 1\<rparr>, cur1))))"

lemma parse_one_arg_counts:
  "parse_one_arg out cur = Ok (out', cur') \<Longrightarrow> numArg out' = Suc (numArg out)"
  by (auto simp: parse_one_arg_def Let_def split: option.splits prod.splits)

function parse_args :: "backend_profile \<Rightarrow> nat option \<Rightarrow> (bool \<times> backend_profile) c_res" where
  "parse_args out cur =
     (case cur of
        None \<Rightarrow> Ok (True, out)
      | Some p \<Rightarrow>
          c_bind (rd_at (privateScratchpad out) (int p)) (\<lambda>ch.
            if ch = NUL then Ok (True, out)
            else if numArg out \<ge> 32 then Ok (False, out)
            else c_bind (parse_one_arg out p) (\<lambda>(out', cur'). parse_args out' cur')))"
  by pat_completeness auto
termination
  by (relation "measure (\<lambda>(out, cur). 32 - numArg out)") (auto dest: parse_one_arg_counts)

declare parse_args.simps [simp del]

definition txvc_backend_profile_parse ::
  "string \<Rightarrow> backend_profile \<Rightarrow> (bool \<times> backend_profile) c_res" where
  "txvc_backend_profile_parse profileStr out =
     (let len = length profileStr in
      if len > 1024 - 1 then Ok (False, out)
      else
        let pad = (profileStr @ drop len (privateScratchpad out))[len := NUL];
            out1 = out\<lparr>privateScratchpad := pad, driverName := 0, numArg := 0\<rparr>
        in c_bind (strchr_at pad 0 CHR '':'') (\<lambda>colon.
             case colon of
               None \<Rightarrow> Ok (True, out1)
             | Some q \<Rightarrow>
                 parse_args (out1\<lparr>privateScratchpad := pad[q := NUL]\<rparr>) (Some (q + 1))))"

subsection \<open>Reading a profile\<close>

definition deref :: "string \<Rightarrow> cptr \<Rightarrow> string" where
  "deref buf p = (case p of Pad q \<Rightarrow> takeWhile (\<lambda>c. c \<noteq> NUL) (drop q buf) | Empty_lit \<Rightarrow> [])"

definition args_view :: "backend_profile \<Rightarrow> (string \<times> string) list" where
  "args_view p = map (\<lambda>(k, v). (deref (privateScratchpad p) k, deref (privateScratchpad p) v))
     (take (numArg p) (zip (argKeys p) (argValues p)))"

definition driver_view :: "backend_profile \<Rightarrow> string" where
  "driver_view p = deref (privateScratchpad p) (Pad (driverName p))"

subsection \<open>Specification: splitting at the separators\<close>

definition until :: "char \<Rightarrow> string \<Rightarrow> string" where
  "until c s = takeWhile (\<lambda>x. x \<noteq> c) s"

definition after :: "char \<Rightarrow> string \<Rightarrow> string" where
  "after c s = drop 1 (dropWhile (\<lambda>x. x \<noteq> c) s)"

function segments :: "string \<Rightarrow> string list" where
  "segments s = (if s = [] then [] else until CHR '','' s # segments (after CHR '','' s))"
  by pat_completeness auto
termination
proof (relation "measure length")
  fix s :: string
  assume "s \<noteq> []"
  then have "0 < length s" by simp
  with length_dropWhile_le [of "\<lambda>x. x \<noteq> CHR '',''" s]
  have "length (dropWhile (\<lambda>x. x \<noteq> CHR '','') s) - 1 < length s" by linarith
  then show "(after CHR '','' s, s) \<in> measure length" by (simp add: after_def)
qed simp

declare segments.simps [simp del]

definition split_arg :: "string \<Rightarrow> string \<times> string" where
  "split_arg s = (until CHR ''='' s, after CHR ''='' s)"

definition parse_spec :: "string \<Rightarrow> (string \<times> (string \<times> string) list) option" where
  "parse_spec s =
     (let args = map split_arg (segments (after CHR '':'' s)) in
      if length s \<le> 1023 \<and> length args \<le> 32 then Some (until CHR '':'' s, args) else None)"

lemma until_after: "s = until c s \<or> s = until c s @ c # after c s"
  by (induction s) (auto simp: until_def after_def)

lemma until_notin [simp]: "c \<notin> set (until c s)"
  by (auto simp: until_def dest: set_takeWhileD)

lemma until_append [simp]: "c \<notin> set a \<Longrightarrow> until c (a @ c # b) = a"
  by (simp add: until_def takeWhile_append)

lemma after_append [simp]: "c \<notin> set a \<Longrightarrow> after c (a @ c # b) = b"
  by (simp add: after_def dropWhile_append)

lemma until_all [simp]: "c \<notin> set a \<Longrightarrow> until c a = a"
  by (auto simp: until_def takeWhile_eq_all_conv)

lemma after_all [simp]: "c \<notin> set a \<Longrightarrow> after c a = []"
  by (induction a) (auto simp: after_def)

lemma set_until: "set (until c s) \<subseteq> set s"
  by (auto simp: until_def dest: set_takeWhileD)

lemma set_after: "set (after c s) \<subseteq> set s"
  unfolding after_def by (meson order_trans set_drop_subset set_dropWhileD subsetI)

lemma segments_simps [simp]:
  "segments [] = []"
  "CHR '','' \<notin> set a \<Longrightarrow> a \<noteq> [] \<Longrightarrow> segments a = [a]"
  "CHR '','' \<notin> set a \<Longrightarrow> segments (a @ CHR '','' # b) = a # segments b"
  by (subst segments.simps, simp)+

subsection \<open>The buffer\<close>

lemma c_strchr_found: "c \<notin> set a \<Longrightarrow> NUL \<notin> set a \<Longrightarrow> c_strchr c (a @ c # b) = Ok (Some (length a))"
  by (induction a) auto

lemma c_strchr_missing:
  "c \<notin> set a \<Longrightarrow> NUL \<notin> set a \<Longrightarrow> c \<noteq> NUL \<Longrightarrow> c_strchr c (a @ NUL # b) = Ok None"
  by (induction a) auto

lemma strchr_at_found:
  "c \<notin> set a \<Longrightarrow> NUL \<notin> set a \<Longrightarrow>
     strchr_at (pre @ a @ c # b) (length pre) c = Ok (Some (length pre + length a))"
  by (simp add: strchr_at_def c_strchr_found)

lemma strchr_at_missing:
  "c \<notin> set a \<Longrightarrow> NUL \<notin> set a \<Longrightarrow> c \<noteq> NUL \<Longrightarrow>
     strchr_at (pre @ a @ NUL # b) (length pre) c = Ok None"
  by (simp add: strchr_at_def c_strchr_missing)

lemma deref_string:
  "NUL \<notin> set a \<Longrightarrow> q = length pre \<Longrightarrow> deref (pre @ a @ NUL # b) (Pad q) = a"
  by (simp add: deref_def takeWhile_append)

text \<open>A pointer into a part of the buffer that ends with a NUL does not see what follows it.\<close>

definition ptr_before :: "nat \<Rightarrow> cptr \<Rightarrow> bool" where
  "ptr_before n p = (case p of Pad q \<Rightarrow> q < n | Empty_lit \<Rightarrow> True)"

lemma deref_stable:
  assumes "ptr_before (length pre) p" "pre = pre' @ [NUL]"
  shows "deref (pre @ X) p = deref (pre @ Y) p"
proof (cases p)
  case (Pad q)
  then have "drop q (pre @ Z) = drop q pre' @ NUL # Z" for Z
    using assms by (simp add: ptr_before_def)
  then show ?thesis by (auto simp: Pad deref_def takeWhile_append simp del: drop_append)
qed (simp add: deref_def)

subsection \<open>One argument\<close>

lemma list_update_mid: "(pre @ a @ c # b)[length pre + length a := d] = pre @ a @ d # b"
  by (metis append_assoc length_append list_update_length)

lemma parse_one_arg_eval:
  assumes "strchr_at (privateScratchpad out) cur CHR '','' = Ok comma"
    and "(case comma of None \<Rightarrow> privateScratchpad out
          | Some q \<Rightarrow> (privateScratchpad out)[q := NUL]) = pad1"
    and "strchr_at pad1 cur CHR ''='' = Ok eq"
  shows "parse_one_arg out cur =
    Ok (out\<lparr>privateScratchpad := (case eq of None \<Rightarrow> pad1 | Some q \<Rightarrow> pad1[q := NUL]),
            argKeys := (argKeys out)[numArg out := Pad cur],
            argValues := (argValues out)[numArg out :=
              (case eq of None \<Rightarrow> Empty_lit | Some q \<Rightarrow> Pad (q + 1))],
            numArg := numArg out + 1\<rparr>, map_option Suc comma)"
  using assms by (cases comma; cases eq) (auto simp: parse_one_arg_def Let_def)

lemma parse_one_arg_cut:
  assumes pad: "privateScratchpad out = pre @ seg @ d # X"
    and d: "d = CHR '','' \<or> d = NUL" and seg: "CHR '','' \<notin> set seg" "NUL \<notin> set seg"
    and n: "numArg out < 32" and obj: "profile_object out"
  shows "\<exists>out' Y v. parse_one_arg out (length pre)
        = Ok (out', if d = NUL then None else Some (length pre + length seg + 1))
      \<and> privateScratchpad out' = (pre @ Y @ [NUL]) @ X \<and> length Y = length seg
      \<and> numArg out' = Suc (numArg out) \<and> driverName out' = driverName out
      \<and> argKeys out' = (argKeys out)[numArg out := Pad (length pre)]
      \<and> argValues out' = (argValues out)[numArg out := v]
      \<and> ptr_before (length pre + length seg + 1) v
      \<and> (deref (privateScratchpad out') (Pad (length pre)), deref (privateScratchpad out') v)
        = split_arg seg"
proof -
  let ?pad = "pre @ seg @ NUL # X"
  define comma where "comma = (if d = NUL then None else Some (length pre + length seg))"
  have comma: "strchr_at (privateScratchpad out) (length pre) CHR '','' = Ok comma"
    using pad d seg by (auto simp: comma_def strchr_at_found strchr_at_missing)
  have pad1: "(case comma of None \<Rightarrow> privateScratchpad out
      | Some q \<Rightarrow> (privateScratchpad out)[q := NUL]) = ?pad"
    using pad by (simp add: comma_def list_update_mid)
  have next_cur: "map_option Suc comma = (if d = NUL then None else Some (length pre + length seg + 1))"
    by (simp add: comma_def)
  show ?thesis
  proof (cases "CHR ''='' \<in> set seg")
    case False
    then have "split_arg seg = (seg, [])" by (simp add: split_arg_def)
    moreover have "strchr_at ?pad (length pre) CHR ''='' = Ok None"
      using False seg by (simp add: strchr_at_missing)
    moreover have "deref ?pad (Pad (length pre)) = seg" "deref ?pad Empty_lit = []"
      using deref_string [of seg "length pre" pre X] seg(2) by (simp_all add: deref_def)
    ultimately show ?thesis
      using parse_one_arg_eval [OF comma pad1]
      by (intro exI [of _ "out\<lparr>privateScratchpad := ?pad,
            argKeys := (argKeys out)[numArg out := Pad (length pre)],
            argValues := (argValues out)[numArg out := Empty_lit],
            numArg := numArg out + 1\<rparr>"] exI [of _ seg] exI [of _ Empty_lit])
         (simp add: next_cur ptr_before_def)
  next
    case True
    then obtain k w where kw: "seg = k @ CHR ''='' # w" "CHR ''='' \<notin> set k"
      by (metis split_list_first)
    then have "split_arg seg = (k, w)" by (simp add: split_arg_def)
    moreover have "strchr_at ?pad (length pre) CHR ''='' = Ok (Some (length pre + length k))"
      using kw seg by (simp add: strchr_at_found)
    moreover have "?pad[length pre + length k := NUL]
        = (pre @ (k @ NUL # w) @ [NUL]) @ X"
      using list_update_mid [of pre k "CHR ''=''" "w @ NUL # X" NUL] by (simp add: kw)
    moreover have "deref ((pre @ (k @ NUL # w) @ [NUL]) @ X) (Pad (length pre)) = k"
      using deref_string [of k "length pre" pre "w @ NUL # X"] seg(2) kw by simp
    moreover have "deref ((pre @ (k @ NUL # w) @ [NUL]) @ X) (Pad (length pre + length k + 1)) = w"
      using deref_string [of w "length pre + length k + 1" "pre @ k @ [NUL]" X] seg(2) kw by simp
    ultimately show ?thesis
      using parse_one_arg_eval [OF comma pad1, of "Some (length pre + length k)"] kw
      by (intro exI [of _ "out\<lparr>privateScratchpad := (pre @ (k @ NUL # w) @ [NUL]) @ X,
            argKeys := (argKeys out)[numArg out := Pad (length pre)],
            argValues := (argValues out)[numArg out := Pad (length pre + length k + 1)],
            numArg := numArg out + 1\<rparr>"] exI [of _ "k @ NUL # w"]
            exI [of _ "Pad (length pre + length k + 1)"])
         (simp add: next_cur ptr_before_def)
  qed
qed

subsection \<open>The loop\<close>

text \<open>The arguments stored so far only point before \<open>pre\<close>'s end, where a NUL stands.\<close>

definition args_done :: "backend_profile \<Rightarrow> string \<Rightarrow> bool" where
  "args_done out pre \<longleftrightarrow> profile_object out \<and> numArg out \<le> 32
     \<and> (\<exists>pre'. pre = pre' @ [NUL])
     \<and> (\<forall>i < numArg out. ptr_before (length pre) (argKeys out ! i)
                       \<and> ptr_before (length pre) (argValues out ! i))"

lemma parse_args_step:
  assumes pad: "privateScratchpad out = pre @ seg @ d # X"
    and d: "d = CHR '','' \<or> d = NUL" and seg: "CHR '','' \<notin> set seg" "NUL \<notin> set seg"
    and n: "numArg out < 32" and inv: "args_done out pre"
  shows "\<exists>out' pre1. parse_one_arg out (length pre)
        = Ok (out', if d = NUL then None else Some (length pre1))
      \<and> privateScratchpad out' = pre1 @ X \<and> length pre1 = length pre + length seg + 1
      \<and> args_done out' pre1 \<and> numArg out' = Suc (numArg out) \<and> driverName out' = driverName out
      \<and> (\<exists>Y. pre1 = pre @ Y)
      \<and> args_view out' = args_view out @ [split_arg seg]"
proof -
  from inv have obj: "profile_object out" by (simp add: args_done_def)
  from parse_one_arg_cut [OF pad d seg n obj] obtain out' Y v where
    res: "parse_one_arg out (length pre)
        = Ok (out', if d = NUL then None else Some (length pre + length seg + 1))"
    and pad': "privateScratchpad out' = (pre @ Y @ [NUL]) @ X" and Y: "length Y = length seg"
    and num: "numArg out' = Suc (numArg out)" "driverName out' = driverName out"
    and keys: "argKeys out' = (argKeys out)[numArg out := Pad (length pre)]"
    and vals: "argValues out' = (argValues out)[numArg out := v]"
    and v: "ptr_before (length pre + length seg + 1) v"
    and arg: "(deref (privateScratchpad out') (Pad (length pre)), deref (privateScratchpad out') v)
        = split_arg seg"
    by blast
  let ?pre1 = "pre @ Y @ [NUL]"
  have len: "length (argKeys out) = 32" "length (argValues out) = 32"
    using obj by (simp_all add: profile_object_def)
  have lens: "profile_object out'"
    using obj keys vals pad pad' Y by (simp add: profile_object_def)
  have ptrs: "\<forall>i < numArg out. ptr_before (length pre) (argKeys out ! i)
                       \<and> ptr_before (length pre) (argValues out ! i)"
    and nul: "\<exists>pre'. pre = pre' @ [NUL]" using inv by (auto simp: args_done_def)
  have mono: "ptr_before m p" if "ptr_before k p" "k \<le> m" for k m p
    using that by (auto simp: ptr_before_def split: cptr.splits)
  have "args_done out' ?pre1"
    unfolding args_done_def num keys vals
    using lens n len v Y ptrs mono [of "length pre" _ "length ?pre1"]
    by (auto simp: nth_list_update less_Suc_eq ptr_before_def split: if_splits)
  moreover have same: "deref (privateScratchpad out') p = deref (privateScratchpad out) p"
    if "ptr_before (length pre) p" for p
    using deref_stable [OF that] nul unfolding pad pad' by (metis append_assoc)
  have "args_view out' = args_view out @ [split_arg seg]"
  proof (rule nth_equalityI)
    show "length (args_view out') = length (args_view out @ [split_arg seg])"
      using n len num keys vals by (simp add: args_view_def)
    fix i
    assume "i < length (args_view out')"
    then have "i < Suc (numArg out)" using n len num keys vals by (simp add: args_view_def)
    then show "args_view out' ! i = (args_view out @ [split_arg seg]) ! i"
      using n len num keys vals arg same ptrs
      by (auto simp: args_view_def nth_append less_Suc_eq)
  qed
  ultimately show ?thesis
    using res pad' Y num by (intro exI [of _ out'] exI [of _ ?pre1]) auto
qed

lemma parse_args_correct:
  assumes "privateScratchpad out = pre @ rest @ NUL # X" "NUL \<notin> set rest" "args_done out pre"
  shows "\<exists>ok out'. parse_args out (Some (length pre)) = Ok (ok, out')
    \<and> (ok \<longleftrightarrow> numArg out + length (segments rest) \<le> 32)
    \<and> (ok \<longrightarrow> args_view out' = args_view out @ map split_arg (segments rest)
         \<and> driverName out' = driverName out \<and> (\<exists>Z. privateScratchpad out' = pre @ Z))"
  using assms
proof (induction rest arbitrary: out pre rule: segments.induct)
  case (1 rest)
  have le: "numArg out \<le> 32" using "1.prems"(3) by (simp add: args_done_def)
  have rd: "rd_at (privateScratchpad out) (int (length pre)) = Ok (hd (rest @ [NUL]))"
    using "1.prems"(1) by (subst rd_at_nat) (cases rest; simp add: nth_append)+
  show ?case
  proof (cases "rest = [] \<or> 32 \<le> numArg out")
    case True
    then show ?thesis
    proof (cases "rest = []")
      case False
      then have "hd (rest @ [NUL]) \<noteq> NUL" using "1.prems"(2) by (cases rest) auto
      moreover have "segments rest \<noteq> []" using False by (subst segments.simps) simp
      ultimately show ?thesis using False True rd le
        by (subst parse_args.simps) (simp add: Suc_le_eq)
    qed (use rd le "1.prems"(1) in \<open>subst parse_args.simps, simp\<close>)
  next
    case False
    then have n: "numArg out < 32" and rest: "rest \<noteq> []" by auto
    have hd: "hd (rest @ [NUL]) \<noteq> NUL" using "1.prems"(2) rest by (cases rest) auto
    have unfold: "parse_args out (Some (length pre)) =
      c_bind (parse_one_arg out (length pre)) (\<lambda>(out', cur'). parse_args out' cur')"
      using rd hd n by (subst parse_args.simps) simp
    let ?seg = "until CHR '','' rest" and ?rest = "after CHR '','' rest"
    have seg: "CHR '','' \<notin> set ?seg" "NUL \<notin> set ?seg" "NUL \<notin> set ?rest"
      using "1.prems"(2) set_until [of "CHR '',''" rest] set_after [of "CHR '',''" rest] by auto
    have segs: "segments rest = ?seg # segments ?rest" using rest by (subst segments.simps) simp
    show ?thesis
    proof (cases "rest = ?seg")
      case True
      have "privateScratchpad out = pre @ ?seg @ NUL # X"
        using "1.prems"(1) by (simp only: True [symmetric])
      from parse_args_step [OF this disjI2 [OF refl] seg(1,2) n "1.prems"(3)]
      obtain out' pre1 where
        "parse_one_arg out (length pre) = Ok (out', None)" "privateScratchpad out' = pre1 @ X"
        "driverName out' = driverName out" "\<exists>Y. pre1 = pre @ Y"
        "args_view out' = args_view out @ [split_arg rest]"
        unfolding True [symmetric] by auto
      moreover have "CHR '','' \<notin> set rest"
        using until_notin [of "CHR '',''" rest] by (simp only: True [symmetric]) simp
      then have "segments rest = [rest]" using rest by simp
      moreover have "parse_args out' None = Ok (True, out')"
        by (subst parse_args.simps) simp
      ultimately show ?thesis
        using unfold n by (intro exI [of _ True] exI [of _ out']) auto
    next
      case False
      then have "rest = ?seg @ CHR '','' # ?rest" using until_after by blast
      then have "pre @ rest @ NUL # X = pre @ ?seg @ CHR '','' # (?rest @ NUL # X)"
        by (metis append_Cons append_assoc)
      with "1.prems"(1)
      have "privateScratchpad out = pre @ ?seg @ CHR '','' # (?rest @ NUL # X)" by (rule trans)
      from parse_args_step [OF this disjI1 [OF refl] seg(1,2) n "1.prems"(3)]
      obtain out' pre1 where
        one: "parse_one_arg out (length pre) = Ok (out', Some (length pre1))"
        "privateScratchpad out' = pre1 @ ?rest @ NUL # X" "args_done out' pre1"
        "numArg out' = Suc (numArg out)" "driverName out' = driverName out" "\<exists>Y. pre1 = pre @ Y"
        "args_view out' = args_view out @ [split_arg ?seg]" by auto
      from "1.IH" [OF rest one(2) seg(3) one(3)] one unfold segs show ?thesis by fastforce
    qed
  qed
qed

subsection \<open>Properties\<close>

lemma profile_parse_correct:
  assumes obj: "profile_object out" and s: "NUL \<notin> set s"
  shows "\<exists>ok out'. txvc_backend_profile_parse s out = Ok (ok, out') \<and>
    (if ok then Some (driver_view out', args_view out') else None) = parse_spec s"
proof (cases "length s \<le> 1023")
  case False
  then show ?thesis by (simp add: txvc_backend_profile_parse_def parse_spec_def Let_def)
next
  case True
  define tail where "tail = drop (Suc (length s)) (privateScratchpad out)"
  have "drop (length s) (privateScratchpad out)
      = (privateScratchpad out ! length s) # tail"
    using True obj by (simp add: tail_def profile_object_def Cons_nth_drop_Suc)
  then have pad: "(s @ drop (length s) (privateScratchpad out))[length s := NUL] = s @ NUL # tail"
    using True by (simp add: list_update_append)
  have len: "length (s @ NUL # tail) = 1024"
    using True obj by (simp add: tail_def profile_object_def)
  define out1 where
    "out1 = out\<lparr>privateScratchpad := s @ NUL # tail, driverName := 0, numArg := 0\<rparr>"
  have parse: "txvc_backend_profile_parse s out =
    c_bind (strchr_at (s @ NUL # tail) 0 CHR '':'') (\<lambda>colon. case colon of
        None \<Rightarrow> Ok (True, out1)
      | Some q \<Rightarrow> parse_args (out1\<lparr>privateScratchpad := (s @ NUL # tail)[q := NUL]\<rparr>) (Some (q + 1)))"
    using True pad
    by (simp add: txvc_backend_profile_parse_def Let_def out1_def cong: option.case_cong)
  let ?d = "until CHR '':'' s" and ?rest = "after CHR '':'' s"
  have d: "CHR '':'' \<notin> set ?d" "NUL \<notin> set ?d" "NUL \<notin> set ?rest"
    using s set_until [of "CHR '':''" s] set_after [of "CHR '':''" s] by auto
  show ?thesis
  proof (cases "CHR '':'' \<in> set s")
    case False
    then have "strchr_at (s @ NUL # tail) 0 CHR '':'' = Ok None"
      using strchr_at_missing [of "CHR '':''" s "[]" tail] s by simp
    moreover have "deref (s @ NUL # tail) (Pad 0) = s"
      using deref_string [of s 0 "[]" tail] s by simp
    ultimately show ?thesis
      using False True parse
      by (simp add: parse_spec_def out1_def driver_view_def args_view_def)
  next
    case has_colon: True
    have split: "s = ?d @ CHR '':'' # ?rest"
      using until_after [of s "CHR '':''"] d(1) has_colon by metis
    let ?pre = "?d @ [NUL]"
    have buf: "s @ NUL # tail = [] @ ?d @ CHR '':'' # (?rest @ NUL # tail)"
      using arg_cong [OF split, of "\<lambda>x. x @ NUL # tail"] by simp
    have colon: "strchr_at (s @ NUL # tail) 0 CHR '':'' = Ok (Some (length ?d))"
      using strchr_at_found [of "CHR '':''" ?d "[]" "?rest @ NUL # tail"] d unfolding buf by simp
    have pad1: "(s @ NUL # tail)[length ?d := NUL] = ?pre @ ?rest @ NUL # tail"
      using list_update_mid [of "[]" ?d "CHR '':''" "?rest @ NUL # tail" NUL] unfolding buf by simp
    define out2 where "out2 = out1\<lparr>privateScratchpad := ?pre @ ?rest @ NUL # tail\<rparr>"
    have "length (?pre @ ?rest @ NUL # tail) = length (s @ NUL # tail)"
      unfolding pad1 [symmetric] by simp
    then have inv: "args_done out2 ?pre"
      using obj len by (simp add: args_done_def out2_def out1_def profile_object_def)
    have "privateScratchpad out2 = ?pre @ ?rest @ NUL # tail" by (simp add: out2_def)
    from parse_args_correct [OF this d(3) inv] obtain ok out' where
      res: "parse_args out2 (Some (length ?pre)) = Ok (ok, out')"
      "ok \<longleftrightarrow> numArg out2 + length (segments ?rest) \<le> 32"
      "ok \<longrightarrow> args_view out' = args_view out2 @ map split_arg (segments ?rest)
         \<and> driverName out' = driverName out2 \<and> (\<exists>Z. privateScratchpad out' = ?pre @ Z)"
      by blast
    have "txvc_backend_profile_parse s out = Ok (ok, out')"
      using parse colon res(1) pad1 by (simp add: out2_def)
    moreover have "ok \<Longrightarrow> driver_view out' = ?d"
      using res(3) d(2) deref_string [of ?d 0 "[]"]
      by (auto simp: driver_view_def out2_def out1_def)
    moreover have "args_view out2 = []" "numArg out2 = 0"
      by (simp_all add: args_view_def out2_def out1_def)
    ultimately show ?thesis
      using res True by (auto simp: parse_spec_def)
  qed
qed

text \<open>C13. The in-place parser never touches anything outside the profile object, and what it
  leaves in the profile is the specification's result: the driver name is the text before the
  first colon, the arguments are the comma-separated segments after it in order (a last empty one
  dropped), each cut at its first equals sign with an empty value if there is none; a profile of
  more than 1023 characters or more than 32 arguments is refused.\<close>
theorem profile_parse_spec:
  assumes "profile_object out" "NUL \<notin> set s"
  shows "\<exists>ok out'. txvc_backend_profile_parse s out = Ok (ok, out') \<and>
    (if ok then Some (driver_view out', args_view out') else None) = parse_spec s"
  using assms by (rule profile_parse_correct)

theorem profile_parse_spec_witness:
  "\<exists>out'. txvc_backend_profile_parse ''drvr:arg0=val0,arg1,a=b=c,''
      \<lparr>driverName = 0, numArg = 0, argKeys = replicate 32 Empty_lit,
       argValues = replicate 32 Empty_lit, privateScratchpad = replicate 1024 NUL\<rparr>
    = Ok (True, out') \<and> driver_view out' = ''drvr''
    \<and> args_view out' = [(''arg0'', ''val0''), (''arg1'', ''''), (''a'', ''b=c'')]"
proof -
  let ?out = "\<lparr>driverName = 0, numArg = 0, argKeys = replicate 32 Empty_lit,
       argValues = replicate 32 Empty_lit, privateScratchpad = replicate 1024 NUL\<rparr>"
  have "parse_spec ''drvr:arg0=val0,arg1,a=b=c,'' =
      Some (''drvr'', [(''arg0'', ''val0''), (''arg1'', ''''), (''a'', ''b=c'')])"
    by code_simp
  moreover have "profile_object ?out" by (simp add: profile_object_def)
  then obtain ok out' where r: "txvc_backend_profile_parse ''drvr:arg0=val0,arg1,a=b=c,'' ?out = Ok (ok, out')"
    "(if ok then Some (driver_view out', args_view out') else None)
      = parse_spec ''drvr:arg0=val0,arg1,a=b=c,''"
    using profile_parse_spec [of ?out "''drvr:arg0=val0,arg1,a=b=c,''"] by auto
  ultimately show ?thesis by (cases ok) auto
qed

text \<open>The documented notation of a profile.\<close>

definition render_profile :: "string \<Rightarrow> (string \<times> string) list \<Rightarrow> string" where
  "render_profile driver args =
     driver @ '':'' @ concat (map (\<lambda>(k, v). k @ ''='' @ v @ '','') args)"

lemma segments_render:
  "\<forall>(k, v) \<in> set args. CHR ''='' \<notin> set k \<and> CHR '','' \<notin> set k \<and> CHR '','' \<notin> set v \<Longrightarrow>
     map split_arg (segments (concat (map (\<lambda>(k, v). k @ ''='' @ v @ '','') args))) = args"
proof (induction args)
  case (Cons a args)
  obtain k v where a: "a = (k, v)" by (cases a)
  let ?rest = "concat (map (\<lambda>(k, v). k @ ''='' @ v @ '','') args)"
  have eq: "concat (map (\<lambda>(k, v). k @ ''='' @ v @ '','') (a # args))
      = (k @ CHR ''='' # v) @ CHR '','' # ?rest" by (simp add: a)
  have "CHR '','' \<notin> set (k @ CHR ''='' # v)" and "CHR ''='' \<notin> set k"
    using Cons.prems a by auto
  moreover have "map split_arg (segments ?rest) = args" using Cons by simp
  ultimately show ?case
    unfolding eq by (subst segments_simps(3)) (simp_all add: split_arg_def a)
qed simp

text \<open>C14. Round trip: a profile written in the documented notation
  \<open>driver:name=value,name=value,...\<close> from a driver name and up to 32 arguments is parsed back to
  exactly those, in order and with duplicate keys kept, if no colon occurs in the driver name, no
  equals sign or comma in a key and no comma in a value.\<close>
theorem profile_roundtrip:
  assumes "profile_object out" "NUL \<notin> set (render_profile driver args)"
    and "length (render_profile driver args) \<le> 1023" "length args \<le> 32"
    and "CHR '':'' \<notin> set driver"
    and "list_all (\<lambda>(k, v). CHR ''='' \<notin> set k \<and> CHR '','' \<notin> set k \<and> CHR '','' \<notin> set v) args"
  shows "\<exists>out'. txvc_backend_profile_parse (render_profile driver args) out = Ok (True, out')
    \<and> driver_view out' = driver \<and> args_view out' = args"
proof -
  let ?rest = "concat (map (\<lambda>(k, v). k @ ''='' @ v @ '','') args)"
  have r: "render_profile driver args = driver @ CHR '':'' # ?rest"
    by (simp add: render_profile_def)
  have args: "map split_arg (segments ?rest) = args"
    using assms(6) by (intro segments_render) (simp add: list_all_iff)
  have "after CHR '':'' (driver @ CHR '':'' # ?rest) = ?rest"
    "until CHR '':'' (driver @ CHR '':'' # ?rest) = driver"
    using assms(5) by simp_all
  then have "parse_spec (render_profile driver args) = Some (driver, args)"
    using assms(3,4) args unfolding r by (simp only: parse_spec_def Let_def) simp
  with profile_parse_correct [OF assms(1,2)] show ?thesis by (auto split: if_splits)
qed

theorem profile_roundtrip_witness:
  "\<exists>out'. txvc_backend_profile_parse ''echo:a=1,a=2,''
      \<lparr>driverName = 0, numArg = 0, argKeys = replicate 32 Empty_lit,
       argValues = replicate 32 Empty_lit, privateScratchpad = replicate 1024 NUL\<rparr>
    = Ok (True, out') \<and> driver_view out' = ''echo'' \<and> args_view out' = [(''a'', ''1''), (''a'', ''2'')]"
  using profile_roundtrip [of "\<lparr>driverName = 0, numArg = 0, argKeys = replicate 32 Empty_lit,
       argValues = replicate 32 Empty_lit, privateScratchpad = replicate 1024 NUL\<rparr>" "''echo''"
       "[(''a'', ''1''), (''a'', ''2'')]"]
  by (simp add: render_profile_def profile_object_def)

end
