(* ===== verification/Alias.thy ===== *)
theory Alias
  imports Profile Ftdi_Device
begin

text \<open>
  \<open>txvc/alias.c\<close> with the table of \<open>aliases_registry.inc\<close>: names for whole hardware profiles.
\<close>

record profile_alias =
  al_description :: string
  al_profile :: string

definition gAliases :: "(string \<times> profile_alias) list" where
  "gAliases =
     [(''ft232h'', \<lparr>al_description = ''FT232H-based USB to JTAG cable'',
        al_profile = ''ftdi-generic:'' @
          ''device=ft232h,vid=0403,pid=6014,channel=A,read_latency_millis=1,'' @
          ''d4=ignored,d5=ignored,d6=ignored,d7=ignored,''\<rparr>),
      (''mimas_a7'', \<lparr>al_description = ''Numato Lab Mimas Artix 7 FPGA Module'',
        al_profile = ''ftdi-generic:'' @
          ''device=ft2232h,vid=2a19,pid=1009,channel=B,read_latency_millis=1,'' @
          ''d4=ignored,d5=ignored,d6=driver_low,d7=driver_low,''\<rparr>),
      (''mimas_a7_mini'', \<lparr>al_description = ''Numato Lab Mimas A7 Mini FPGA Development Board'',
        al_profile = ''ftdi-generic:'' @
          ''device=ft2232h,vid=2a19,pid=100E,channel=B,read_latency_millis=1,'' @
          ''d4=ignored,d5=ignored,d6=driver_low,d7=driver_low,''\<rparr>),
      (''narvi'', \<lparr>al_description = ''Numato Lab Narvi Spartan 7 FPGA Module'',
        al_profile = ''ftdi-generic:'' @
          ''device=ft2232h,vid=2a19,pid=100D,channel=B,read_latency_millis=1,'' @
          ''d4=ignored,d5=ignored,d6=driver_low,d7=driver_low,''\<rparr>)]"

fun find_alias :: "(string \<times> profile_alias) list \<Rightarrow> string \<Rightarrow> profile_alias option" where
  "find_alias [] name = None"
| "find_alias ((n, a) # as) name = (if name = n then Some a else find_alias as name)"

definition txvc_find_alias_by_name :: "string \<Rightarrow> profile_alias option" where
  "txvc_find_alias_by_name name = find_alias gAliases name"

subsection \<open>Every alias names a configuration the FTDI driver accepts\<close>

definition alias_args :: "string \<Rightarrow> string \<Rightarrow> string \<Rightarrow> string \<Rightarrow> string \<Rightarrow> (string \<times> string) list" where
  "alias_args dev vd pd ch pin = [(''device'', dev), (''vid'', vd), (''pid'', pd), (''channel'', ch),
     (''read_latency_millis'', ''1''), (''d4'', ''ignored''), (''d5'', ''ignored''), (''d6'', pin),
     (''d7'', pin)]"

lemma load_alias_args:
  assumes "length (d_pins p0) = 8" "0 < str_to_usb_id vd" "0 < str_to_usb_id pd"
    and "str_to_ft_device dev \<noteq> FT_DEVICE_UNKNOWN" "str_to_ftdi_interface ch \<noteq> CHR ''?''"
    and "str_to_pin_role pin \<noteq> PIN_ROLE_INVALID"
  shows "\<exists>p. load_config (alias_args dev vd pd ch pin) p0 = (True, p)
    \<and> device p = str_to_ft_device dev \<and> channel p = str_to_ftdi_interface ch"
proof -
  have lat: "0 \<le> str_to_ftdi_latency ''1''" by code_simp
  have pin: "str_to_pin_role ''ignored'' \<noteq> PIN_ROLE_INVALID" by (simp add: str_to_pin_role_def)
  show ?thesis
    using assms lat pin
    by (simp add: load_config_def alias_args_def apply_arg_def apply_defaults_def params_valid_def Let_def)
qed

lemma alias_specs:
  "parse_spec (al_profile (snd (gAliases ! 0)))
     = Some (''ftdi-generic'', alias_args ''ft232h'' ''0403'' ''6014'' ''A'' ''ignored'')"
  "parse_spec (al_profile (snd (gAliases ! 1)))
     = Some (''ftdi-generic'', alias_args ''ft2232h'' ''2a19'' ''1009'' ''B'' ''driver_low'')"
  "parse_spec (al_profile (snd (gAliases ! 2)))
     = Some (''ftdi-generic'', alias_args ''ft2232h'' ''2a19'' ''100E'' ''B'' ''driver_low'')"
  "parse_spec (al_profile (snd (gAliases ! 3)))
     = Some (''ftdi-generic'', alias_args ''ft2232h'' ''2a19'' ''100D'' ''B'' ''driver_low'')"
  by code_simp+

definition alias_works :: "string \<times> profile_alias \<Rightarrow> bool" where
  "alias_works = (\<lambda>(name, a). txvc_find_alias_by_name name = Some a \<and> NUL \<notin> set (al_profile a)
     \<and> (\<exists>args. parse_spec (al_profile a) = Some (''ftdi-generic'', args)
        \<and> (\<forall>p0. length (d_pins p0) = 8 \<longrightarrow>
            (\<exists>p n c. load_config args p0 = (True, p) \<and> select_chip p = Some (n, Some c)))))"

lemma alias_worksI:
  assumes "txvc_find_alias_by_name name = Some a" "NUL \<notin> set (al_profile a)"
    and "parse_spec (al_profile a) = Some (''ftdi-generic'', alias_args dev vd pd ch pin)"
    and "0 < str_to_usb_id vd \<and> 0 < str_to_usb_id pd \<and> str_to_pin_role pin \<noteq> PIN_ROLE_INVALID"
    and "dev = ''ft232h'' \<and> ch = ''A'' \<or> dev = ''ft2232h'' \<and> ch = ''B''"
  shows "alias_works (name, a)"
proof -
  have dev: "str_to_ft_device dev \<noteq> FT_DEVICE_UNKNOWN" "str_to_ftdi_interface ch \<noteq> CHR ''?''"
    using assms(5)
    by (auto simp: str_to_ft_device_def str_to_ftdi_interface_def FT_DEVICE_UNKNOWN_def
        FT_DEVICE_2232H_def FT_DEVICE_232H_def)
  have "\<exists>p n c. load_config (alias_args dev vd pd ch pin) p0 = (True, p) \<and> select_chip p = Some (n, Some c)"
    if len: "length (d_pins p0) = 8" for p0
  proof -
    obtain p where "load_config (alias_args dev vd pd ch pin) p0 = (True, p)"
      "device p = str_to_ft_device dev" "channel p = str_to_ftdi_interface ch"
      using load_alias_args [OF len _ _ dev] assms(4) by blast
    moreover from this(2,3) assms(5) have "\<exists>n c. select_chip p = Some (n, Some c)"
      by (auto simp: select_chip_def str_to_ft_device_def str_to_ftdi_interface_def
          FT_DEVICE_2232H_def FT_DEVICE_232H_def)
    ultimately show ?thesis by blast
  qed
  then show ?thesis using assms(1-3) by (auto simp: alias_works_def)
qed

lemma alias_numbers:
  "list_all (\<lambda>s. 0 < str_to_usb_id s) [''0403'', ''6014'', ''2a19'', ''1009'', ''100E'', ''100D'']"
  by code_simp

lemma alias_found:
  "list_all (\<lambda>(n, a). txvc_find_alias_by_name n = Some a \<and> NUL \<notin> set (al_profile a)) gAliases"
  by code_simp

lemma aliases_work: "i < length gAliases \<Longrightarrow> alias_works (gAliases ! i)"
proof -
  assume i: "i < length gAliases"
  then have f: "txvc_find_alias_by_name (fst (gAliases ! i)) = Some (snd (gAliases ! i))"
    "NUL \<notin> set (al_profile (snd (gAliases ! i)))"
    using alias_found by (auto simp: list_all_length case_prod_unfold)
  have pins: "str_to_pin_role ''ignored'' \<noteq> PIN_ROLE_INVALID" "str_to_pin_role ''driver_low'' \<noteq> PIN_ROLE_INVALID"
    by (simp_all add: str_to_pin_role_def)
  consider "i = 0" | "i = 1" | "i = 2" | "i = 3" using i by (force simp: gAliases_def)
  then have "alias_works (fst (gAliases ! i), snd (gAliases ! i))"
  proof cases
    case 1
    show ?thesis
      by (rule alias_worksI [OF f alias_specs(1) [folded 1]]) (use alias_numbers pins in simp_all)
  next
    case 2
    show ?thesis
      by (rule alias_worksI [OF f alias_specs(2) [folded 2]]) (use alias_numbers pins in simp_all)
  next
    case 3
    show ?thesis
      by (rule alias_worksI [OF f alias_specs(3) [folded 3]]) (use alias_numbers pins in simp_all)
  next
    case 4
    show ?thesis
      by (rule alias_worksI [OF f alias_specs(4) [folded 4]]) (use alias_numbers pins in simp_all)
  qed
  then show ?thesis by simp
qed

text \<open>C36. Every predefined alias can be used: it is found under its name (no entry hides another),
  the profile parser accepts the profile it stands for, which names the FTDI driver, and the
  driver accepts all the arguments, for a chip and a channel it supports.\<close>
theorem alias_profiles_accepted:
  assumes "(name, a) \<in> set gAliases" "profile_object out" "length (d_pins p0) = 8"
  shows "txvc_find_alias_by_name name = Some a \<and>
    (\<exists>out' p n c. txvc_backend_profile_parse (al_profile a) out = Ok (True, out')
      \<and> driver_view out' = ''ftdi-generic'' \<and> load_config (args_view out') p0 = (True, p)
      \<and> select_chip p = Some (n, Some c))"
proof -
  have w: "alias_works (name, a)" using assms(1) aliases_work by (metis in_set_conv_nth)
  then obtain args where a: "parse_spec (al_profile a) = Some (''ftdi-generic'', args)"
    "NUL \<notin> set (al_profile a)" by (auto simp: alias_works_def)
  obtain ok out' where "txvc_backend_profile_parse (al_profile a) out = Ok (ok, out')"
    "(if ok then Some (driver_view out', args_view out') else None) = parse_spec (al_profile a)"
    using profile_parse_correct [OF assms(2) a(2)] by blast
  then show ?thesis
    using w a(1) assms(3) by (auto simp: alias_works_def split: if_splits)
qed

theorem alias_profiles_accepted_witness:
  "txvc_find_alias_by_name (fst (gAliases ! 3)) = Some (snd (gAliases ! 3))"
proof -
  have "gAliases ! 3 \<in> set gAliases" by (simp add: gAliases_def)
  then have "(fst (gAliases ! 3), snd (gAliases ! 3)) \<in> set gAliases" by simp
  then show ?thesis
    using alias_profiles_accepted [of "fst (gAliases ! 3)" "snd (gAliases ! 3)"
        "\<lparr>driverName = 0, numArg = 0, argKeys = replicate 32 Empty_lit,
          argValues = replicate 32 Empty_lit, privateScratchpad = replicate 1024 NUL\<rparr>"
        "\<lparr>device = 0, vid = 0, pid = 0, channel = CHR 0x00, read_latency_millis = 0,
          d_pins = replicate 8 PIN_ROLE_INVALID\<rparr>"]
    by (simp add: profile_object_def)
qed

end
