(* ===== verification/Txvc_Help.thy ===== *)
theory Txvc_Help
  imports Txvc_Config Drivers Alias Logger
begin

text \<open>
  What \<open>txvc/txvc.c\<close> and \<open>txvc/alias.c\<close> print on request: the usage, the drivers and the aliases,
  and that it is true. The name, the description and the version of the project, which the build
  system generates, and the program's name are arguments.
\<close>

subsection \<open>The texts\<close>

type_synonym project = "string \<times> string \<times> string"

definition options_synopsys :: string where
  "options_synopsys = concat (map (\<lambda>(c, descr, arg). case arg of
     None \<Rightarrow> ''[-'' @ [c] @ '']''
   | Some a \<Rightarrow> ''[-'' @ [c] @ '' <'' @ a @ ''>]'') CLI_OPTION_LIST_ITEMS)"

definition options_usage :: string where
  "options_usage = concat (map (\<lambda>(c, descr, arg). '' -'' @ [c] @ '' : '' @ descr @ newline)
     CLI_OPTION_LIST_ITEMS)"

definition usage_env_vars :: string where
  "usage_env_vars = concat (map (\<lambda>(name, descr, flag). name @ '' - '' @ descr
     @ (if flag then '' (non-zero to activate)'' else []) @ newline) ENV_LIST_ITEMS)"

definition usage :: "project \<Rightarrow> string \<Rightarrow> string" where
  "usage = (\<lambda>(project, description, version) progname.
     project @ '' - '' @ description @ '', v'' @ version @ newline @ newline
     @ ''Usage:'' @ newline
     @ CHR 0x09 # progname @ '' '' @ options_synopsys @ newline
     @ newline @ options_usage @ newline
     @ ''Environment variables:'' @ newline @ usage_env_vars @ newline)"

text \<open>The callback of the enumeration, with what it prints, and the enumeration with a callback that
  prints.\<close>

definition driver_usage :: "'s driver \<Rightarrow> bool \<times> string" where
  "driver_usage d = (True, quote (drv_name d) @ '':'' @ newline @ drv_help d @ newline)"

fun enumerate_printing :: "'s driver list \<Rightarrow> ('s driver \<Rightarrow> bool \<times> string) \<Rightarrow> string" where
  "enumerate_printing [] fn = []"
| "enumerate_printing (d # ds) fn =
     (case fn d of (continue, out) \<Rightarrow> out @ (if continue then enumerate_printing ds fn else []))"

definition txvc_print_all_aliases :: string where
  "txvc_print_all_aliases = concat (map (\<lambda>(name, a).
     pad_left 20 name @ '' - '' @ al_description a @ newline) gAliases)"

definition find_by_name :: "'s driver \<Rightarrow> string \<Rightarrow> bool" where
  "find_by_name d name \<longleftrightarrow> name \<noteq> drv_name d"

text \<open>The text, and whether there is one.\<close>

definition print_help ::
  "(u64 \<Rightarrow> u64 option) \<Rightarrow> 'w d2xx \<Rightarrow> project \<Rightarrow> string \<Rightarrow> config \<Rightarrow> string \<times> bool" where
  "print_help malloc dx project progname config =
     ((if cf_help config then usage project progname else [])
      @ (if cf_helpDrivers config
         then ''Drivers:'' @ newline @ enumerate_printing (gDrivers malloc dx) driver_usage @ newline
         else [])
      @ (if cf_helpAliases config
         then ''Aliases:'' @ newline @ txvc_print_all_aliases @ newline else []),
      cf_help config \<or> cf_helpDrivers config \<or> cf_helpAliases config)"

definition help_wanted :: "config \<Rightarrow> bool" where
  "help_wanted config \<longleftrightarrow> cf_help config \<or> cf_helpDrivers config \<or> cf_helpAliases config"

lemma print_help_wanted: "snd (print_help malloc dx project progname config) = help_wanted config"
  by (simp add: print_help_def help_wanted_def)

subsection \<open>Reading the texts\<close>

text \<open>An option's line starts with the option, a variable's and an alias's with the name, and a
  driver's is its name in quotes and a colon.\<close>

definition option_of_line :: "string \<Rightarrow> char option" where
  "option_of_line l = (if take 2 l = '' -'' \<and> take 3 (drop 3 l) = '' : '' then Some (l ! 2) else None)"

definition word_of_line :: "string \<Rightarrow> string" where
  "word_of_line l = takeWhile (\<lambda>c. c \<noteq> CHR '' '') (dropWhile (\<lambda>c. c = CHR '' '') l)"

definition driver_of_line :: "string \<Rightarrow> string option" where
  "driver_of_line l =
     (if l \<noteq> [] \<and> hd l = CHR 0x22 \<and> last l = CHR '':'' then Some (takeWhile (\<lambda>c. c \<noteq> CHR 0x22) (tl l))
      else None)"

definition shown_options :: "string \<Rightarrow> char list" where
  "shown_options text = List.map_filter option_of_line (text_lines text)"

definition shown_below :: "string \<Rightarrow> string \<Rightarrow> string list" where
  "shown_below heading text = map word_of_line (takeWhile (\<lambda>l. l \<noteq> [])
     (drop 1 (dropWhile (\<lambda>l. l \<noteq> heading) (text_lines text))))"

definition shown_drivers :: "string \<Rightarrow> string list" where
  "shown_drivers text = List.map_filter driver_of_line (text_lines text)"

subsection \<open>Lines of a text of several pieces\<close>

abbreviation one_line :: "string \<Rightarrow> bool" where
  "one_line s \<equiv> CHR 0x0A \<notin> set s"

lemma text_lines_single: "one_line l \<Longrightarrow> l \<noteq> [] \<Longrightarrow> text_lines l = [l]"
proof (induction l)
  case (Cons c l)
  then show ?case by (cases l) auto
qed simp

lemma text_lines_newline: "text_lines (newline @ rest) = [] # text_lines rest"
  by (simp add: newline_def)

lemma text_lines_piece:
  "s \<noteq> [] \<Longrightarrow> last s \<noteq> CHR 0x0A \<Longrightarrow> text_lines (s @ newline @ rest) = text_lines s @ text_lines rest"
proof (induction s)
  case (Cons c s)
  show ?case
  proof (cases "s = []")
    case True
    then show ?thesis using Cons.prems by (simp add: newline_def)
  next
    case False
    then have *: "text_lines (s @ newline @ rest) = text_lines s @ text_lines rest"
      using Cons by simp
    have "text_lines s \<noteq> []" using False by (cases s) (auto split: list.split)
    then show ?thesis using * by (auto split: list.split simp: Cons_eq_append_conv)
  qed
qed simp

definition piece_lines :: "string \<Rightarrow> string list" where
  "piece_lines s = (if s = [] then [[]] else text_lines s)"

lemma piece_lines_single: "one_line l \<Longrightarrow> piece_lines l = [l]"
  by (simp add: piece_lines_def text_lines_single)

lemma text_lines_pieces:
  "list_all (\<lambda>s. s = [] \<or> last s \<noteq> CHR 0x0A) ps \<Longrightarrow>
   text_lines (concat (map (\<lambda>s. s @ newline) ps)) = concat (map piece_lines ps)"
  by (induction ps) (auto simp: piece_lines_def text_lines_piece text_lines_newline)

subsection \<open>The texts are true\<close>

definition tinyxvc :: "string \<Rightarrow> project" where
  "tinyxvc version = (''TinyXVC'', ''Virtual cable server for Xilinx FPGAs'', version)"

definition usage_pieces :: "project \<Rightarrow> string \<Rightarrow> string list" where
  "usage_pieces = (\<lambda>(project, description, version) progname.
     [project @ '' - '' @ description @ '', v'' @ version, [], ''Usage:'',
      CHR 0x09 # progname @ '' '' @ options_synopsys, []]
     @ map (\<lambda>(c, descr, arg). '' -'' @ [c] @ '' : '' @ descr) CLI_OPTION_LIST_ITEMS
     @ [[], ''Environment variables:'']
     @ map (\<lambda>(name, descr, flag). name @ '' - '' @ descr @ (if flag then '' (non-zero to activate)'' else []))
         ENV_LIST_ITEMS
     @ [[]])"

lemma concat_pieces: "concat (map (\<lambda>s. s @ newline) (ps @ qs))
   = concat (map (\<lambda>s. s @ newline) ps) @ concat (map (\<lambda>s. s @ newline) qs)"
  by simp

lemma usage_text: "usage p progname = concat (map (\<lambda>s. s @ newline) (usage_pieces p progname))"
  by (cases p) (simp add: usage_def usage_pieces_def options_usage_def usage_env_vars_def comp_def
    case_prod_unfold)

lemma options_synopsys_line: "one_line options_synopsys" "options_synopsys \<noteq> []"
  "last options_synopsys = CHR '']''"
  by (simp_all add: options_synopsys_def CLI_OPTION_LIST_ITEMS_def)

lemma usage_lines:
  assumes "one_line version" "one_line progname"
  shows "text_lines (usage (tinyxvc version) progname)
    = concat (map piece_lines (usage_pieces (tinyxvc version) progname))"
  unfolding usage_text
proof (rule text_lines_pieces)
  have "last (x @ y) \<noteq> CHR 0x0A" if "one_line x" "one_line y" "x \<noteq> []" for x y
    using that by (cases "y = []") (auto dest: last_in_set)
  then show "list_all (\<lambda>s. s = [] \<or> last s \<noteq> CHR 0x0A) (usage_pieces (tinyxvc version) progname)"
    using assms options_synopsys_line
    by (auto simp: usage_pieces_def tinyxvc_def CLI_OPTION_LIST_ITEMS_def ENV_LIST_ITEMS_def quote_def
      newline_def apostrophes_def DEFAULT_SERVER_ADDR_def DEFAULT_LOG_TAG_SPEC_def dest: last_in_set)
qed

definition env_line :: "string \<times> string \<times> bool \<Rightarrow> string" where
  "env_line = (\<lambda>(name, descr, flag). name @ '' - '' @ descr @ (if flag then '' (non-zero to activate)'' else []))"

definition option_lines :: "string list" where
  "option_lines = concat (map piece_lines
     (map (\<lambda>(c, descr, arg). '' -'' @ [c] @ '' : '' @ descr) CLI_OPTION_LIST_ITEMS))"

lemmas usage_items = CLI_OPTION_LIST_ITEMS_def ENV_LIST_ITEMS_def newline_def quote_def apostrophes_def
  DEFAULT_SERVER_ADDR_def DEFAULT_LOG_TAG_SPEC_def

lemma env_lines: "list_all one_line (map env_line ENV_LIST_ITEMS)"
  by (simp add: usage_items env_line_def)

lemma piece_lines_env: "concat (map piece_lines (map env_line ENV_LIST_ITEMS)) = map env_line ENV_LIST_ITEMS"
proof -
  have "list_all one_line ls \<Longrightarrow> concat (map piece_lines ls) = ls" for ls
    by (induction ls) (simp_all add: piece_lines_single)
  then show ?thesis using env_lines by blast
qed

lemma usage_lines_shown:
  assumes "one_line version" "one_line progname"
  shows "text_lines (usage (tinyxvc version) progname)
    = [''TinyXVC - Virtual cable server for Xilinx FPGAs, v'' @ version, [], ''Usage:'',
       CHR 0x09 # progname @ '' '' @ options_synopsys, []] @ option_lines
      @ [[], ''Environment variables:''] @ map env_line ENV_LIST_ITEMS @ [[]]"
proof -
  have pieces: "usage_pieces (tinyxvc version) progname
    = [''TinyXVC - Virtual cable server for Xilinx FPGAs, v'' @ version, [], ''Usage:'',
       CHR 0x09 # progname @ '' '' @ options_synopsys, []]
      @ map (\<lambda>(c, descr, arg). '' -'' @ [c] @ '' : '' @ descr) CLI_OPTION_LIST_ITEMS
      @ [[], ''Environment variables:''] @ map env_line ENV_LIST_ITEMS @ [[]]"
    by (simp add: usage_pieces_def tinyxvc_def env_line_def)
  show ?thesis
    unfolding usage_lines [OF assms] pieces map_append concat_append option_lines_def [symmetric] piece_lines_env
    using assms options_synopsys_line(1) by (simp add: piece_lines_single)
qed

lemma map_filter_append: "List.map_filter f (xs @ ys) = List.map_filter f xs @ List.map_filter f ys"
  by (simp add: List.map_filter_def)

lemma option_lines_read:
  "List.map_filter option_of_line option_lines = map fst CLI_OPTION_LIST_ITEMS"
  "''Environment variables:'' \<notin> set option_lines"
  by (simp_all add: option_lines_def piece_lines_def map_filter_append usage_items option_of_line_def)

lemma env_lines_read:
  "List.map_filter option_of_line (map env_line ENV_LIST_ITEMS) = []"
  "map word_of_line (map env_line ENV_LIST_ITEMS) = map fst ENV_LIST_ITEMS"
  "[] \<notin> set (map env_line ENV_LIST_ITEMS)"
  by (simp_all add: env_line_def usage_items option_of_line_def word_of_line_def)

lemma shown_options_usage:
  assumes "one_line version" "one_line progname"
  shows "shown_options (usage (tinyxvc version) progname) = map fst CLI_OPTION_LIST_ITEMS"
  unfolding shown_options_def usage_lines_shown [OF assms] map_filter_append option_lines_read env_lines_read
  by (simp add: option_of_line_def)

lemma takeWhile_nonempty: "[] \<notin> set ls \<Longrightarrow> takeWhile (\<lambda>l. l \<noteq> []) (ls @ [[]]) = ls"
  by (induction ls) auto

lemma shown_env_usage:
  assumes "one_line version" "one_line progname"
  shows "shown_below ''Environment variables:'' (usage (tinyxvc version) progname) = map fst ENV_LIST_ITEMS"
proof -
  have "dropWhile (\<lambda>l. l \<noteq> ''Environment variables:'') (text_lines (usage (tinyxvc version) progname))
      = ''Environment variables:'' # map env_line ENV_LIST_ITEMS @ [[]]"
    unfolding usage_lines_shown [OF assms] using option_lines_read(2)
    by (simp add: dropWhile_append3 dropWhile_append)
  moreover note takeWhile_nonempty [OF env_lines_read(3)]
  ultimately show ?thesis by (simp add: shown_below_def env_lines_read del: map_map)
qed

definition drivers_lines :: "string list" where
  "drivers_lines = [''Drivers:'', quote ''echo'' @ '':'',
     ''Simple loopback driver that forwards TDI vector to TDO. No real device is involved'',
     ''Parameters:'', ''   none'', [], quote ''ftdi-generic'' @ '':''] @ ftdi_help_lines @ [[], []]"

lemma drivers_text:
  "''Drivers:'' @ newline @ enumerate_printing (gDrivers malloc dx) driver_usage @ newline
   = concat (map (\<lambda>l. l @ newline) drivers_lines)"
  by (simp add: gDrivers_def driver_usage_def driver_echo_def driver_ftdi_generic_def echo_help_def
      drivers_lines_def ftdi_help_text)

lemma ftdi_help_lines_read:
  "list_all one_line ftdi_help_lines" "List.map_filter driver_of_line ftdi_help_lines = []"
  by (simp_all add: ftdi_help_lines_def list_items entries_def entry_def quote_def driver_of_line_def)

lemma shown_drivers_text:
  "shown_drivers (''Drivers:'' @ newline @ enumerate_printing (gDrivers malloc dx) driver_usage @ newline)
   = [''echo'', ''ftdi-generic'']"
proof -
  have "list_all one_line drivers_lines"
    using ftdi_help_lines_read(1) by (simp add: drivers_lines_def quote_def)
  then show ?thesis
    unfolding shown_drivers_def drivers_text by (simp only: text_lines_concat)
      (simp add: drivers_lines_def map_filter_append ftdi_help_lines_read driver_of_line_def quote_def)
qed

definition alias_line :: "string \<times> profile_alias \<Rightarrow> string" where
  "alias_line = (\<lambda>(name, a). pad_left 20 name @ '' - '' @ al_description a)"

lemma alias_lines_read:
  "list_all one_line (map alias_line gAliases)" "[] \<notin> set (map alias_line gAliases)"
  "map word_of_line (map alias_line gAliases) = map fst gAliases"
  by (simp_all add: gAliases_def alias_line_def pad_left_def word_of_line_def numeral_eq_Suc)

lemma shown_aliases_text:
  "shown_below ''Aliases:'' (''Aliases:'' @ newline @ txvc_print_all_aliases @ newline) = map fst gAliases"
proof -
  have "''Aliases:'' @ newline @ txvc_print_all_aliases @ newline
      = concat (map (\<lambda>l. l @ newline) (''Aliases:'' # map alias_line gAliases @ [[]]))"
    by (simp add: txvc_print_all_aliases_def alias_line_def comp_def case_prod_unfold)
  moreover have "list_all one_line (''Aliases:'' # map alias_line gAliases @ [[]])"
    using alias_lines_read(1) by simp
  ultimately have lines: "text_lines (''Aliases:'' @ newline @ txvc_print_all_aliases @ newline)
      = ''Aliases:'' # map alias_line gAliases @ [[]]"
    by (simp only: text_lines_concat)
  show ?thesis
    unfolding shown_below_def lines
    by (simp add: alias_lines_read takeWhile_nonempty [OF alias_lines_read(2)] del: map_map)
qed

subsection \<open>What the options, variables and names do\<close>

lemma options_known:
  "c \<in> set (map fst CLI_OPTION_LIST_ITEMS)
   \<longleftrightarrow> opt_takes cli_optstr c \<noteq> None \<and> apply_options [Opt c arg] cf \<noteq> None"
  by (auto simp: cli_optstr_chars CLI_OPTION_LIST_ITEMS_def)

lemma env_known:
  "n \<in> set (map fst ENV_LIST_ITEMS) \<longleftrightarrow> (\<exists>getenv v cf. read_env (getenv(n := v)) cf \<noteq> read_env getenv cf)"
proof
  have one: "parse_int ''1'' \<noteq> 0" by code_simp
  assume "n \<in> set (map fst ENV_LIST_ITEMS)"
  then consider "n = ''TXVC_LOG_VERBOSE''" | "n = ''TXVC_LOG_TIMESTAMPS''" | "n = ''TXVC_LOG_SPEC''"
    by (auto simp: ENV_LIST_ITEMS_def)
  then have "read_env ((\<lambda>_. None)(n := Some ''1'')) default_config \<noteq> read_env (\<lambda>_. None) default_config"
    by cases (simp_all add: read_env_def env_flag_def one default_config_def DEFAULT_LOG_TAG_SPEC_def)
  then show "\<exists>getenv v cf. read_env (getenv(n := v)) cf \<noteq> read_env getenv cf" by blast
next
  assume "\<exists>getenv v cf. read_env (getenv(n := v)) cf \<noteq> read_env getenv cf"
  then show "n \<in> set (map fst ENV_LIST_ITEMS)"
  proof (rule contrapos_pp)
    assume "n \<notin> set (map fst ENV_LIST_ITEMS)"
    then have "''TXVC_LOG_VERBOSE'' \<noteq> n" "''TXVC_LOG_TIMESTAMPS'' \<noteq> n" "''TXVC_LOG_SPEC'' \<noteq> n"
      by (auto simp: ENV_LIST_ITEMS_def)
    then show "\<not> (\<exists>getenv v cf. read_env (getenv(n := v)) cf \<noteq> read_env getenv cf)"
      by (simp add: read_env_def env_flag_def)
  qed
qed

lemma drivers_known:
  "name \<in> {''echo'', ''ftdi-generic''} \<longleftrightarrow> txvc_enumerate_drivers malloc dx find_by_name name \<noteq> None"
  by (auto simp: txvc_enumerate_drivers_def gDrivers_def find_by_name_def driver_echo_def
      driver_ftdi_generic_def)

lemma find_alias_known: "find_alias as name \<noteq> None \<longleftrightarrow> name \<in> fst ` set as"
  by (induction as) auto

text \<open>C39. What the program prints on request is true: read from the lines of the texts, the options
  it shows are exactly those that \<open>getopt\<close> is told of and the configuration takes, the environment
  variables exactly those that can change the configuration, the drivers exactly those a profile can
  name, and the aliases exactly those that are found.\<close>
theorem help_truthful:
  assumes "CHR 0x0A \<notin> set version" "CHR 0x0A \<notin> set progname"
    and "shown = (\<lambda>cf. fst (print_help malloc dx (tinyxvc version) progname cf))"
  shows "(c \<in> set (shown_options (shown (default_config\<lparr>cf_help := True\<rparr>)))
      \<longleftrightarrow> opt_takes cli_optstr c \<noteq> None \<and> apply_options [Opt c arg] cf \<noteq> None)
    \<and> (n \<in> set (shown_below ''Environment variables:'' (shown (default_config\<lparr>cf_help := True\<rparr>)))
      \<longleftrightarrow> (\<exists>getenv v cf. read_env (getenv(n := v)) cf \<noteq> read_env getenv cf))
    \<and> (n \<in> set (shown_drivers (shown (default_config\<lparr>cf_helpDrivers := True\<rparr>)))
      \<longleftrightarrow> txvc_enumerate_drivers malloc dx find_by_name n \<noteq> None)
    \<and> (n \<in> set (shown_below ''Aliases:'' (shown (default_config\<lparr>cf_helpAliases := True\<rparr>)))
      \<longleftrightarrow> txvc_find_alias_by_name n \<noteq> None)"
proof -
  have shown: "shown (default_config\<lparr>cf_help := True\<rparr>) = usage (tinyxvc version) progname"
    "shown (default_config\<lparr>cf_helpDrivers := True\<rparr>)
      = ''Drivers:'' @ newline @ enumerate_printing (gDrivers malloc dx) driver_usage @ newline"
    "shown (default_config\<lparr>cf_helpAliases := True\<rparr>) = ''Aliases:'' @ newline @ txvc_print_all_aliases @ newline"
    by (simp_all add: assms(3) print_help_def default_config_def)
  show ?thesis
    unfolding shown shown_options_usage [OF assms(1,2)] shown_env_usage [OF assms(1,2)]
      shown_drivers_text shown_aliases_text txvc_find_alias_by_name_def find_alias_known
      options_known [of c arg cf] env_known
    using drivers_known [of n malloc dx] by simp
qed

theorem help_truthful_witness:
  "CHR ''t'' \<in> set (shown_options (fst (print_help (\<lambda>_. None) (ref_d2xx bypass) (tinyxvc ''1.0'') ''txvc''
      (default_config\<lparr>cf_help := True\<rparr>))))
   \<and> ''gdb'' \<notin> set (shown_drivers (fst (print_help (\<lambda>_. None) (ref_d2xx bypass) (tinyxvc ''1.0'') ''txvc''
      (default_config\<lparr>cf_helpDrivers := True\<rparr>))))"
  using help_truthful [of "''1.0''" "''txvc''" "\<lambda>cf. fst (print_help (\<lambda>_. None) (ref_d2xx bypass)
      (tinyxvc ''1.0'') ''txvc'' cf)" "\<lambda>_. None" "ref_d2xx bypass" "CHR ''t''" "''7''" default_config "''gdb''"]
  by (simp add: cli_optstr_chars txvc_enumerate_drivers_def gDrivers_def find_by_name_def driver_echo_def
      driver_ftdi_generic_def)

end
