(* ===== verification/Log_Session.thy ===== *)
theory Log_Session
  imports Logger
begin

text \<open>
  A run of the program as its logger sees it (\<open>libtxvc/log.c\<close>): configurations and messages of
  any tags, with the state of the logger and of every tag threaded through. The reference keeps no
  resolutions: it looks each tag up in the specification that is in force.
\<close>

datatype log_action =
    Configure "tag_entry list" log_level bool
  | Message string log_level int string

text \<open>The lines a run prints, with the tags of the program's files in \<open>tags\<close>.\<close>

fun log_run :: "logger \<Rightarrow> (string \<Rightarrow> log_tag) \<Rightarrow> log_action list \<Rightarrow> string list c_res option" where
  "log_run g tags [] = Some (Ok [])"
| "log_run g tags (Configure es minLevel withTimestamps # as) =
     log_run (txvc_log_configure (spec_str es) minLevel withTimestamps g) tags as"
| "log_run g tags (Message t level elapsed msg # as) =
     (case txvc_log g (tags t) level elapsed msg of
        None \<Rightarrow> None
      | Some (Fault e) \<Rightarrow> Some (Fault e)
      | Some (Ok (tag, printed)) \<Rightarrow>
          map_option (\<lambda>r. c_bind r (\<lambda>ls. Ok ((case printed of None \<Rightarrow> [] | Some l \<Rightarrow> [l]) @ ls)))
            (log_run g (tags(t := tag)) as))"

subsection \<open>The reference\<close>

definition line :: "logger \<Rightarrow> string \<Rightarrow> log_level \<Rightarrow> int \<Rightarrow> string \<Rightarrow> string" where
  "line g t level elapsed msg = level_escape g level
     @ take 1023 (log_prefix g (TXVC_LOG_TAG_INITIALIZER t) level elapsed @ msg) @ default_escape g"

fun session_lines :: "logger \<Rightarrow> tag_entry list \<Rightarrow> log_action list \<Rightarrow> string list" where
  "session_lines g es [] = []"
| "session_lines g es (Configure es' minLevel withTimestamps # as) =
     session_lines (g\<lparr>gMinLevel := minLevel, gWithTimestamps := withTimestamps\<rparr>) es' as"
| "session_lines g es (Message t level elapsed msg # as) =
     (if gMinLevel g \<le> level \<and> resolve t es None = Some True then [line g t level elapsed msg] else [])
     @ session_lines g es as"

text \<open>Runs in which every specification is well-formed and covers the tags that are used while it
  is in force, and nothing fatal happens.\<close>

fun session_ok :: "tag_entry list \<Rightarrow> log_action list \<Rightarrow> bool" where
  "session_ok es [] = True"
| "session_ok es (Configure es' minLevel withTimestamps # as) =
     (list_all (plain_name \<circ> fst) es' \<and> session_ok es' as)"
| "session_ok es (Message t level elapsed msg # as) =
     (resolve t es None \<noteq> None \<and> level \<noteq> LOG_LEVEL_FATAL \<and> session_ok es as)"

subsection \<open>What a tag has cached\<close>

definition cached :: "logger \<Rightarrow> log_tag \<Rightarrow> bool" where
  "cached g tag \<longleftrightarrow> curConfigId tag = gCurConfigId g \<and> isEnabled tag \<noteq> Fn_txvc_log_tag_enabled"

definition tag_ok :: "logger \<Rightarrow> tag_entry list \<Rightarrow> string \<Rightarrow> log_tag \<Rightarrow> bool" where
  "tag_ok g es t tag \<longleftrightarrow> tag_str tag = t \<and> curConfigId tag \<le> gCurConfigId g
     \<and> (cached g tag \<longrightarrow> resolve t es None = Some (isEnabled tag = Fn_tag_enabled))"

lemma initial_tag_ok: "tag_ok g es t (TXVC_LOG_TAG_INITIALIZER t)"
  by (simp add: tag_ok_def cached_def TXVC_LOG_TAG_INITIALIZER_def)

lemma tag_enabled_resolves:
  assumes "tag_ok g es t tag" "gTagSpec g = Some (spec_str es)" "list_all (plain_name \<circ> fst) es"
    and "resolve t es None = Some on"
  obtains tag' where "txvc_log_tag_enabled g tag = Some (Ok (on, tag'))" "tag_ok g es t tag'"
proof (cases "cached g tag")
  case True
  then have "txvc_log_tag_enabled g tag = Some (Ok (on, tag))"
    using assms(1,4)
    by (subst txvc_log_tag_enabled.simps)
       (auto simp: cached_def tag_ok_def split: tag_fn.split)
  then show thesis using assms(1) by (rule that)
next
  case False
  then show thesis
    using assms tag_enabled_scans [of tag g es on]
    by (intro that) (auto simp: tag_ok_def cached_def split: if_splits)
qed

lemma log_message:
  assumes "tag_ok g es t tag" "gTagSpec g = Some (spec_str es)" "list_all (plain_name \<circ> fst) es"
    and "resolve t es None = Some on" "level \<noteq> LOG_LEVEL_FATAL"
  obtains tag' where "tag_ok g es t tag'" "txvc_log g tag level elapsed msg = Some (Ok (tag',
    if gMinLevel g \<le> level \<and> on then Some (line g t level elapsed msg) else None))"
proof -
  obtain tag' where tag': "txvc_log_tag_enabled g tag = Some (Ok (on, tag'))" "tag_ok g es t tag'"
    using tag_enabled_resolves [OF assms(1-4)] by blast
  have prefix: "log_prefix g tag' level elapsed = log_prefix g (TXVC_LOG_TAG_INITIALIZER t) level elapsed"
    using tag'(2) by (simp add: log_prefix_def tag_ok_def TXVC_LOG_TAG_INITIALIZER_def)
  show thesis
    by (rule that [of "if level < gMinLevel g then tag else tag'"])
       (use assms(1) tag'(2) in \<open>simp_all add: log_filter [OF assms(5) tag'(1)] line_def prefix linorder_not_le [symmetric]\<close>)
qed

text \<open>A new configuration is told from every one a tag has seen, as long as the counter does not
  come round.\<close>

lemma configure_keeps_tags:
  assumes "tag_ok g es t tag" "gCurConfigId g < gCurConfigId g + 1"
  shows "tag_ok (txvc_log_configure spec minLevel ts g) es' t tag"
  using assms by (auto simp: tag_ok_def cached_def txvc_log_configure_def)

lemma next_id: "unat (i :: u32) + Suc n < 2 ^ 32 \<Longrightarrow> unat (i + 1) = Suc (unat i) \<and> i < i + 1"
  by (simp add: word_less_nat_alt unat_word_ariths)

lemma session_lines_cong:
  "gMinLevel g = gMinLevel g' \<Longrightarrow> gWithTimestamps g = gWithTimestamps g' \<Longrightarrow> gColor g = gColor g'
   \<Longrightarrow> session_lines g es as = session_lines g' es as"
proof (induction as arbitrary: g g' es)
  case (Cons a as)
  have line: "line g t level elapsed msg = line g' t level elapsed msg" for t level elapsed msg
    using Cons.prems by (simp add: line_def log_prefix_def default_escape_def)
  show ?case
  proof (cases a)
    case (Configure es' l ts)
    then show ?thesis using Cons.prems by (simp add: Cons.IH [of "g\<lparr>gMinLevel := l, gWithTimestamps := ts\<rparr>"
        "g'\<lparr>gMinLevel := l, gWithTimestamps := ts\<rparr>"])
  next
    case (Message t level elapsed msg)
    then show ?thesis using Cons.prems Cons.IH [OF Cons.prems] by (simp add: line)
  qed
qed simp

lemma log_run_lines:
  assumes "session_ok es as" "gTagSpec g = Some (spec_str es)" "list_all (plain_name \<circ> fst) es"
    and "\<forall>t. tag_ok g es t (tags t)" "unat (gCurConfigId g) + length as < 2 ^ 32"
  shows "log_run g tags as = Some (Ok (session_lines g es as))"
  using assms
proof (induction as arbitrary: g tags es)
  case (Cons a as)
  show ?case
  proof (cases a)
    case (Configure es' l ts)
    let ?g = "txvc_log_configure (spec_str es') l ts g"
    have id: "unat (gCurConfigId ?g) = Suc (unat (gCurConfigId g))" "gCurConfigId g < gCurConfigId g + 1"
      using Cons.prems(5) next_id [of "gCurConfigId g"] by (simp_all add: txvc_log_configure_def)
    have "gTagSpec ?g = Some (spec_str es')" by (simp add: txvc_log_configure_def)
    then have "log_run ?g tags as = Some (Ok (session_lines ?g es' as))"
      using Cons.prems(1,4,5) id(1) configure_keeps_tags [OF _ id(2), of es] Configure
      by (intro Cons.IH) (simp_all add: o_def)
    moreover have "session_lines ?g es' as
        = session_lines (g\<lparr>gMinLevel := l, gWithTimestamps := ts\<rparr>) es' as"
      by (rule session_lines_cong) (simp_all add: txvc_log_configure_def)
    ultimately show ?thesis using Configure by simp
  next
    case (Message t level elapsed msg)
    obtain on where on: "resolve t es None = Some on" "level \<noteq> LOG_LEVEL_FATAL"
      using Cons.prems(1) Message by auto
    obtain tag' where tag': "tag_ok g es t tag'" "txvc_log g (tags t) level elapsed msg = Some (Ok (tag',
        if gMinLevel g \<le> level \<and> on then Some (line g t level elapsed msg) else None))"
      using log_message [OF _ Cons.prems(2,3) on] Cons.prems(4) by blast
    have "log_run g (tags(t := tag')) as = Some (Ok (session_lines g es as))"
      using Cons.prems tag'(1) Message by (intro Cons.IH) auto
    then show ?thesis using Message tag'(2) on(1) by simp
  qed
qed simp

text \<open>C19. The cached resolutions of the tags are never noticed: over a run of configurations with
  well-formed specifications and messages below the fatal level, of however many tags, each covered
  by the specification in force, the logger prints exactly the messages whose level is at least
  the minimum in force and whose tag the specification in force enables, in order, each with its
  prefix and cut to the 1023 characters of the buffer. The run has fewer than \<open>2 ^ 32 - 1\<close> steps:
  after \<open>2 ^ 32\<close> configurations the counter that invalidates the resolutions comes round.\<close>
theorem log_session_prints:
  assumes "list_all (plain_name \<circ> fst) es" "session_ok es as" "length as < 2 ^ 32 - 1"
  shows "log_run (initLogger tty logger_statics) TXVC_LOG_TAG_INITIALIZER (Configure es minLevel ts # as)
    = Some (Ok (session_lines (initLogger tty logger_statics) [] (Configure es minLevel ts # as)))"
proof -
  let ?g = "initLogger tty logger_statics"
  let ?h = "txvc_log_configure (spec_str es) minLevel ts ?g"
  have "unat (gCurConfigId ?h) = 1" "gTagSpec ?h = Some (spec_str es)"
    by (simp_all add: initLogger_def logger_statics_def txvc_log_configure_def)
  then have "log_run ?h TXVC_LOG_TAG_INITIALIZER as = Some (Ok (session_lines ?h es as))"
    using assms initial_tag_ok by (intro log_run_lines) simp_all
  moreover have "session_lines ?h es as
      = session_lines (?g\<lparr>gMinLevel := minLevel, gWithTimestamps := ts\<rparr>) es as"
    by (rule session_lines_cong) (simp_all add: txvc_log_configure_def)
  ultimately show ?thesis by simp
qed

theorem log_session_prints_witness:
  "log_run (initLogger False logger_statics) TXVC_LOG_TAG_INITIALIZER
     [Configure [(''all'', True), (''ftdi'', False)] LOG_LEVEL_INFO False,
      Message ''server'' LOG_LEVEL_WARN 0 ''hi'', Message ''ftdi'' LOG_LEVEL_ERROR 0 ''bad'',
      Message ''server'' LOG_LEVEL_VERBOSE 0 ''low'',
      Configure [(''all'', True)] LOG_LEVEL_INFO False, Message ''ftdi'' LOG_LEVEL_ERROR 0 ''bad'']
   = Some (Ok [''         server: W: hi'', ''           ftdi: E: bad''])"
proof -
  let ?as = "[Message ''server'' LOG_LEVEL_WARN 0 ''hi'', Message ''ftdi'' LOG_LEVEL_ERROR 0 ''bad'',
      Message ''server'' LOG_LEVEL_VERBOSE 0 ''low'',
      Configure [(''all'', True)] LOG_LEVEL_INFO False, Message ''ftdi'' LOG_LEVEL_ERROR 0 ''bad'']"
  let ?es = "[(''all'', True), (''ftdi'', False)]"
  have "list_all (plain_name \<circ> fst) ?es" "session_ok ?es ?as" by code_simp+
  moreover have "session_lines (initLogger False logger_statics) [] (Configure ?es LOG_LEVEL_INFO False # ?as)
      = [''         server: W: hi'', ''           ftdi: E: bad'']" by code_simp
  ultimately show ?thesis using log_session_prints [of ?es ?as False LOG_LEVEL_INFO False] by simp
qed

end
