(* ===== verification/Txvc_Main.thy ===== *)
theory Txvc_Main
  imports Driver_Wrapper Txvc_Help Log_Session
begin

text \<open>
  \<open>txvc/txvc.c\<close>: the program that ties the components together.

  The user ids, the object \<open>profile\<close> on the stack and the signal (the flag of the server's
  operating system) are arguments. Of the messages \<open>main\<close> sends through the logger it is kept whether
  the logger returns; those of the other components are left out, and \<open>log_spec_ok\<close> says of the
  specification in use that the logger returns from all of them. What is printed directly to
  \<open>stderr\<close> is left out.
\<close>

subsection \<open>Messages\<close>

text \<open>A message as a step before the rest of the program, which gets the tag with its cached
  resolution: the macros of \<open>log.h\<close>. The time affects only what is printed.\<close>

definition log_then ::
  "logger \<Rightarrow> log_tag \<Rightarrow> log_level \<Rightarrow> string \<Rightarrow> (log_tag \<Rightarrow> 'a c_res option) \<Rightarrow> 'a c_res option" where
  "log_then g tag level msg rest = (case txvc_log g tag level 0 msg of
     None \<Rightarrow> None
   | Some (Fault e) \<Rightarrow> Some (Fault e)
   | Some (Ok (tag, printed)) \<Rightarrow> rest tag)"

definition INFO :: "logger \<Rightarrow> log_tag \<Rightarrow> string \<Rightarrow> (log_tag \<Rightarrow> 'a c_res option) \<Rightarrow> 'a c_res option" where
  "INFO g tag msg rest = log_then g tag LOG_LEVEL_INFO msg rest"
definition ERROR :: "logger \<Rightarrow> log_tag \<Rightarrow> string \<Rightarrow> (log_tag \<Rightarrow> 'a c_res option) \<Rightarrow> 'a c_res option" where
  "ERROR g tag msg rest = log_then g tag LOG_LEVEL_ERROR msg rest"

text \<open>The tags of the program's files, and the specifications that are well-formed and resolve all of
  them.\<close>

definition txvc_default_log_tags :: "string list" where
  "txvc_default_log_tags = [''txvc'', ''driverWrapper'', ''server'', ''mempool'', ''bitVector'', ''profile'',
     ''jtagSplit'', ''ftdiGeneric'']"

definition log_spec_ok :: "string \<Rightarrow> bool" where
  "log_spec_ok spec \<longleftrightarrow> (\<exists>es. spec = spec_str es \<and> list_all (plain_name \<circ> fst) es
     \<and> (\<forall>t \<in> set txvc_default_log_tags. resolve t es None \<noteq> None))"

definition log_env_ok :: "(string \<Rightarrow> string option) \<Rightarrow> bool" where
  "log_env_ok getenv \<longleftrightarrow> log_spec_ok (case getenv ''TXVC_LOG_SPEC'' of None \<Rightarrow> DEFAULT_LOG_TAG_SPEC | Some v \<Rightarrow> v)"

subsection \<open>The program\<close>

definition EXIT_SUCCESS :: int where "EXIT_SUCCESS = 0"
definition EXIT_FAILURE :: int where "EXIT_FAILURE = 1"

text \<open>The selected driver, once it is active, until it is deactivated.\<close>

definition run_active ::
  "(string \<Rightarrow> u32 option) \<Rightarrow> 'n os \<Rightarrow> config \<Rightarrow> 's driver \<Rightarrow> 'n \<Rightarrow> 's \<Rightarrow> (int \<times> 'n \<times> 's) c_res option" where
  "run_active inet_aton os config drv n s =
     (case txvc_driver_wrapper_setup drv (cf_tckPeriodNanos config) s of
        Fault e \<Rightarrow> Some (Fault e)
      | Ok w \<Rightarrow>
          case txvc_run_server inet_aton os (cf_serverAddr config) (txvcDriverWrapper drv) n w of
            None \<Rightarrow> None
          | Some (Fault e) \<Rightarrow> Some (Fault e)
          | Some (Ok (n, w)) \<Rightarrow>
              Some (c_bind (drv_deactivate (txvcDriverWrapper drv) w) (\<lambda>(_, w).
                Ok (EXIT_SUCCESS, n, wr_state w))))"

definition run_driver ::
  "(string \<Rightarrow> u32 option) \<Rightarrow> 'n os \<Rightarrow> config \<Rightarrow> 's driver \<Rightarrow> string \<Rightarrow> (string \<times> string) list \<Rightarrow>
   logger \<Rightarrow> log_tag \<Rightarrow> 'n \<Rightarrow> 's \<Rightarrow> (int \<times> 'n \<times> 's) c_res option" where
  "run_driver inet_aton os config drv name args g tag n s =
     (case drv_activate drv args s of
        Fault e \<Rightarrow> Some (Fault e)
      | Ok (ok, s) \<Rightarrow>
          if \<not> ok then ERROR g tag (''Failed to activate driver '' @ quote name @ newline)
            (\<lambda>tag. Some (Ok (EXIT_FAILURE, n, s)))
          else run_active inet_aton os config drv n s)"

definition run_profile ::
  "(u64 \<Rightarrow> u64 option) \<Rightarrow> 'w d2xx \<Rightarrow> (string \<Rightarrow> u32 option) \<Rightarrow> 'n os \<Rightarrow> backend_profile \<Rightarrow>
   config \<Rightarrow> string \<Rightarrow> logger \<Rightarrow> log_tag \<Rightarrow> 'n \<Rightarrow> 'w ftdi_state \<Rightarrow>
   (int \<times> 'n \<times> 'w ftdi_state) c_res option" where
  "run_profile malloc dx inet_aton os profile config profileStr g tag n s =
     (case txvc_backend_profile_parse profileStr profile of
        Fault e \<Rightarrow> Some (Fault e)
      | Ok (ok, profile) \<Rightarrow>
          if \<not> ok then Some (Ok (EXIT_FAILURE, n, s))
          else let name = driver_view profile in
            case txvc_enumerate_drivers malloc dx find_by_name name of
              None \<Rightarrow> ERROR g tag (''Can not find driver '' @ quote name @ newline)
                (\<lambda>tag. Some (Ok (EXIT_FAILURE, n, s)))
            | Some drv \<Rightarrow> run_driver inet_aton os config drv name (args_view profile) g tag n s)"

text \<open>An alias is announced and replaced.\<close>

definition expand_alias ::
  "logger \<Rightarrow> log_tag \<Rightarrow> string \<Rightarrow> (log_tag \<Rightarrow> string \<Rightarrow> 'a c_res option) \<Rightarrow> 'a c_res option" where
  "expand_alias g tag profile rest = (case txvc_find_alias_by_name profile of
     None \<Rightarrow> rest tag profile
   | Some alias \<Rightarrow>
       INFO g tag (''Found alias '' @ profile @ '' ('' @ al_description alias @ ''),'' @ newline) (\<lambda>tag.
       INFO g tag (''Using profile '' @ al_profile alias @ newline) (\<lambda>tag.
         rest tag (al_profile alias))))"

definition configure_logger :: "config \<Rightarrow> logger \<Rightarrow> logger" where
  "configure_logger config g = txvc_log_configure (cf_logTagSpec config)
     (if cf_logVerbose config then LOG_LEVEL_VERBOSE else LOG_LEVEL_INFO) (cf_logTimestamps config) g"

text \<open>The configuration of which only \<open>help\<close> is set.\<close>

definition only_help :: config where
  "only_help = \<lparr>cf_help = True, cf_profile = None, cf_serverAddr = [], cf_tckPeriodNanos = 0,
     cf_helpDrivers = False, cf_helpAliases = False, cf_logVerbose = False, cf_logTimestamps = False,
     cf_logTagSpec = []\<rparr>"

text \<open>The logger's state and the help that is printed, and the outcome.\<close>

definition main ::
  "(u64 \<Rightarrow> u64 option) \<Rightarrow> 'w d2xx \<Rightarrow> (string \<Rightarrow> u32 option) \<Rightarrow> 'n os \<Rightarrow> backend_profile \<Rightarrow> project \<Rightarrow>
   (string \<Rightarrow> string option) \<Rightarrow> nat \<Rightarrow> nat \<Rightarrow> string \<Rightarrow> string list \<Rightarrow> logger \<Rightarrow> 'n \<Rightarrow> 'w ftdi_state \<Rightarrow>
   (logger \<times> string) \<times> (int \<times> 'n \<times> 'w ftdi_state) c_res option" where
  "main malloc dx inet_aton os profile project getenv uid euid progname args g n s =
     (if uid = 0 \<or> euid = 0 then ((g, []), Some (Ok (EXIT_FAILURE, n, s)))
      else case txvc_load_config getenv args of
        None \<Rightarrow> ((g, fst (print_help malloc dx project progname only_help)), Some (Ok (EXIT_FAILURE, n, s)))
      | Some config \<Rightarrow>
          (case print_help malloc dx project progname config of (text, didPrint) \<Rightarrow>
             if didPrint then ((g, text), Some (Ok (EXIT_SUCCESS, n, s)))
             else
               let g = configure_logger config g;
                 tag = TXVC_LOG_TAG_INITIALIZER ''txvc''
               in ((g, text),
                 case cf_profile config of
                   None \<Rightarrow> Some (Ok (EXIT_FAILURE, n, s))
                 | Some p \<Rightarrow> expand_alias g tag p (\<lambda>tag p.
                     if cf_tckPeriodNanos config < 0 then Some (Ok (EXIT_FAILURE, n, s))
                     else run_profile malloc dx inet_aton os profile config p g tag n s))))"

subsection \<open>Messages return\<close>

text \<open>The logger will return from messages of \<open>txvc.c\<close>.\<close>

definition main_logs :: "logger \<Rightarrow> log_tag \<Rightarrow> bool" where
  "main_logs g tag \<longleftrightarrow> (\<exists>es. gTagSpec g = Some (spec_str es) \<and> list_all (plain_name \<circ> fst) es
     \<and> resolve ''txvc'' es None \<noteq> None \<and> tag_ok g es ''txvc'' tag)"

lemma log_then_returns:
  assumes "main_logs g tag" "level \<noteq> LOG_LEVEL_FATAL" "\<And>tag'. main_logs g tag' \<Longrightarrow> rest tag' = r"
  shows "log_then g tag level msg rest = r"
proof -
  obtain es on where es: "gTagSpec g = Some (spec_str es)" "list_all (plain_name \<circ> fst) es"
    "resolve ''txvc'' es None = Some on" "tag_ok g es ''txvc'' tag"
    using assms(1) by (auto simp: main_logs_def)
  obtain tag' where tag': "tag_ok g es ''txvc'' tag'" "txvc_log g tag level 0 msg = Some (Ok (tag',
      if gMinLevel g \<le> level \<and> on then Some (line g ''txvc'' level 0 msg) else None))"
    using log_message [OF es(4,1,2,3) assms(2)] by blast
  then have "main_logs g tag'" using es(1-3) by (auto simp: main_logs_def)
  then show ?thesis using assms(3) by (simp add: log_then_def tag'(2))
qed

lemma configured_main_logs:
  assumes "log_spec_ok spec"
  shows "main_logs (txvc_log_configure spec minLevel ts g) (TXVC_LOG_TAG_INITIALIZER ''txvc'')"
  using assms initial_tag_ok
  by (fastforce simp: main_logs_def log_spec_ok_def txvc_log_configure_def txvc_default_log_tags_def)

definition resolve_alias :: "string \<Rightarrow> string" where
  "resolve_alias profile = (case txvc_find_alias_by_name profile of
     None \<Rightarrow> profile | Some alias \<Rightarrow> al_profile alias)"

lemma expand_alias_returns:
  assumes "main_logs g tag" "\<And>tag'. main_logs g tag' \<Longrightarrow> rest tag' (resolve_alias p) = r"
  shows "expand_alias g tag p rest = r"
proof (cases "txvc_find_alias_by_name p")
  case (Some a)
  then have "rest tag' (al_profile a) = r" if "main_logs g tag'" for tag'
    using assms(2) [OF that] by (simp add: resolve_alias_def)
  then show ?thesis
    using assms(1) Some by (auto simp: expand_alias_def INFO_def intro!: log_then_returns)
qed (use assms in \<open>simp add: expand_alias_def resolve_alias_def\<close>)

lemma env_main_logs:
  assumes "txvc_load_config getenv args = Some config" "log_env_ok getenv"
  shows "main_logs (configure_logger config g) (TXVC_LOG_TAG_INITIALIZER ''txvc'')"
  unfolding configure_logger_def
proof (rule configured_main_logs)
  show "log_spec_ok (cf_logTagSpec config)"
    using assms by (auto simp: txvc_load_config_def log_env_ok_def read_env_def
      split: prod.splits option.splits if_splits)
qed

lemma default_log_spec_ok: "log_spec_ok ''all+''"
  unfolding log_spec_ok_def
  by (rule exI [of _ "[(''all'', True)]"])
     (simp add: spec_str_def entry_str_def plain_name_def txvc_default_log_tags_def entry_applies_def)

text \<open>Past the help.\<close>

lemma main_runs:
  assumes "uid \<noteq> 0" "euid \<noteq> 0" "txvc_load_config getenv args = Some config" "\<not> help_wanted config"
  shows "snd (main malloc dx inet_aton os profile project getenv uid euid progname args g n s) =
    (case cf_profile config of
       None \<Rightarrow> Some (Ok (EXIT_FAILURE, n, s))
     | Some p \<Rightarrow> expand_alias (configure_logger config g) (TXVC_LOG_TAG_INITIALIZER ''txvc'') p (\<lambda>tag p.
         if cf_tckPeriodNanos config < 0 then Some (Ok (EXIT_FAILURE, n, s))
         else run_profile malloc dx inet_aton os profile config p (configure_logger config g) tag n s))"
  using assms by (simp add: main_def case_prod_unfold print_help_wanted Let_def)

subsection \<open>The program serves its clients\<close>

lemma run_driver_serves:
  fixes d :: "'d chip ftdi"
  assumes act: "activate malloc (ref_d2xx clk) args sp d = Ok (True, sp1, d1)"
      "ready 1792 clk (ref_d2xx clk) sp1 d1" "highSpeedCapable d1" "4 \<le> chipBufferBytes d1"
    and tck: "cf_tckPeriodNanos config = 0"
    and addr: "parse_address inet_aton (cf_serverAddr config) = Some (addr, port)"
    and cs: "\<forall>c \<in> set cs. list_all (acceptable (\<lambda>t. 0 < t \<and> 30 * t < 2 ^ 31) (\<lambda>m. m \<le> 1792)) c"
      "inbox n = []" "pending n = map (\<lambda>c. concat (map encode c)) cs"
    and srv: "serve_all junk (8 * chipBufferBytes d1) (wrapper_tck_view (\<lambda>t v. (nearest_period t, v)))
      (wrapper_shift_view (\<lambda>t v. (nearest_period t, v)) (cable_view clk)) cs
      (Onetime_set_tck_period, Onetime_shift_bits, sp_state sp1, lastTdi d1, ch_dev (world (fd_io d1)))
      = (as, v')"
  shows "\<exists>n' s'. (\<forall>tag. run_driver inet_aton (ref_os junk) config
      (driver_ftdi_generic malloc (ref_d2xx clk)) name args g tag n (sp, d) = Some (Ok (EXIT_SUCCESS, n', s')))
    \<and> answered n' = answered n @ as \<and> pending n' = [] \<and> sp_cb (fst s') = None
    \<and> \<not> ch_open (world (fd_io (snd s'))) \<and> ch_mode (world (fd_io (snd s'))) = 0"
proof -
  let ?drv = "driver_ftdi_generic malloc (ref_d2xx clk)"
  let ?w = "\<lparr>wr_tck = Onetime_set_tck_period, wr_shift = Onetime_shift_bits, wr_orig = True,
    wr_state = (sp1, d1)\<rparr>"
  have ready: "ftdi_ready clk (ref_d2xx clk) (wr_state ?w) \<and> wrapper_inv ?w"
    using act(2-4) by (simp add: ftdi_ready_def wrapper_inv_def)
  have cs': "\<forall>c \<in> set cs. list_all (acceptable (\<lambda>t. (0 < t \<and> 30 * t < 2 ^ 31) \<and> 0 < t) (\<lambda>m. m \<le> 1792)) c"
  proof
    fix c assume "c \<in> set cs"
    then have "list_all (acceptable (\<lambda>t. 0 < t \<and> 30 * t < 2 ^ 31) (\<lambda>m. m \<le> 1792)) c" using cs(1) by blast
    then show "list_all (acceptable (\<lambda>t. (0 < t \<and> 30 * t < 2 ^ 31) \<and> 0 < t) (\<lambda>m. m \<le> 1792)) c"
    proof (rule list.pred_mono_strong)
      fix q assume "acceptable (\<lambda>t. 0 < t \<and> 30 * t < 2 ^ 31) (\<lambda>m. m \<le> 1792) q"
      then show "acceptable (\<lambda>t. (0 < t \<and> 30 * t < 2 ^ 31) \<and> 0 < t) (\<lambda>m. m \<le> 1792) q"
        by (cases q) simp_all
    qed
  qed
  have bits: "drv_max_vector_bits (txvcDriverWrapper ?drv) ?w = 8 * chipBufferBytes d1"
    by (simp add: txvcDriverWrapper_def driver_ftdi_generic_def max_vector_bits_def)
  have srv': "serve_all junk (drv_max_vector_bits (txvcDriverWrapper ?drv) ?w)
      (wrapper_tck_view (\<lambda>t v. (nearest_period t, v)))
      (wrapper_shift_view (\<lambda>t v. (nearest_period t, v)) (cable_view clk)) cs
      (wr_tck ?w, wr_shift ?w, ftdi_view (wr_state ?w)) = (as, v')"
    using srv by (simp add: bits ftdi_view_def)
  obtain n' w' where run: "txvc_run_server inet_aton (ref_os junk) (cf_serverAddr config)
      (txvcDriverWrapper ?drv) n ?w = Some (Ok (n', w'))"
    "answered n' = answered n @ as" "pending n' = []" "ftdi_ready clk (ref_d2xx clk) (wr_state w')"
    using wrapped_ftdi.wrapper.server_answers [OF addr ready cs' cs(2,3) srv'] by blast
  obtain sp2 d2 where s2: "wr_state w' = (sp2, d2)" by (cases "wr_state w'")
  then have "ready 1792 clk (ref_d2xx clk) sp2 d2" using run(4) by (simp add: ftdi_ready_def)
  then obtain sp3 d3 fs where off: "deactivate (ref_d2xx clk) sp2 d2 = Ok (True, sp3, d3, fs)" "sp_cb sp3 = None"
    using deactivate_ready by blast
  then have "drv_deactivate (txvcDriverWrapper ?drv) w' = Ok (True, w'\<lparr>wr_state := (sp3, d3)\<rparr>)"
    by (simp add: txvcDriverWrapper_def driver_ftdi_generic_def ftdi_deactivate_def on_state_def s2)
  moreover have "drv_activate ?drv args (sp, d) = Ok (True, sp1, d1)"
    using act(1) by (simp add: driver_ftdi_generic_def ftdi_activate_def)
  moreover have "txvc_driver_wrapper_setup ?drv (cf_tckPeriodNanos config) (sp1, d1) = Ok ?w"
    by (simp add: txvc_driver_wrapper_setup_def tck)
  ultimately show ?thesis
    using run(1-3) off(2) deactivate_closes [OF off(1)] by (simp add: run_driver_def run_active_def)
qed

text \<open>C1. From the command line to the JTAG target: started by an ordinary user with a profile or
  alias that describes the attached reference chip, no enforced period and a well-formed address,
  the program activates the driver, accepts its clients one after the other and, as long as their
  requests stay within what the driver can do, sends each exactly the answers of the XVC protocol:
  the vector size, the nearest TCK period, and for a shift the TDO bits of the target clocked as
  the cable specification says, with the default period set before a first vector. When the user
  stops it, it deactivates the driver (the splitter has no callback any more, the chip is out of
  MPSSE mode and closed) and exits with success.\<close>
theorem main_serves_clients:
  fixes d :: "'d chip ftdi"
  assumes user: "uid \<noteq> 0" "euid \<noteq> 0"
    and config: "txvc_load_config getenv args = Some config" "\<not> help_wanted config"
      "cf_profile config = Some prof" "cf_tckPeriodNanos config = 0"
      "parse_address inet_aton (cf_serverAddr config) = Some (addr, port)" "log_env_ok getenv"
    and profile: "profile_object profile" "NUL \<notin> set (resolve_alias prof)"
      "parse_spec (resolve_alias prof) = Some (''ftdi-generic'', drvArgs)"
    and chip: "load_config drvArgs (fd_params d) = (True, p)" "select_chip p = Some (k, Some c)"
      "c = CHR 0x00 \<or> c = CHR ''A''"
      "malloc 65536 = Some a" "unat a + 65536 < 2 ^ 63" "malloc 131072 = Some b" "unat b + 131072 < 2 ^ 63"
      "ch_acc (world (fd_io d)) = []" "ch_out (world (fd_io d)) = []"
    and clients: "\<forall>c \<in> set cs. list_all (acceptable (\<lambda>t. 0 < t \<and> 30 * t < 2 ^ 31) (\<lambda>m. m \<le> 1792)) c"
      "inbox n = []" "pending n = map (\<lambda>c. concat (map encode c)) cs"
    and answers: "serve_all junk (8 * k) (wrapper_tck_view (\<lambda>t v. (nearest_period t, v)))
      (wrapper_shift_view (\<lambda>t v. (nearest_period t, v)) (cable_view clk)) cs
      (Onetime_set_tck_period, Onetime_shift_bits, TEST_LOGIC_RESET, False,
       snd (clocks clk (replicate 5 (True, False)) (ch_dev (world (fd_io d))))) = (as, v')"
  shows "\<exists>n' s'. snd (main malloc (ref_d2xx clk) inet_aton (ref_os junk) profile project getenv uid euid progname args g n (sp, d))
      = Some (Ok (EXIT_SUCCESS, n', s')) \<and> answered n' = answered n @ as \<and> pending n' = []
    \<and> sp_cb (fst s') = None \<and> \<not> ch_open (world (fd_io (snd s'))) \<and> ch_mode (world (fd_io (snd s'))) = 0"
proof -
  obtain sp1 d1 where act: "activate malloc (ref_d2xx clk) drvArgs sp d = Ok (True, sp1, d1)"
    "ready 1792 clk (ref_d2xx clk) sp1 d1" "sp_state sp1 = TEST_LOGIC_RESET"
    "ch_dev (world (fd_io d1)) = snd (clocks clk (replicate 5 (True, False)) (ch_dev (world (fd_io d))))"
    "lastTdi d1 = False" "chipBufferBytes d1 = k" "highSpeedCapable d1"
    using activate_main [OF chip, of clk sp] by blast
  have "4 \<le> k" using chip(2) by (auto simp: select_chip_def split: if_splits)
  then have big: "4 \<le> chipBufferBytes d1" by (simp add: act(6))
  have srv: "serve_all junk (8 * chipBufferBytes d1) (wrapper_tck_view (\<lambda>t v. (nearest_period t, v)))
      (wrapper_shift_view (\<lambda>t v. (nearest_period t, v)) (cable_view clk)) cs
      (Onetime_set_tck_period, Onetime_shift_bits, sp_state sp1, lastTdi d1, ch_dev (world (fd_io d1)))
      = (as, v')"
    using answers by (simp add: act(3-6))
  let ?g = "configure_logger config g"
  obtain ok out where parse: "txvc_backend_profile_parse (resolve_alias prof) profile = Ok (ok, out)"
    "(if ok then Some (driver_view out, args_view out) else None) = parse_spec (resolve_alias prof)"
    using profile_parse_correct [OF profile(1,2)] by blast
  have run: "run_profile malloc (ref_d2xx clk) inet_aton (ref_os junk) profile config (resolve_alias prof) g' tag n (sp, d)
      = run_driver inet_aton (ref_os junk) config (driver_ftdi_generic malloc (ref_d2xx clk)) ''ftdi-generic''
          drvArgs g' tag n (sp, d)" for g' tag
    using profile(3) parse
    by (auto simp: run_profile_def txvc_enumerate_drivers_def gDrivers_def find_by_name_def
        driver_echo_def driver_ftdi_generic_def Let_def split: if_splits)
  obtain n' s' where served: "run_driver inet_aton (ref_os junk) config (driver_ftdi_generic malloc (ref_d2xx clk))
      ''ftdi-generic'' drvArgs ?g tag n (sp, d) = Some (Ok (EXIT_SUCCESS, n', s'))"
    "answered n' = answered n @ as" "pending n' = []"
    "sp_cb (fst s') = None" "\<not> ch_open (world (fd_io (snd s')))" "ch_mode (world (fd_io (snd s'))) = 0" for tag
    using run_driver_serves [OF act(1,2,7) big config(4,5) clients srv] by blast
  have "expand_alias ?g (TXVC_LOG_TAG_INITIALIZER ''txvc'') prof (\<lambda>tag p.
      if cf_tckPeriodNanos config < 0 then Some (Ok (EXIT_FAILURE, n, sp, d))
      else run_profile malloc (ref_d2xx clk) inet_aton (ref_os junk) profile config p ?g tag n (sp, d))
      = Some (Ok (EXIT_SUCCESS, n', s'))"
    by (intro expand_alias_returns env_main_logs [OF config(1,6)]) (simp add: config(4) run served(1))
  then show ?thesis
    using served(2-) by (simp add: main_runs [OF user config(1,2)] config(3))
qed

theorem main_serves_clients_witness:
  "\<exists>n' s'. snd (main (\<lambda>sz. if sz = 65536 then Some 0x10000 else Some 0x20000) (ref_d2xx bypass)
      (\<lambda>_. Some 0x7f000001) (ref_os (\<lambda>_. 0))
      \<lparr>driverName = 0, numArg = 0, argKeys = replicate 32 Empty_lit,
       argValues = replicate 32 Empty_lit, privateScratchpad = replicate 1024 NUL\<rparr> (tinyxvc ''1.0'')
      (\<lambda>_. None) 1000 1000 ''txvc'' [''-p'', ''ft232h'']
      \<lparr>gMinLevel = LOG_LEVEL_INFO, gColor = False, gTagSpec = None, gCurConfigId = 0,
       gWithTimestamps = False\<rparr>
      \<lparr>inbox = [], outbox = [],
       pending = [encode (Ask_shift 8 [0x82] [0x57]) @ encode (Ask_tck 100)], answered = []\<rparr>
      (\<lparr>sp_state = SHIFT_DR, sp_cb = None\<rparr>, ref_driver Map.empty (idle_chip True)))
    = Some (Ok (EXIT_SUCCESS, n', s')) \<and> answered n' = [[0xa0, 100, 0, 0, 0]]
    \<and> \<not> ch_open (world (fd_io (snd s')))"
proof -
  let ?d = "ref_driver Map.empty (idle_chip True)"
  let ?r = "\<lparr>device = FT_DEVICE_2232H, vid = 0x403, pid = 0x6010, channel = CHR ''A'',
       read_latency_millis = 16, d_pins = replicate 8 PIN_ROLE_OTHER_IGNORED\<rparr>"
  let ?args = "alias_args ''ft232h'' ''0403'' ''6014'' ''A'' ''ignored''"
  let ?cf = "default_config\<lparr>cf_profile := Some ''ft232h'', cf_logTagSpec := ''all+''\<rparr>"
  have cf: "txvc_load_config (\<lambda>_. None) [''-p'', ''ft232h''] = Some ?cf" by code_simp
  have addr: "parse_address (\<lambda>_. Some 0x7f000001) (cf_serverAddr ?cf) = Some (0x7f000001, 2542)" by code_simp
  have env: "log_env_ok (\<lambda>_. None)"
    using default_log_spec_ok by (simp add: log_env_ok_def DEFAULT_LOG_TAG_SPEC_def)
  have prof: "NUL \<notin> set (resolve_alias ''ft232h'')"
    "parse_spec (resolve_alias ''ft232h'') = Some (''ftdi-generic'', ?args)" by code_simp+
  have p: "fst (load_config ?args ?r)" "select_chip (snd (load_config ?args ?r)) = Some (1024, Some (CHR 0x00))"
    by code_simp+
  have "fd_params ?d = ?r" by (simp add: ref_driver_def)
  then have cfg: "load_config ?args (fd_params ?d) = (True, snd (load_config ?args ?r))"
    using p(1) by (cases "load_config ?args ?r") simp
  have ans: "serve_all (\<lambda>_. 0) (8 * 1024) (wrapper_tck_view (\<lambda>t v. (nearest_period t, v)))
      (wrapper_shift_view (\<lambda>t v. (nearest_period t, v)) (cable_view bypass))
      [[Ask_shift 8 [0x82] [0x57], Ask_tck 100]]
      (Onetime_set_tck_period, Onetime_shift_bits, TEST_LOGIC_RESET, False,
       snd (clocks bypass (replicate 5 (True, False)) True))
    = ([[160, 100, 0, 0, 0]], Driver_set_tck_period, Driver_shift_bits, EXIT_1_DR, False, False)"
    by code_simp
  have ok: "\<forall>c \<in> set [[Ask_shift 8 [0x82] [0x57], Ask_tck 100]].
      list_all (acceptable (\<lambda>t. 0 < t \<and> 30 * t < 2 ^ 31) (\<lambda>m. m \<le> 1792)) c"
    by (simp add: bytesPerVector_def)
  have obj: "profile_object \<lparr>driverName = 0, numArg = 0, argKeys = replicate 32 Empty_lit,
       argValues = replicate 32 Empty_lit, privateScratchpad = replicate 1024 NUL\<rparr>"
    by (simp add: profile_object_def)
  let ?m = "\<lambda>sz :: u64. if sz = 65536 then Some 0x10000 else Some (0x20000 :: u64)"
  let ?n = "\<lparr>inbox = [], outbox = [],
    pending = [encode (Ask_shift 8 [0x82] [0x57]) @ encode (Ask_tck 100)], answered = []\<rparr>"
  have cf2: "\<not> help_wanted ?cf" "cf_profile ?cf = Some ''ft232h''" "cf_tckPeriodNanos ?cf = 0"
    by (simp_all add: help_wanted_def default_config_def)
  have m: "CHR 0x00 = CHR 0x00 \<or> CHR 0x00 = CHR ''A''" "?m 65536 = Some 0x10000"
    "unat (0x10000 :: u64) + 65536 < 2 ^ 63" "?m 131072 = Some 0x20000"
    "unat (0x20000 :: u64) + 131072 < 2 ^ 63" by simp_all
  have dev: "ch_dev (world (fd_io ?d)) = True" "ch_acc (world (fd_io ?d)) = []" "ch_out (world (fd_io ?d)) = []"
    by (simp_all add: ref_driver_fields idle_chip_fields)
  have n: "inbox ?n = []"
    "pending ?n = map (\<lambda>c. concat (map encode c)) [[Ask_shift 8 [0x82] [0x57], Ask_tck 100]]"
    by (simp_all del: encode.simps)
  have u: "(1000 :: nat) \<noteq> 0" by simp
  have "\<exists>n' s'. snd (main ?m (ref_d2xx bypass) (\<lambda>_. Some 0x7f000001) (ref_os (\<lambda>_. 0))
      \<lparr>driverName = 0, numArg = 0, argKeys = replicate 32 Empty_lit,
       argValues = replicate 32 Empty_lit, privateScratchpad = replicate 1024 NUL\<rparr> (tinyxvc ''1.0'')
      (\<lambda>_. None) 1000 1000 ''txvc'' [''-p'', ''ft232h'']
      \<lparr>gMinLevel = LOG_LEVEL_INFO, gColor = False, gTagSpec = None, gCurConfigId = 0,
       gWithTimestamps = False\<rparr> ?n (\<lparr>sp_state = SHIFT_DR, sp_cb = None\<rparr>, ?d))
    = Some (Ok (EXIT_SUCCESS, n', s')) \<and> answered n' = answered ?n @ [[160, 100, 0, 0, 0]] \<and> pending n' = []
    \<and> sp_cb (fst s') = None \<and> \<not> ch_open (world (fd_io (snd s'))) \<and> ch_mode (world (fd_io (snd s'))) = 0"
    by (rule main_serves_clients [OF u u cf cf2 addr env obj prof cfg p(2) m dev(2,3) ok n])
       (simp only: dev(1) ans)
  then show ?thesis by (simp del: encode.simps) blast
qed

end
