(* ===== verification/Main_Startup.thy ===== *)
theory Main_Startup
  imports Txvc_Main
begin

text \<open>
  Starting and refusing to start (\<open>main\<close> of \<open>txvc/txvc.c\<close>): which driver a command line selects,
  with which exit status the program refuses one, and that it is safe with the echo driver.
\<close>

subsection \<open>What the command line hands on\<close>

definition nul_free :: "string \<Rightarrow> bool" where
  "nul_free s \<longleftrightarrow> NUL \<notin> set s"

lemma nul_free_simps [simp]:
  "nul_free []" "nul_free (c # s) \<longleftrightarrow> c \<noteq> NUL \<and> nul_free s"
  by (auto simp: nul_free_def)

lemma nul_free_tl [simp]: "nul_free s \<Longrightarrow> nul_free (tl s)"
  by (cases s) simp_all

fun opt_nul_free :: "opt \<Rightarrow> bool" where
  "opt_nul_free (Opt c arg) = nul_free arg"
| "opt_nul_free Bad_opt = True"

lemma getopt_nul_frees:
  "nul_free cluster \<Longrightarrow> list_all nul_free args \<Longrightarrow>
   list_all opt_nul_free (fst (getopt_args optstr cluster args))"
  by (induction optstr cluster args rule: getopt_args.induct)
     (auto split: option.split bool.split prod.split list.split)

text \<open>What holds of every configuration read from C strings.\<close>

definition config_ok :: "config \<Rightarrow> bool" where
  "config_ok cf \<longleftrightarrow> (\<forall>p. cf_profile cf = Some p \<longrightarrow> nul_free p) \<and> cf_tckPeriodNanos cf < 2 ^ 31"

lemma config_ok_simps [simp]:
  "config_ok (cf\<lparr>cf_help := b\<rparr>) = config_ok cf"
  "config_ok (cf\<lparr>cf_serverAddr := a\<rparr>) = config_ok cf"
  "config_ok (cf\<lparr>cf_helpDrivers := b\<rparr>) = config_ok cf"
  "config_ok (cf\<lparr>cf_helpAliases := b\<rparr>) = config_ok cf"
  "config_ok (read_env getenv cf) = config_ok cf"
  by (simp_all add: config_ok_def read_env_def)

lemma parse_int_less: "parse_int s < 2 ^ 31"
  using sint_lt [where 'a = 32] by (auto simp: parse_int_def INT_MIN_def split: prod.split)

lemma apply_options_ok:
  "apply_options os cf = Some cf' \<Longrightarrow> list_all opt_nul_free os \<Longrightarrow> config_ok cf \<Longrightarrow> config_ok cf'"
  by (induction os cf rule: apply_options.induct)
     (auto simp: config_ok_def parse_int_less [simplified] split: if_splits)

lemma load_config_ok:
  assumes "txvc_load_config getenv args = Some cf" "list_all nul_free args"
  shows "config_ok cf"
proof -
  have "config_ok default_config" by (simp add: config_ok_def default_config_def)
  then show ?thesis
    using assms getopt_nul_frees [of "[]" args cli_optstr]
    by (auto simp: txvc_load_config_def split: prod.splits option.splits if_splits
        dest: apply_options_ok)
qed

lemma alias_nul_free: "list_all (\<lambda>(name, a). nul_free (al_profile a)) gAliases"
  by code_simp

lemma find_alias_mem: "find_alias as name = Some a \<Longrightarrow> (name, a) \<in> set as"
  by (induction as) (auto split: if_splits)

lemma resolve_alias_nul_free:
  assumes "nul_free p"
  shows "nul_free (resolve_alias p)"
  using assms alias_nul_free
  by (auto simp: resolve_alias_def txvc_find_alias_by_name_def list_all_iff
      dest: find_alias_mem split: option.split)

subsection \<open>Which driver is started\<close>

text \<open>Either the exit status with which the program refuses, or the configuration with the name of
  the driver and its arguments.\<close>

definition startup ::
  "(string \<Rightarrow> string option) \<Rightarrow> nat \<Rightarrow> nat \<Rightarrow> string list \<Rightarrow>
   int + config \<times> string \<times> (string \<times> string) list" where
  "startup getenv uid euid args =
     (if uid = 0 \<or> euid = 0 then Inl EXIT_FAILURE
      else case txvc_load_config getenv args of
        None \<Rightarrow> Inl EXIT_FAILURE
      | Some config \<Rightarrow>
          if help_wanted config then Inl EXIT_SUCCESS
          else if cf_tckPeriodNanos config < 0 then Inl EXIT_FAILURE
          else case Option.bind (cf_profile config) (\<lambda>p. parse_spec (resolve_alias p)) of
            None \<Rightarrow> Inl EXIT_FAILURE
          | Some (name, drvArgs) \<Rightarrow>
              if name = ''echo'' \<or> name = ''ftdi-generic'' then Inr (config, name, drvArgs)
              else Inl EXIT_FAILURE)"

lemma driver_names [simp]:
  "drv_name driver_echo = ''echo''" "drv_name (driver_ftdi_generic malloc dx) = ''ftdi-generic''"
  by (simp_all add: driver_echo_def driver_ftdi_generic_def)

text \<open>What becomes of a driver.\<close>

definition drive ::
  "(string \<Rightarrow> u32 option) \<Rightarrow> 'n os \<Rightarrow> config \<Rightarrow> 's driver \<Rightarrow> (string \<times> string) list \<Rightarrow> 'n \<Rightarrow> 's \<Rightarrow>
   (int \<times> 'n \<times> 's) c_res option" where
  "drive inet_aton os config drv args n s =
     (case drv_activate drv args s of
        Fault e \<Rightarrow> Some (Fault e)
      | Ok (ok, s) \<Rightarrow> if ok then run_active inet_aton os config drv n s else Some (Ok (EXIT_FAILURE, n, s)))"

lemma error_returns: "main_logs g tag \<Longrightarrow> ERROR g tag msg (\<lambda>tag. r) = r"
  unfolding ERROR_def by (rule log_then_returns) simp_all

lemma run_driver_drives:
  "main_logs g tag \<Longrightarrow> run_driver inet_aton os config drv name args g tag n s = drive inet_aton os config drv args n s"
  by (simp add: run_driver_def drive_def error_returns cong: if_cong split: c_res.split)

lemma run_profile_selects:
  assumes "profile_object profile" "nul_free profileStr" "main_logs g tag"
  shows "run_profile malloc dx inet_aton os profile config profileStr g tag n s =
    (case parse_spec profileStr of
       None \<Rightarrow> Some (Ok (EXIT_FAILURE, n, s))
     | Some (name, drvArgs) \<Rightarrow>
         if name = ''echo'' then drive inet_aton os config driver_echo drvArgs n s
         else if name = ''ftdi-generic''
           then drive inet_aton os config (driver_ftdi_generic malloc dx) drvArgs n s
         else Some (Ok (EXIT_FAILURE, n, s)))"
proof -
  obtain ok out where out: "txvc_backend_profile_parse profileStr profile = Ok (ok, out)"
    "parse_spec profileStr = (if ok then Some (driver_view out, args_view out) else None)"
    using profile_parse_correct assms(1,2) unfolding nul_free_def by metis
  then show ?thesis
    using assms(3) by (simp add: run_profile_def txvc_enumerate_drivers_def gDrivers_def find_by_name_def
      run_driver_drives error_returns)
qed

lemma main_starts:
  assumes "profile_object profile" "list_all nul_free args" "log_env_ok getenv"
  shows "snd (main malloc dx inet_aton os profile project getenv uid euid progname args g n s) =
    (case startup getenv uid euid args of
       Inl status \<Rightarrow> Some (Ok (status, n, s))
     | Inr (config, name, drvArgs) \<Rightarrow>
         drive inet_aton os config
           (if name = ''echo'' then driver_echo else driver_ftdi_generic malloc dx) drvArgs n s)"
proof (cases "uid = 0 \<or> euid = 0 \<or> txvc_load_config getenv args = None")
  case True
  then show ?thesis by (auto simp: main_def startup_def)
next
  case False
  then obtain config where user: "uid \<noteq> 0" "euid \<noteq> 0"
    and config: "txvc_load_config getenv args = Some config" by auto
  show ?thesis
  proof (cases "help_wanted config")
    case True
    then show ?thesis
      using user by (simp add: main_def startup_def config case_prod_unfold print_help_wanted)
  next
    case False
    note runs = main_runs [OF user config False]
    show ?thesis
    proof (cases "cf_profile config")
      case None
      then show ?thesis using user False by (simp add: runs startup_def config)
    next
      case (Some p)
      have "nul_free p" using load_config_ok [OF config assms(2)] Some by (simp add: config_ok_def)
      note sel = run_profile_selects [OF assms(1) resolve_alias_nul_free [OF this]]
      have "expand_alias (configure_logger config g) (TXVC_LOG_TAG_INITIALIZER ''txvc'') p (\<lambda>tag p.
          if cf_tckPeriodNanos config < 0 then Some (Ok (EXIT_FAILURE, n, s))
          else run_profile malloc dx inet_aton os profile config p (configure_logger config g) tag n s)
        = (if cf_tckPeriodNanos config < 0 then Some (Ok (EXIT_FAILURE, n, s))
           else case parse_spec (resolve_alias p) of
             None \<Rightarrow> Some (Ok (EXIT_FAILURE, n, s))
           | Some (name, drvArgs) \<Rightarrow>
               if name = ''echo'' then drive inet_aton os config driver_echo drvArgs n s
               else if name = ''ftdi-generic''
                 then drive inet_aton os config (driver_ftdi_generic malloc dx) drvArgs n s
               else Some (Ok (EXIT_FAILURE, n, s)))"
        by (intro expand_alias_returns env_main_logs [OF config assms(3)]) (simp add: sel)
      then show ?thesis
        using user False Some by (simp add: runs startup_def config split: option.split prod.split)
    qed
  qed
qed

text \<open>C6. What \<open>main\<close> does with a command line: it refuses to start for the superuser, for options
  it does not know, without a profile, for a negative or malformed period, and for a profile that
  is malformed or names no driver, each with the failure status, and prints help with the success
  status; then neither the driver nor the network has been touched. In all other cases exactly
  the driver the profile names is run with the profile's arguments, whatever an alias has been
  expanded to. It prints the help that was asked for, and the usage for options it does not know.
  (The specification of the log tags has to be well-formed and to cover the program's tags.)\<close>
theorem main_startup:
  assumes "profile_object profile" "list_all nul_free args" "log_env_ok getenv"
  shows "snd (main malloc dx inet_aton os profile project getenv uid euid progname args g n s) =
    (case startup getenv uid euid args of
       Inl status \<Rightarrow> Some (Ok (status, n, s))
     | Inr (config, name, drvArgs) \<Rightarrow>
         drive inet_aton os config
           (if name = ''echo'' then driver_echo else driver_ftdi_generic malloc dx) drvArgs n s)
   \<and> snd (fst (main malloc dx inet_aton os profile project getenv uid euid progname args g n s)) =
    (if uid = 0 \<or> euid = 0 then []
     else case txvc_load_config getenv args of
       None \<Rightarrow> usage project progname
     | Some config \<Rightarrow> fst (print_help malloc dx project progname config))"
proof (rule conjI, rule main_starts [OF assms])
  show "snd (fst (main malloc dx inet_aton os profile project getenv uid euid progname args g n s)) =
    (if uid = 0 \<or> euid = 0 then []
     else case txvc_load_config getenv args of
       None \<Rightarrow> usage project progname
     | Some config \<Rightarrow> fst (print_help malloc dx project progname config))"
    by (simp add: main_def Let_def only_help_def print_help_def split: option.split)
qed

text \<open>A profile object as \<open>main\<close> has it on its stack.\<close>

definition blank_profile :: backend_profile where
  "blank_profile = \<lparr>driverName = 0, numArg = 0, argKeys = replicate 32 Empty_lit,
     argValues = replicate 32 Empty_lit, privateScratchpad = replicate 1024 NUL\<rparr>"

lemma blank_profile: "profile_object blank_profile"
  by (simp add: blank_profile_def profile_object_def)

definition no_clients :: peer where
  "no_clients = \<lparr>inbox = [], outbox = [], pending = [], answered = []\<rparr>"

definition fresh_ftdi :: "bool chip ftdi_state" where
  "fresh_ftdi = (\<lparr>sp_state = SHIFT_DR, sp_cb = None\<rparr>, ref_driver Map.empty (idle_chip True))"

lemma default_env_ok: "log_env_ok (\<lambda>_. None)"
  using default_log_spec_ok by (simp add: log_env_ok_def DEFAULT_LOG_TAG_SPEC_def)

theorem main_startup_witness:
  "snd (main (\<lambda>_. None) (ref_d2xx bypass) (\<lambda>_. Some 0) (ref_os (\<lambda>_. 7)) blank_profile (tinyxvc ''1.0'')
     (\<lambda>_. None) 1000 1000 ''txvc'' [''-p'', ''ftdi:device=ft232h''] logger_statics no_clients fresh_ftdi)
   = Some (Ok (EXIT_FAILURE, no_clients, fresh_ftdi))"
proof -
  have args: "list_all nul_free [''-p'', ''ftdi:device=ft232h'']" by code_simp
  have start: "startup (\<lambda>_. None) 1000 1000 [''-p'', ''ftdi:device=ft232h''] = Inl EXIT_FAILURE" by code_simp
  show ?thesis using start by (simp add: main_startup [OF blank_profile args default_env_ok, THEN conjunct1])
qed

subsection \<open>Safety\<close>

text \<open>Once it is configured the logger, whatever its specification is, returns, aborts, or never
  comes back; it does not leave defined behaviour.\<close>

lemma tag_enabled_safe:
  assumes "txvc_log_tag_enabled g tag = Some r" "gTagSpec g \<noteq> None"
  shows "c_safe r (\<lambda>_. True)"
  using assms(2)
proof (induction rule: txvc_log_tag_enabled.raw_induct [OF _ assms(1)])
  case (1 rec g tag r)
  have IH: "c_safe (c_bind x (\<lambda>_. Fault FatalAbort :: (bool \<times> log_tag) c_res)) (\<lambda>_. True)"
    if "rec g logger_tag = Some x" for x
    using 1(1) [OF that 1(3)] by (rule c_safe_bindI) simp
  show ?case
    using 1(2,3) IH by (auto split: if_splits option.splits bind_splits)
qed

lemma log_then_safe:
  assumes "log_then g tag level msg rest = Some r" "gTagSpec g \<noteq> None"
    and "\<And>tag' r. rest tag' = Some r \<Longrightarrow> c_safe r P"
  shows "c_safe r P"
proof (cases "txvc_log g tag level 0 msg")
  case (Some q)
  have "c_safe q (\<lambda>_. True)"
    using Some tag_enabled_safe [OF _ assms(2), of tag]
    by (auto simp: txvc_log_def split: if_splits bind_splits intro!: c_safe_bindI)
  then show ?thesis
    using assms(1,3) Some by (cases q) (auto simp: log_then_def split: prod.splits)
qed (use assms(1) in \<open>simp add: log_then_def\<close>)

definition exits :: "(int \<times> 'n \<times> 's) c_res \<Rightarrow> bool" where
  "exits r \<longleftrightarrow> c_safe r (\<lambda>(status, _). status = EXIT_SUCCESS \<or> status = EXIT_FAILURE)"

lemma exits_simps [simp]: "exits (Ok (EXIT_SUCCESS, n, s))" "exits (Ok (EXIT_FAILURE, n, s))"
  by (simp_all add: exits_def)

lemma message_exits:
  "INFO g tag msg rest = Some r \<Longrightarrow> gTagSpec g \<noteq> None \<Longrightarrow> (\<And>tag' r. rest tag' = Some r \<Longrightarrow> exits r) \<Longrightarrow> exits r"
  "ERROR g tag msg rest = Some r \<Longrightarrow> gTagSpec g \<noteq> None \<Longrightarrow> (\<And>tag' r. rest tag' = Some r \<Longrightarrow> exits r) \<Longrightarrow> exits r"
  unfolding INFO_def ERROR_def exits_def by (rule log_then_safe; assumption)+

lemma expand_alias_exits:
  assumes "expand_alias g tag p rest = Some r" "gTagSpec g \<noteq> None"
    and "\<And>tag' r. rest tag' (resolve_alias p) = Some r \<Longrightarrow> exits r"
  shows "exits r"
proof (cases "txvc_find_alias_by_name p")
  case (Some a)
  then have "resolve_alias p = al_profile a" by (simp add: resolve_alias_def)
  with assms(3) have rest: "rest tag' (al_profile a) = Some r \<Longrightarrow> exits r" for tag' r by simp
  show ?thesis
    using assms(1) Some by (auto simp: expand_alias_def dest!: message_exits(1) [OF _ assms(2)] intro: rest)
qed (use assms in \<open>simp add: expand_alias_def resolve_alias_def\<close>)

context wrapped_safe_driver
begin

lemma setup_safe:
  "invar s \<Longrightarrow> t < 2 ^ 31 \<Longrightarrow>
   c_safe (txvc_driver_wrapper_setup drv t s) (\<lambda>w. invar (wr_state w) \<and> wrapper_inv w)"
  unfolding txvc_driver_wrapper_setup_def Let_def
  by (auto simp: wrapper_inv_def intro!: c_safe_bindI [OF driver_tck_safe])

lemma drive_safe:
  assumes os: "os_ok os" and t: "cf_tckPeriodNanos config < 2 ^ 31"
    and act: "c_safe (drv_activate drv args s) (\<lambda>(ok, s'). ok \<longrightarrow> invar s')"
    and deact: "\<And>s. invar s \<Longrightarrow> c_safe (drv_deactivate drv s) (\<lambda>_. True)"
    and run: "drive inet_aton os config drv args n s = Some r"
  shows "c_safe r (\<lambda>(status, _). status = EXIT_SUCCESS \<or> status = EXIT_FAILURE)"
proof (cases "drv_activate drv args s")
  case (Fault e)
  then show ?thesis using act run by (auto simp: drive_def run_active_def)
next
  case (Ok x)
  obtain ok s1 where x: "x = (ok, s1)" by (cases x)
  show ?thesis
  proof (cases ok)
    case False
    then show ?thesis using Ok x run by (auto simp: drive_def run_active_def)
  next
    case True
    then have s1: "invar s1" using act Ok x by simp
    show ?thesis
    proof (cases "txvc_driver_wrapper_setup drv (cf_tckPeriodNanos config) s1")
      case (Fault e)
      then show ?thesis using setup_safe [OF s1 t] Ok x True run by (auto simp: drive_def run_active_def)
    next
      case w: (Ok w)
      then have winv: "invar (wr_state w) \<and> wrapper_inv w" using setup_safe [OF s1 t] by simp
      obtain q where q: "txvc_run_server inet_aton os (cf_serverAddr config) (txvcDriverWrapper drv) n w = Some q"
        using run Ok x True w by (auto simp: drive_def run_active_def split: option.splits)
      have safe: "c_safe q (\<lambda>(n', w'). invar (wr_state w') \<and> wrapper_inv w')"
        by (rule wrapper.run_server_safe [OF os q winv])
      have off: "c_safe (drv_deactivate (txvcDriverWrapper drv) w') (\<lambda>_. True)" if "invar (wr_state w')" for w'
        unfolding txvcDriverWrapper_def on_state_def driver.simps
        by (rule c_safe_bindI [OF deact [OF that]]) auto
      show ?thesis
      proof (cases q)
        case (Fault e)
        then show ?thesis using safe run Ok x True w q by (auto simp: drive_def run_active_def)
      next
        case (Ok y)
        obtain n' w' where y: "y = (n', w')" by (cases y)
        have "r = c_bind (drv_deactivate (txvcDriverWrapper drv) w') (\<lambda>(_, w). Ok (EXIT_SUCCESS, n', wr_state w))"
          using run \<open>drv_activate drv args s = Ok x\<close> x True w q Ok y by (simp add: drive_def run_active_def)
        moreover have "invar (wr_state w')" using safe Ok y by simp
        ultimately show ?thesis by (auto intro: c_safe_bindI [OF off])
      qed
    qed
  qed
qed

end

lemma startup_config:
  "startup getenv uid euid args = Inr (config, name, drvArgs) \<Longrightarrow> list_all nul_free args \<Longrightarrow>
   config_ok config \<and> (name = ''echo'' \<or> name = ''ftdi-generic'')"
  using load_config_ok by (auto simp: startup_def split: if_splits option.splits)

lemma run_driver_exits:
  assumes "run_driver inet_aton os config drv name args g tag n s = Some r" "gTagSpec g \<noteq> None"
    and "\<And>r. drive inet_aton os config drv args n s = Some r \<Longrightarrow> exits r"
  shows "exits r"
proof (cases "drv_activate drv args s")
  case (Ok x)
  obtain ok s1 where x: "x = (ok, s1)" by (cases x)
  show ?thesis
  proof (cases ok)
    case False
    then have "ERROR g tag (''Failed to activate driver '' @ quote name @ newline)
        (\<lambda>tag. Some (Ok (EXIT_FAILURE, n, s1))) = Some r"
      using assms(1) Ok x by (simp add: run_driver_def)
    then show ?thesis by (rule message_exits(2) [OF _ assms(2)]) auto
  qed (use assms Ok x in \<open>simp add: run_driver_def drive_def\<close>)
qed (use assms in \<open>simp add: run_driver_def drive_def\<close>)

lemma run_profile_exits:
  assumes "run_profile malloc dx inet_aton os profile config p g tag n s = Some r" "gTagSpec g \<noteq> None"
    and "profile_object profile" "nul_free p"
    and "\<And>name drvArgs drv r. parse_spec p = Some (name, drvArgs) \<Longrightarrow> drv \<in> set (gDrivers malloc dx) \<Longrightarrow>
      drv_name drv = name \<Longrightarrow> drive inet_aton os config drv drvArgs n s = Some r \<Longrightarrow> exits r"
  shows "exits r"
proof -
  obtain ok out where out: "txvc_backend_profile_parse p profile = Ok (ok, out)"
    "parse_spec p = (if ok then Some (driver_view out, args_view out) else None)"
    using profile_parse_correct assms(3,4) unfolding nul_free_def by metis
  show ?thesis
  proof (cases ok)
    case True
    show ?thesis
    proof (cases "txvc_enumerate_drivers malloc dx find_by_name (driver_view out)")
      case None
      then have "ERROR g tag (''Can not find driver '' @ quote (driver_view out) @ newline)
          (\<lambda>tag. Some (Ok (EXIT_FAILURE, n, s))) = Some r"
        using assms(1) out True by (simp add: run_profile_def)
      then show ?thesis by (rule message_exits(2) [OF _ assms(2)]) auto
    next
      case (Some drv)
      then have drv: "drv \<in> set (gDrivers malloc dx)" "drv_name drv = driver_view out"
        by (auto simp: txvc_enumerate_drivers_def gDrivers_def find_by_name_def split: if_splits)
      have "run_driver inet_aton os config drv (driver_view out) (args_view out) g tag n s = Some r"
        using assms(1) out True Some by (simp add: run_profile_def)
      then show ?thesis by (rule run_driver_exits [OF _ assms(2)]) (use assms(5) drv out True in auto)
    qed
  qed (use assms(1) out in \<open>auto simp: run_profile_def\<close>)
qed

lemma main_exits:
  assumes "profile_object profile" "list_all nul_free args" "os_ok os"
    and "\<forall>config name drvArgs. startup getenv uid euid args = Inr (config, name, drvArgs)
      \<longrightarrow> name = ''echo''"
    and "snd (main malloc dx inet_aton os profile project getenv uid euid progname args g n s) = Some r"
  shows "c_safe r (\<lambda>(status, _). status = EXIT_SUCCESS \<or> status = EXIT_FAILURE)"
proof -
  have "exits r"
  proof (cases "uid = 0 \<or> euid = 0 \<or> txvc_load_config getenv args = None")
    case True
    then show ?thesis using assms(5) by (auto simp: main_def split: if_splits)
  next
    case False
    then obtain config where user: "uid \<noteq> 0" "euid \<noteq> 0"
      and config: "txvc_load_config getenv args = Some config" by auto
    note good = load_config_ok [OF config assms(2)]
    show ?thesis
    proof (cases "help_wanted config")
      case True
      then show ?thesis
        using user assms(5) by (auto simp: main_def config case_prod_unfold print_help_wanted)
    next
      case runs_on: False
      let ?g = "configure_logger config g"
      have g: "gTagSpec ?g \<noteq> None" by (simp add: configure_logger_def txvc_log_configure_def)
      note runs = assms(5) [unfolded main_runs [OF user config runs_on]]
      show ?thesis
      proof (cases "cf_profile config")
        case None
        then show ?thesis using runs by auto
      next
        case (Some p)
        have p: "nul_free (resolve_alias p)"
          using good Some by (intro resolve_alias_nul_free) (simp add: config_ok_def)
        have rest: "exits q"
          if "(if cf_tckPeriodNanos config < 0 then Some (Ok (EXIT_FAILURE, n, s))
            else run_profile malloc dx inet_aton os profile config (resolve_alias p) ?g tag n s) = Some q" for tag q
        proof (cases "cf_tckPeriodNanos config < 0")
          case period: False
          then have "run_profile malloc dx inet_aton os profile config (resolve_alias p) ?g tag n s = Some q"
            using that by simp
          then show ?thesis
          proof (rule run_profile_exits [OF _ g assms(1) p])
            fix name drvArgs drv q
            assume prof: "parse_spec (resolve_alias p) = Some (name, drvArgs)"
              and drv: "drv \<in> set (gDrivers malloc dx)" "drv_name drv = name"
              and run: "drive inet_aton os config drv drvArgs n s = Some q"
            have "name = ''echo'' \<or> name = ''ftdi-generic''" using drv by (auto simp: gDrivers_def)
            then have "startup getenv uid euid args = Inr (config, name, drvArgs)"
              using user config runs_on period Some prof by (simp add: startup_def)
            then have "name = ''echo''" using assms(4) by blast
            then have "drv = driver_echo" using drv by (auto simp: gDrivers_def)
            then show "exits q"
              using run good unfolding exits_def
              by (intro wrapped_echo.drive_safe [OF assms(3)])
                 (simp_all add: driver_echo_def echo_activate_def echo_deactivate_def config_ok_def)
          qed
        qed (use that in auto)
        have "expand_alias ?g (TXVC_LOG_TAG_INITIALIZER ''txvc'') p (\<lambda>tag p.
            if cf_tckPeriodNanos config < 0 then Some (Ok (EXIT_FAILURE, n, s))
            else run_profile malloc dx inet_aton os profile config p ?g tag n s) = Some r"
          using runs Some by simp
        then show ?thesis by (rule expand_alias_exits [OF _ g]) (rule rest)
      qed
    qed
  qed
  then show ?thesis by (simp only: exits_def)
qed

text \<open>C5. Unless it is started on an FTDI chip the whole program is safe, from its command line
  to its exit: whatever the arguments are and the environment, however the operating system and
  the clients behave, if \<open>main\<close> returns, then with one of its two statuses or because the logger
  aborts it; it never runs into undefined behaviour. A specification of the log tags that is not
  well-formed, or does not cover the program's tags, can only make it abort or never return.\<close>
theorem main_safe:
  assumes "profile_object profile" "list_all nul_free args" "os_ok os"
    and "\<forall>config name drvArgs. startup getenv uid euid args = Inr (config, name, drvArgs)
      \<longrightarrow> name = ''echo''"
    and "snd (main malloc dx inet_aton os profile project getenv uid euid progname args g n s) = Some r"
  shows "c_safe r (\<lambda>(status, _). status = EXIT_SUCCESS \<or> status = EXIT_FAILURE)"
  using assms by (rule main_exits)

interpretation wrapped_echo_serves: wrapped_served_driver driver_echo "\<lambda>s. True" "\<lambda>t. 0 < t" "\<lambda>n. True"
  "\<lambda>s. s" "\<lambda>t s. (t, s)" echo_view
  by unfold_locales (simp add: DEFAULT_TCK_PERIOD_def)

theorem main_safe_witness:
  "\<exists>r. snd (main (\<lambda>_. None) (ref_d2xx bypass) (\<lambda>_. Some 0) (ref_os (\<lambda>_. 7)) blank_profile (tinyxvc ''1.0'')
      (\<lambda>_. None) 1000 1000 ''txvc'' [''-p'', ''echo''] logger_statics
      \<lparr>inbox = [], outbox = [], pending = [encode (Ask_shift 9 [1, 2] [3, 4])], answered = []\<rparr> fresh_ftdi) = Some r
    \<and> c_safe r (\<lambda>(status, _). status = EXIT_SUCCESS \<or> status = EXIT_FAILURE)"
proof -
  let ?n = "\<lparr>inbox = [], outbox = [], pending = [encode (Ask_shift 9 [1, 2] [3, 4])], answered = []\<rparr>"
  let ?cf = "default_config\<lparr>cf_profile := Some ''echo'', cf_logTagSpec := ''all+''\<rparr>"
  let ?w = "\<lparr>wr_tck = Onetime_set_tck_period, wr_shift = Onetime_shift_bits, wr_orig = True, wr_state = fresh_ftdi\<rparr>"
  let ?qs = "[[Ask_shift 9 [1, 2] [3, 4]]]"
  have args: "list_all nul_free [''-p'', ''echo'']" by code_simp
  have start: "startup (\<lambda>_. None) 1000 1000 [''-p'', ''echo''] = Inr (?cf, ''echo'', [])" by code_simp
  have addr: "parse_address (\<lambda>_. Some 0) (cf_serverAddr ?cf) = Some (0, 2542)" by code_simp
  have qs: "\<forall>c \<in> set ?qs. list_all (acceptable (\<lambda>t. 0 < t \<and> 0 < t) (\<lambda>n. True)) c"
    by (simp add: bytesPerVector_def)
  have n: "inbox ?n = []" "pending ?n = map (\<lambda>c. concat (map encode c)) ?qs"
    by (simp_all del: encode.simps)
  have w: "True \<and> wrapper_inv ?w" by (simp add: wrapper_inv_def)
  obtain n' w' where run: "txvc_run_server (\<lambda>_. Some 0) (ref_os (\<lambda>_. 7)) (cf_serverAddr ?cf)
      (txvcDriverWrapper driver_echo) ?n ?w = Some (Ok (n', w'))"
    using wrapped_echo_serves.wrapper.server_answers [OF addr w qs n surjective_pairing] by blast
  have "drive (\<lambda>_. Some 0) (ref_os (\<lambda>_. 7)) ?cf driver_echo [] ?n fresh_ftdi = Some (Ok (EXIT_SUCCESS, n', wr_state w'))"
    using run by (simp add: drive_def run_active_def driver_echo_def echo_activate_def txvc_driver_wrapper_setup_def
        default_config_def txvcDriverWrapper_def on_state_def echo_deactivate_def)
  then have r: "snd (main (\<lambda>_. None) (ref_d2xx bypass) (\<lambda>_. Some 0) (ref_os (\<lambda>_. 7)) blank_profile (tinyxvc ''1.0'') (\<lambda>_. None)
      1000 1000 ''txvc'' [''-p'', ''echo''] logger_statics ?n fresh_ftdi) = Some (Ok (EXIT_SUCCESS, n', wr_state w'))"
    by (simp add: main_starts [OF blank_profile args default_env_ok] start)
  have echo: "\<forall>config name drvArgs. startup (\<lambda>_. None) 1000 1000 [''-p'', ''echo''] = Inr (config, name, drvArgs)
      \<longrightarrow> name = ''echo''" by (simp add: start)
  show ?thesis using r main_safe [OF blank_profile args ref_os_ok echo r] by blast
qed

subsection \<open>A bad specification of the log tags\<close>

text \<open>C8. Started with a profile that is the name of an alias, and with a \<open>TXVC_LOG_SPEC\<close> that is
  malformed, as one without any sign is, or does not cover the program's own tag, the program is
  taken down by its first message, which tells of the alias: it never
  opens the driver or the network, but runs into the endless recursion of the logger, or into its
  abort if the specification is well-formed and resolves at least the tag \<open>logger\<close>.\<close>
theorem main_bad_log_spec:
  assumes "uid \<noteq> 0" "euid \<noteq> 0"
    and config: "txvc_load_config getenv args = Some config" "\<not> help_wanted config"
      "cf_profile config = Some p" "txvc_find_alias_by_name p = Some a"
    and spec: "cf_logTagSpec config = spec_str es @ leftover" "list_all (plain_name \<circ> fst) es"
      "plain_name leftover" "leftover \<noteq> [] \<or> resolve ''txvc'' es None = None"
    and "gCurConfigId g = 0"
  shows "snd (main malloc dx inet_aton os profile project getenv uid euid progname args g n s) =
    (if leftover \<noteq> [] \<or> resolve ''logger'' es None = None then None else Some (Fault FatalAbort))"
proof -
  let ?g = "configure_logger config g"
  let ?tag = "TXVC_LOG_TAG_INITIALIZER ''txvc''"
  have g: "gTagSpec ?g = Some (spec_str es @ leftover)" "gCurConfigId ?g \<noteq> 0" "gMinLevel ?g \<le> LOG_LEVEL_INFO"
    using spec(1) assms(11) by (simp_all add: configure_logger_def txvc_log_configure_def less_eq_log_level_def)
  have tag: "isEnabled ?tag = Fn_txvc_log_tag_enabled" "tag_str ?tag = ''txvc''"
    by (simp_all add: TXVC_LOG_TAG_INITIALIZER_def)
  have log: "txvc_log ?g ?tag LOG_LEVEL_INFO 0 msg
      = (if leftover \<noteq> [] \<or> resolve ''logger'' es None = None then None else Some (Fault FatalAbort))" for msg
  proof (cases "leftover \<noteq> [] \<or> resolve ''logger'' es None = None")
    case True
    then have "leftover \<noteq> [] \<or> resolve ''logger'' es None = None \<and> resolve (tag_str ?tag) es None = None"
      using spec(4) tag(2) by auto
    from malformed_spec_no_return [OF this g(1) spec(2,3) g(2) tag(1) g(3)] show ?thesis using True by simp
  next
    case False
    then obtain on where "resolve ''logger'' es None = Some on" by blast
    moreover have "resolve (tag_str ?tag) es None = None" "gTagSpec ?g = Some (spec_str es)"
      using False spec(4) tag(2) g(1) by simp_all
    ultimately show ?thesis
      using False unresolved_tag_aborts [OF _ _ _ spec(2) g(2) tag(1) g(3)] by simp
  qed
  have "expand_alias ?g ?tag p rest
      = (if leftover \<noteq> [] \<or> resolve ''logger'' es None = None then None else Some (Fault FatalAbort))" for rest
    by (simp add: expand_alias_def config(4) INFO_def log_then_def log)
  then show ?thesis by (simp only: main_runs [OF assms(1,2) config(1,2)] config(3) option.case)
qed

theorem main_bad_log_spec_witness:
  "snd (main (\<lambda>_. None) (ref_d2xx bypass) (\<lambda>_. Some 0) (ref_os (\<lambda>_. 7)) blank_profile (tinyxvc ''1.0'')
     ((\<lambda>_. None)(''TXVC_LOG_SPEC'' := Some ''all'')) 1000 1000 ''txvc'' [''-p'', ''ft232h''] logger_statics
     no_clients fresh_ftdi) = None"
proof -
  let ?env = "(\<lambda>_. None)(''TXVC_LOG_SPEC'' := Some ''all'')"
  let ?cf = "default_config\<lparr>cf_profile := Some ''ft232h'', cf_logTagSpec := ''all''\<rparr>"
  have cf: "txvc_load_config ?env [''-p'', ''ft232h''] = Some ?cf" by code_simp
  have h: "\<not> help_wanted ?cf" "cf_profile ?cf = Some ''ft232h''"
    by (simp_all add: help_wanted_def default_config_def)
  have a: "txvc_find_alias_by_name ''ft232h'' = Some (snd (hd gAliases))" by code_simp
  have spec: "cf_logTagSpec ?cf = spec_str [] @ ''all''" "list_all (plain_name \<circ> fst) []" "plain_name ''all''"
    "''all'' \<noteq> [] \<or> resolve ''txvc'' [] None = None" "gCurConfigId logger_statics = 0"
    by (simp_all add: spec_str_def plain_name_def logger_statics_def)
  show ?thesis by (subst main_bad_log_spec [OF _ _ cf h a spec]) simp_all
qed

end
