(* ===== verification/Server_Interrupt.thy ===== *)
theory Server_Interrupt
  imports Server_Frame Main_Startup
begin

text \<open>
  Stopping the program (\<open>sigint_handler\<close> and \<open>listen_for_user_interrupt\<close> of \<open>txvc/txvc.c\<close>): any
  operating system, with a user who sends the signal at some point and calls that may wait for ever.
  The server polls the flag that the handler sets, so it runs until the signal arrives and ends
  then, whatever the clients, the driver and the system do.

  A call that never returns is one after which the system fails every call and the flag reads as
  not set, for then the server does not end either. What is not covered is a signal that arrives
  between a test of the flag and the call that then waits: it does not interrupt the call.
\<close>

subsection \<open>The signal\<close>

text \<open>The flag, what the handler has written, how many more tests of the flag there are before the
  signal arrives, if it is still to come, and whether a call has never returned.\<close>

record signals =
  shouldTerminate :: bool
  terminal :: string
  due :: "nat option"
  hung :: bool

definition sigint_handler :: "signals \<Rightarrow> signals" where
  "sigint_handler g = g\<lparr>terminal := terminal g @ ''Terminating...'' @ newline, shouldTerminate := True\<rparr>"

record sigaction =
  sa_flags :: u32
  sa_handler :: "signals \<Rightarrow> signals"

definition SA_RESTART :: u32 where "SA_RESTART = 0x10000000"

text \<open>The action it installs for the signal.\<close>

definition listen_for_user_interrupt :: sigaction where
  "listen_for_user_interrupt = \<lparr>sa_flags = 0, sa_handler = sigint_handler\<rparr>"

text \<open>What may have happened when the flag is tested, and in a call that has to wait: the signal ends
  it, unless the call is restarted.\<close>

definition poll_signal :: "sigaction \<Rightarrow> signals \<Rightarrow> signals" where
  "poll_signal sa g = (case due g of
     None \<Rightarrow> g
   | Some 0 \<Rightarrow> sa_handler sa (g\<lparr>due := None\<rparr>)
   | Some (Suc k) \<Rightarrow> g\<lparr>due := Some k\<rparr>)"

definition wait_signal :: "sigaction \<Rightarrow> signals \<Rightarrow> signals" where
  "wait_signal sa g = (if due g = None then g\<lparr>hung := True\<rparr>
     else let g' = sa_handler sa (g\<lparr>due := None\<rparr>) in
       if sa_flags sa AND SA_RESTART \<noteq> 0 then g'\<lparr>hung := True\<rparr> else g')"

datatype io_call = Peek | Recv | Send | Accept_call

text \<open>The operating system \<open>os\<close> with this flag for the one the server tests; \<open>blocks\<close> says which
  calls have nothing to return, in which states.\<close>

definition interrupted ::
  "sigaction \<Rightarrow> (io_call \<Rightarrow> 'n \<Rightarrow> bool) \<Rightarrow> 'n os \<Rightarrow> ('n \<times> signals) os" where
  "interrupted sa blocks os = \<lparr>
     os_terminate = (\<lambda>(n, g). let g = poll_signal sa g in (shouldTerminate g \<and> \<not> hung g, n, g)),
     os_malloc = (\<lambda>sz (n, g). case os_malloc os sz n of (v, n) \<Rightarrow> (v, n, g)),
     os_peek = (\<lambda>s sz (n, g). if hung g then (- 1, [], n, g)
       else if blocks Peek n then (- 1, [], n, wait_signal sa g)
       else case os_peek os s sz n of (r, v, n) \<Rightarrow> (r, v, n, g)),
     os_recv = (\<lambda>s sz (n, g). if hung g then (- 1, [], n, g)
       else if blocks Recv n then (- 1, [], n, wait_signal sa g)
       else case os_recv os s sz n of (r, v, n) \<Rightarrow> (r, v, n, g)),
     os_send = (\<lambda>s bs (n, g). if hung g then (- 1, n, g)
       else if blocks Send n then (- 1, n, wait_signal sa g)
       else case os_send os s bs n of (r, n) \<Rightarrow> (r, n, g)),
     os_socket = (\<lambda>(n, g). case os_socket os n of (s, n) \<Rightarrow> (s, n, g)),
     os_bind = (\<lambda>s a p (n, g). case os_bind os s a p n of (r, n) \<Rightarrow> (r, n, g)),
     os_listen = (\<lambda>s (n, g). case os_listen os s n of (r, n) \<Rightarrow> (r, n, g)),
     os_accept = (\<lambda>s (n, g). if hung g then (- 1, False, n, g)
       else if blocks Accept_call n then (- 1, False, n, wait_signal sa g)
       else case os_accept os s n of (k, inet, n) \<Rightarrow> (k, inet, n, g)),
     os_shutdown = (\<lambda>s (n, g). (os_shutdown os s n, g)),
     os_close = (\<lambda>s (n, g). (os_close os s n, g))\<rparr>"

lemma interrupted_calls [simp]:
  "os_terminate (interrupted sa blocks os) n = (shouldTerminate (poll_signal sa (snd n))
     \<and> \<not> hung (poll_signal sa (snd n)), fst n, poll_signal sa (snd n))"
  "os_shutdown (interrupted sa blocks os) k n = (os_shutdown os k (fst n), snd n)"
  "os_close (interrupted sa blocks os) k n = (os_close os k (fst n), snd n)"
  by (simp_all add: interrupted_def case_prod_unfold Let_def)

lemma interrupted_ok: "os_ok os \<Longrightarrow> os_ok (interrupted sa blocks os)"
  by (auto simp: os_ok_def interrupted_def split: prod.splits if_splits)

lemma interrupted_keeps:
  "os_socket (interrupted sa blocks os) n = (k, n1) \<Longrightarrow> snd n1 = snd n"
  "os_bind (interrupted sa blocks os) k a p n = (r, n1) \<Longrightarrow> snd n1 = snd n"
  "os_listen (interrupted sa blocks os) k n = (r, n1) \<Longrightarrow> snd n1 = snd n"
  by (auto simp: interrupted_def case_prod_unfold)

subsection \<open>Before and after the signal\<close>

text \<open>The signal is still to come, or it has come.\<close>

definition awaiting :: "nat \<Rightarrow> signals \<Rightarrow> bool" where
  "awaiting k g \<longleftrightarrow> \<not> shouldTerminate g \<and> \<not> hung g \<and> due g = Some k"

definition signalled :: "signals \<Rightarrow> bool" where
  "signalled g \<longleftrightarrow> shouldTerminate g \<and> \<not> hung g \<and> due g = None"

abbreviation sa_here :: sigaction where "sa_here \<equiv> listen_for_user_interrupt"

lemma wait_here: "awaiting k g \<Longrightarrow> signalled (wait_signal sa_here g)"
  by (simp add: awaiting_def signalled_def wait_signal_def listen_for_user_interrupt_def sigint_handler_def Let_def)

lemma poll_here:
  "awaiting 0 g \<Longrightarrow> signalled (poll_signal sa_here g)"
  "awaiting (Suc k) g \<Longrightarrow> awaiting k (poll_signal sa_here g)"
  "signalled g \<Longrightarrow> poll_signal sa_here g = g"
  by (simp_all add: awaiting_def signalled_def poll_signal_def listen_for_user_interrupt_def sigint_handler_def)

interpretation interrupted: framed_os "interrupted sa_here blocks os" sock
  "\<lambda>n. awaiting k (snd n)" "\<lambda>n. signalled (snd n)"
proof unfold_locales
  have hung: "awaiting k g \<Longrightarrow> \<not> hung g" for g by (simp add: awaiting_def)
  note calls = interrupted_def case_prod_unfold
  show "awaiting k (snd n')"
    if "awaiting k (snd n)" "os_malloc (interrupted sa_here blocks os) sz n = (v, n')" for n sz v n'
    using that by (auto simp: calls)
  show "awaiting k (snd n') \<or> r < 0 \<and> signalled (snd n')"
    if "awaiting k (snd n)" "os_peek (interrupted sa_here blocks os) sock sz n = (r, bs, n')" for n sz r bs n'
    using that hung wait_here by (auto simp: calls split: if_splits)
  show "awaiting k (snd n') \<or> r < 0 \<and> signalled (snd n')"
    if "awaiting k (snd n)" "os_recv (interrupted sa_here blocks os) sock sz n = (r, bs, n')" for n sz r bs n'
    using that hung wait_here by (auto simp: calls split: if_splits)
  show "awaiting k (snd n') \<or> r < 0 \<and> signalled (snd n')"
    if "awaiting k (snd n)" "os_send (interrupted sa_here blocks os) sock bs n = (r, n')" for n bs r n'
    using that hung wait_here by (auto simp: calls split: if_splits)
qed

lemma step_interrupted:
  assumes "awaiting k (snd n)" "connection_step (interrupted sa_here blocks os) drv c n s = Ok (go, c', n', s')"
  shows "awaiting k (snd n') \<or> \<not> go \<and> signalled (snd n')"
  using interrupted.connection_step_kept [OF assms(1) refl assms(2)] by blast

lemma accept_interrupted:
  assumes "awaiting k (snd n)" "os_accept (interrupted sa_here blocks os) ss n = (sock, inet, n')"
  shows "awaiting k (snd n') \<or> sock < 0 \<and> signalled (snd n')"
proof -
  have "\<not> hung (snd n)" using assms(1) by (simp add: awaiting_def)
  then show ?thesis
    using assms wait_here by (auto simp: interrupted_def case_prod_unfold split: if_splits)
qed

text \<open>Closer to the end.\<close>

definition ending :: "nat \<Rightarrow> signals \<Rightarrow> bool" where
  "ending k g \<longleftrightarrow> signalled g \<or> (\<exists>j \<le> k. awaiting j g)"

lemma ending_simps: "signalled g \<Longrightarrow> ending k g" "awaiting k g \<Longrightarrow> ending k g" "ending k g \<Longrightarrow> ending (Suc k) g"
  by (auto simp: ending_def intro: le_SucI)

lemma flag_down: "awaiting k g \<Longrightarrow> \<not> shouldTerminate g"
  by (simp add: awaiting_def)

lemma run_connectin_interrupted:
  assumes "awaiting k (snd n)"
  shows "\<exists>r. run_connectin (interrupted sa_here blocks os) drv c n s = Some r
    \<and> if_ok r (\<lambda>(c', n', s'). ending k (snd n'))"
  using assms
proof (induction k arbitrary: n c s)
  case 0
  then show ?case
    using poll_here(1) [OF 0] by (subst run_connectin.simps) (simp add: signalled_def ending_simps)
next
  case (Suc k)
  let ?g = "poll_signal sa_here (snd n)"
  note round = run_connectin.simps [of "interrupted sa_here blocks os" drv c n s]
  have g: "awaiting k ?g" by (rule poll_here(2) [OF Suc.prems])
  show ?case
  proof (cases "connection_step (interrupted sa_here blocks os) drv c (fst n, ?g) s")
    case (Ok x)
    obtain go c1 n1 s1 where x: "x = (go, c1, n1, s1)" by (cases x)
    have n1: "awaiting k (snd n1) \<or> \<not> go \<and> signalled (snd n1)"
      using step_interrupted [of k "(fst n, ?g)"] g Ok x by simp
    show ?thesis
    proof (cases go)
      case True
      then obtain r where "run_connectin (interrupted sa_here blocks os) drv c1 n1 s1 = Some r"
        "if_ok r (\<lambda>(c', n', s'). ending k (snd n'))" using Suc.IH n1 by blast
      then show ?thesis
        using True flag_down [OF g] Ok x by (auto simp: round if_ok_def intro: ending_simps)
    qed (use n1 flag_down [OF g] Ok x in \<open>auto simp: round intro: ending_simps\<close>)
  qed (use flag_down [OF g] in \<open>simp add: round\<close>)
qed

lemma serve_connection_interrupted:
  assumes "awaiting k (snd n)"
  shows "\<exists>r. serve_connection (interrupted sa_here blocks os) drv sock n s = Some r
    \<and> if_ok r (\<lambda>(n', s'). ending k (snd n'))"
proof -
  obtain r where r: "run_connectin (interrupted sa_here blocks os) drv \<lparr>cn_socket = sock, vectorNumBytes = 0,
      tmsVector = Null, tdiVector = Null, tdoVector = Null\<rparr> n s = Some r"
    "if_ok r (\<lambda>(c', n', s'). ending k (snd n'))"
    using run_connectin_interrupted [OF assms, of blocks os drv _ s] by blast
  show ?thesis
  proof (cases r)
    case (Ok x)
    obtain c1 n1 s1 where x: "x = (c1, n1, s1)" by (cases x)
    show ?thesis
      using r(2) by (cases "deallocate_vectors c1") (simp_all add: serve_connection_def r(1) Ok x)
  qed (simp add: serve_connection_def r(1))
qed

lemma accept_loop_signalled:
  "signalled (snd n) \<Longrightarrow> \<exists>r. accept_loop (interrupted sa_here blocks os) drv ss n s = Some r"
  by (subst accept_loop.simps) (simp add: poll_here(3), simp add: signalled_def)

lemma accept_loop_interrupted:
  assumes "awaiting k (snd n)"
  shows "\<exists>r. accept_loop (interrupted sa_here blocks os) drv ss n s = Some r"
  using assms
proof (induction k arbitrary: n s rule: less_induct)
  case (less k)
  let ?g = "poll_signal sa_here (snd n)" and ?os = "interrupted sa_here blocks os"
  note round = accept_loop.simps [of ?os drv ss n s]
  show ?case
  proof (cases k)
    case 0
    then show ?thesis using poll_here(1) less.prems by (simp add: round signalled_def)
  next
    case (Suc j)
    then have g: "awaiting j ?g" using poll_here(2) less.prems by simp
    have next_round: "\<exists>r. accept_loop ?os drv ss n' s' = Some r" if "ending j (snd n')" for n' s'
      using that less.IH accept_loop_signalled [of n' blocks os drv ss s'] unfolding ending_def Suc
      by (meson le_imp_less_Suc)
    obtain sock inet n2 where a: "os_accept ?os ss (fst n, ?g) = (sock, inet, n2)" by (metis prod_cases3)
    have n2: "awaiting j (snd n2) \<or> sock < 0 \<and> signalled (snd n2)"
      by (rule accept_interrupted [OF _ a]) (simp add: g)
    show ?thesis
    proof (cases "sock < 0")
      case True
      then show ?thesis using next_round [of n2 s] n2 flag_down [OF g] by (auto simp: round a ending_simps)
    next
      case sock: False
      then have w: "awaiting j (snd n2)" using n2 by simp
      obtain r where r: "(if inet then serve_connection ?os drv sock n2 s else Some (Ok (n2, s))) = Some r"
        "if_ok r (\<lambda>(n', s'). ending j (snd n'))"
        using serve_connection_interrupted [OF w, of blocks os drv sock s] w ending_simps(2)
        by (cases inet) auto
      show ?thesis
      proof (cases r)
        case (Ok x)
        obtain n3 s3 where x: "x = (n3, s3)" by (cases x)
        show ?thesis
          using next_round [of "(os_close os sock (os_shutdown os sock (fst n3)), snd n3)" s3]
            flag_down [OF g] sock r(2)
          by (simp add: round a r(1) Ok x)
      qed (use flag_down [OF g] sock in \<open>simp add: round a r(1)\<close>)
    qed
  qed
qed

lemma run_with_address_interrupted:
  assumes "awaiting k (snd n)"
  shows "\<exists>r. run_with_address (interrupted sa_here blocks os) addr port drv n s = Some r"
proof -
  let ?os = "interrupted sa_here blocks os"
  obtain ss n1 where a: "os_socket ?os n = (ss, n1)" by (cases "os_socket ?os n")
  obtain e n2 where b: "os_bind ?os ss addr port n1 = (e, n2)" by (cases "os_bind ?os ss addr port n1")
  obtain e' n3 where c: "os_listen ?os ss n2 = (e', n3)" by (cases "os_listen ?os ss n2")
  have "snd n3 = snd n" using interrupted_keeps(1) [OF a] interrupted_keeps(2) [OF b] interrupted_keeps(3) [OF c] by simp
  then show ?thesis
    using accept_loop_interrupted [of k n3 blocks os drv ss s] assms by (simp add: run_with_address_def a b c)
qed

lemma drive_interrupted:
  assumes "awaiting k (snd n)"
  shows "\<exists>r. drive inet_aton (interrupted sa_here blocks os) config drv args n s = Some r"
proof -
  let ?os = "interrupted sa_here blocks os"
  have server: "\<exists>r. txvc_run_server inet_aton ?os address drv' n w = Some r"
    for address drv' and w :: "'b wrapper"
    using run_with_address_interrupted [OF assms] by (auto simp: txvc_run_server_def split: option.split)
  have "\<exists>r. run_active inet_aton ?os config drv n s = Some r" for s
  proof (cases "txvc_driver_wrapper_setup drv (cf_tckPeriodNanos config) s")
    case (Ok w)
    obtain r where "txvc_run_server inet_aton ?os (cf_serverAddr config) (txvcDriverWrapper drv) n w = Some r"
      using server by blast
    then show ?thesis by (cases r) (auto simp: run_active_def Ok split: prod.split)
  qed (simp add: run_active_def)
  then show ?thesis by (auto simp: drive_def split: c_res.split)
qed

text \<open>C7. The user can stop the program: if the interrupt signal arrives, before some test of the flag
  or in a call that waits for the client or the network, then \<open>main\<close> does not go on for ever,
  whatever the command line, the driver, the D2XX library, the operating system and the clients
  are and do; and unless it is started on an FTDI chip, whose driver can run into the faults
  shown elsewhere, it then exits with one of its two statuses or by an abort of the logger. (The
  specification of the log tags has to be well-formed and to cover the program's tags, and the
  calls of the D2XX library have to return.)\<close>
theorem main_interruptible:
  assumes "profile_object profile" "list_all nul_free args" "log_env_ok getenv" "os_ok os"
    and "\<not> shouldTerminate g" "\<not> hung g" "due g = Some k"
  shows "\<exists>r. snd (main malloc dx inet_aton (interrupted listen_for_user_interrupt blocks os) profile project
      getenv uid euid progname args logger (n, g) s) = Some r
    \<and> ((\<forall>config name drvArgs. startup getenv uid euid args = Inr (config, name, drvArgs) \<longrightarrow> name = ''echo'')
      \<longrightarrow> c_safe r (\<lambda>(status, _). status = EXIT_SUCCESS \<or> status = EXIT_FAILURE))"
proof -
  have g: "awaiting k (snd (n, g))" using assms(5-7) by (simp add: awaiting_def)
  have "\<exists>r. snd (main malloc dx inet_aton (interrupted listen_for_user_interrupt blocks os)
      profile project getenv uid euid progname args logger (n, g) s) = Some r"
  proof (cases "startup getenv uid euid args")
    case (Inr x)
    obtain config name drvArgs where x: "x = (config, name, drvArgs)" by (metis prod_cases3)
    show ?thesis by (simp add: main_starts [OF assms(1-3)] Inr x drive_interrupted [OF g])
  qed (simp add: main_starts [OF assms(1-3)])
  then obtain r where r: "snd (main malloc dx inet_aton (interrupted listen_for_user_interrupt blocks os)
      profile project getenv uid euid progname args logger (n, g) s) = Some r" ..
  then show ?thesis using main_exits [OF assms(1,2) interrupted_ok [OF assms(4)] _ r] by blast
qed

theorem main_interruptible_witness:
  "\<exists>r. snd (main (\<lambda>_. None) (ref_d2xx bypass) (\<lambda>_. Some 0)
      (interrupted listen_for_user_interrupt (\<lambda>call n. call = Accept_call) (ref_os (\<lambda>_. 7))) blank_profile
      (tinyxvc ''1.0'') (\<lambda>_. None) 1000 1000 ''txvc'' [''-p'', ''echo''] logger_statics
      (no_clients, \<lparr>shouldTerminate = False, terminal = [], due = Some 9, hung = False\<rparr>) fresh_ftdi) = Some r
    \<and> c_safe r (\<lambda>(status, _). status = EXIT_SUCCESS \<or> status = EXIT_FAILURE)"
    (is "\<exists>r. ?main = Some r \<and> ?safe r")
proof -
  have args: "list_all nul_free [''-p'', ''echo'']" by code_simp
  have start: "startup (\<lambda>_. None) 1000 1000 [''-p'', ''echo'']
      = Inr (default_config\<lparr>cf_profile := Some ''echo'', cf_logTagSpec := ''all+''\<rparr>, ''echo'', [])" by code_simp
  have "\<exists>r. ?main = Some r
    \<and> ((\<forall>config name drvArgs. startup (\<lambda>_. None) 1000 1000 [''-p'', ''echo''] = Inr (config, name, drvArgs)
        \<longrightarrow> name = ''echo'') \<longrightarrow> ?safe r)"
    by (rule main_interruptible [OF blank_profile args default_env_ok ref_os_ok]) simp_all
  then show ?thesis by (simp add: start)
qed

subsection \<open>Nothing else\<close>













end
