(* ===== verification/Spec2Isabelle.thy ===== *)
theory Spec2Isabelle
  imports Player Ftdi_Safety Ftdi_Limits Ftdi_Help_Truth Tiny_Assert Server_Sockets Server_Interrupt
begin

text \<open>
  TinyXVC, a server for the Xilinx Virtual Cable protocol: it accepts one TCP client at a time,
  receives JTAG vectors (TMS and TDI bits) and clocks them out on a cable driver, of which there
  are two: an FTDI chip with an MPSSE engine, and an echo driver for tests.

  \<^bold>\<open>The program and its parts.\<close> \<open>main\<close> (\<open>txvc/txvc.c\<close>) reads the command line and the environment,
  configures the logger (\<open>libtxvc/log.c\<close>), resolves profile aliases (\<open>txvc/alias.c\<close>), parses
  the profile (\<open>libtxvc/profile.c\<close>), activates the driver it names (\<open>libdrivers\<close>), wraps it
  (\<open>txvc/driver_wrapper.c\<close>) and runs the server (\<open>libtxvc/server.c\<close>) until it is interrupted. For
  each vector the FTDI driver (\<open>libdrivers/ftdi_generic.c\<close>) has the splitter
  (\<open>libtxvc/jtag_splitter.c\<close>) cut it, along the TAP states, into TMS and TDI shifts; a callback
  turns those into MPSSE commands in a command buffer, whose blocks come from an arena
  (\<open>libtxvc/mempool.c\<close>) and whose answers are handed to queued observers when it is flushed
  through the D2XX library. \<open>player/player.c\<close> feeds the splitter from a capture file, and
  \<open>libtinytest\<close> runs the unit tests.

  \<^bold>\<open>Theories.\<close>
  \<^item> \<open>Txvc_Prelude\<close>: outcomes \<open>c_res\<close> of C code (a value, an abort, a trap, or an undefined
    behaviour), checked integer arithmetic and array accesses, and their laws. \<open>c_safe\<close> says that
    the only way not to return is the logger's abort, \<open>c_out\<close> has a flag that excludes that too.
    \<open>C_Strings\<close>: \<open>strtol\<close> and characters of C strings.
  \<^item> \<open>Bit_Vector\<close>, \<open>Mempool\<close>, \<open>Profile\<close>, \<open>Logger\<close>, \<open>Jtag_Splitter\<close>: the files of \<open>libtxvc\<close>
    they are named after, one definition for each function, loop or loop body. \<open>Log_Session\<close>:
    runs of configurations and messages.
  \<^item> \<open>Ftdi_Config\<close>, \<open>Byte_Copy\<close>, \<open>Ftdi_Buffer\<close>, \<open>Ftdi_Driver\<close>, \<open>Ftdi_Device\<close>: \<open>ftdi_generic.c\<close> in
    its order: the configuration loader (its help text is in \<open>Ftdi_Help\<close>, compared with the loader in \<open>Ftdi_Help_Truth\<close>), bit and byte copying,
    the command buffer, the driver's state with the translation of splitter events, and the operations. \<open>Mpsse_Chip\<close> is the
    reference of the other end, an MPSSE engine with a JTAG target. \<open>Ftdi_Shift\<close>, \<open>Ftdi_Cable\<close>,
    \<open>Ftdi_Shifting\<close>, \<open>Ftdi_Tck\<close>, \<open>Ftdi_Activation\<close>, \<open>Ftdi_Safety\<close> and \<open>Ftdi_Limits\<close> hold the proofs about it.
  \<^item> \<open>Driver\<close>: the record of \<open>driver.h\<close> and the contracts of a driver. \<open>Server\<close>: \<open>server.c\<close>, for
    any operating system and driver. \<open>Xvc_Session\<close>: the server as its clients see it.
    \<open>Server_Machine\<close>: its two loops as a state machine, which agrees with the functions.
    \<open>Server_Frame\<close>: what a connection leaves alone. \<open>Server_Sockets\<close>: a ledger of the sockets
    that are open. \<open>Server_Interrupt\<close>: the signal that ends the program.
    \<open>Drivers\<close>: \<open>echo.c\<close>, the FTDI driver behind the interface, and the registry \<open>drivers.c\<close>.
    \<open>Driver_Wrapper\<close>, \<open>Alias\<close>: files of \<open>txvc\<close>. \<open>txvc.c\<close> is in \<open>Txvc_Config\<close> (options, command
    line, environment), \<open>Txvc_Help\<close> (what it prints on request) and \<open>Txvc_Main\<close> (\<open>main\<close>).
    \<open>Main_Startup\<close>: what \<open>main\<close> refuses, and its safety. \<open>Player\<close>: \<open>player.c\<close>.
    \<open>Tiny_Test\<close> and \<open>Tiny_Assert\<close>: \<open>libtinytest\<close>, the runner and the assertions.

  \<^bold>\<open>State.\<close> A C struct is a record with its fields, an enum a datatype, \<open>uint8_t\<close> and \<open>size_t\<close> are
  words, \<open>int\<close> is \<open>int\<close> with its range checked at every operation that could leave it, with one
  exception: the shift of an octet into the sign bit by \<open>recv_xvc_int\<close> (\<open>server.c\<close>), which C11 leaves
  undefined, wraps around as GCC documents it. Buffers are lists. Memory that is written through pointers kept elsewhere is explicit: \<open>mem\<close> maps the
  references of the TDO and response buffers to their contents as long as they live,
  \<open>bit_extras\<close> the addresses of the observers' arguments in the arena. What is not under \<open>src/\<close> is
  an argument: \<open>malloc\<close>, the D2XX library (a record of functions on the world \<open>'w\<close>), the operating
  system (a record of socket calls on \<open>'n\<close>), \<open>getenv\<close> and \<open>inet_aton\<close>. What the sources rely on there
  are named hypotheses: \<open>d2xx_ok\<close> (\<open>FT_Read\<close> stores no more than it is asked for),
  \<open>device_list_documented\<close> (\<open>FT_GetDeviceInfoList\<close> stores an entry for each device that was counted),
  \<open>malloc_ok\<close>, \<open>os_ok\<close>, and \<open>chip_d2xx\<close> for the reference chip, each with an instance in a witness.

  \<^bold>\<open>Interfaces.\<close>
  \<^item> \<open>bump_arena\<close> (\<open>Mempool\<close>): allocation of disjoint blocks in order, interpreted on the pool.
  \<^item> \<open>jtag_sink\<close> (\<open>Jtag_Splitter\<close>): a callback that survives every event the splitter makes;
    interpreted on the FTDI driver's callback and on the player's.
  \<^item> \<open>command_link\<close> (\<open>Ftdi_Shift\<close>): what is queued and what a flush will do with it. Interpreted
    for an arbitrary D2XX library, which gives safety, and for the reference chip, which gives
    correctness, so that each proof about the translation is made once.
  \<^item> \<open>safe_driver\<close>, \<open>served_driver\<close> (\<open>Driver\<close>): what the server needs to be safe and to serve its
    clients; interpreted on the echo driver, on the FTDI driver, and by \<open>sublocale\<close> on a wrapped
    driver of either kind.
  \<^item> \<open>framed_os\<close> (\<open>Server_Frame\<close>): a property of the operating system's state that the calls a
    connection makes keep, unless they fail and another one holds; interpreted for the ledger of
    sockets, for the pending signal, and for whether the signal comes at all.

  \<^bold>\<open>What is shown.\<close>
  \<^item> The composition: started as an ordinary user with a valid profile on the reference chip, the
    program serves any number of clients and answers every request of theirs with what the JTAG
    target gives (\<open>Txvc_Main.main_serves_clients\<close>). Its parts: activation leaves a ready driver,
    \<open>shift_bits\<close> is the bit-by-bit \<open>cable\<close>, the period is the nearest the chip has, the splitter
    refines \<open>split_bits\<close>, whose events reproduce the vector's TMS bits and have TDI data exactly in
    the Shift states.
  \<^item> Safety in a hostile environment: the FTDI driver with a D2XX library that fails at any call,
    the server with any operating system, any client and any driver that keeps its contract. The
    latter holds in every state the server reaches, also when it never returns, as does that no
    socket is used or closed that is not open. With the echo driver the whole program is safe for
    every command line and every environment; started with an alias and a log specification that
    is malformed or too narrow, it does not get past its first message. A D2XX library that reports
    more devices than the driver has room for, or an empty serial number, takes activation out of
    its arrays (\<open>Ftdi_Safety.activate_list_overflows\<close>), and nothing else does.
  \<^item> Ending: if the interrupt signal arrives, before a test of the flag or in a call that waits, the
    program does not go on for ever, whatever the driver, the system and the clients do; and a
    server that listens is ended by the signal or an abort and by nothing else
    (\<open>Server_Interrupt\<close>).
  \<^item> Components: disjointness and alignment of arena blocks, the profile parser against a
    functional one and its round trip, the bit vector formatters, tag resolution of the logger and
    what it prints over a run, the loader of the configuration, the wrapper's handling of the
    period, the aliases, the player, the test runner and its assertions; and that the help texts,
    read line by line, show exactly the options, variables, drivers, aliases, parameters and values
    that the code takes.
  \<^item> Limits and faults of the code, as theorems: the formatters and the logger that do not return,
    the requests of the client that overflow, run into a trap, exhaust an arena or keep the server
    spinning, and the observer of a dead buffer after a failed synchronisation check.

  \<^bold>\<open>Loops, bounds and fuel.\<close> Loops that end are recursive functions with their measure. Those
  that may not end (the formatters, the resolution of a tag, a connection, the accept loop) are
  \<open>partial_function (option)\<close>, where \<open>None\<close> is not to return, and that they return is proved
  where it holds. The only fuel is that of \<open>append_tdi_loop\<close>: the number of bits, of which every
  iteration transfers one at least, so \<open>OutOfFuel\<close> is among the faults that are shown impossible.
  Vectors of up to 1792 bits are shown to be served: that many commands fit in the arenas that
  \<open>activate\<close> allocates even if each bit takes a command of its own. Longer ones are
  safe, but may exhaust an arena, which aborts the program: \<open>Ftdi_Limits\<close> has a vector of
  7296 bits that does, although longer ones are announced. \<open>2 ^ 31 - 8\<close> is the longest vector
  the splitter can count, and \<open>2 ^ 63\<close> bounds the addresses of \<open>malloc\<close>.

  \<^bold>\<open>Not modelled.\<close> The log messages of the components other than \<open>main\<close>, and the functions that only
  format them: with a log specification that covers the program's tags (\<open>log_spec_ok\<close>) the logger
  returns from each of them (\<open>Log_Session\<close>), and with another one the program seldom gets that far;
  messages to \<open>stderr\<close>; \<open>txvc_bit_vector_random\<close>, which reads \<open>/dev/urandom\<close>; a signal that
  arrives between a test of the flag and the call that then waits, which does not end that call
  (one that arrives in the call does, for the handler is installed without \<open>SA_RESTART\<close>); the D2XX library, the C
  library and the kernel, which are arguments; concurrency, of which the program has none but the
  signal; the unit tests themselves and the build and packaging scripts.
\<close>

end
